(* ===== verification/Prelude.thy ===== *)
theory Prelude
  imports Main "HOL-Library.Word" "HOL-Library.Multiset" "HOL-Library.Monad_Syntax"
begin

unbundle bit_operations_syntax

text \<open>
  Shared vocabulary of the development: the machine types of the Go sources as words, Go slices as
  lists indexed by Go \<^emph>\<open>int\<close> values with the panic of an out-of-range access written out, and the
  generic list, option and word facts the component theories use.  A Go function that may panic
  returns an \<open>option\<close>, \<open>None\<close> standing for the panic.
\<close>

section \<open>Machine types\<close>

type_synonym u8 = "8 word"
type_synonym u16 = "16 word"
type_synonym u32 = "32 word"
type_synonym u64 = "64 word"

section \<open>Go slices\<close>

text \<open>
  \<open>go_nth xs i\<close> is the read \<open>xs[i]\<close>, \<open>go_upd xs i v\<close> the write \<open>xs[i] = v\<close>: both panic (\<open>None\<close>)
  unless \<open>0 \<le> i < len(xs)\<close>.
\<close>

definition go_nth :: "'a list \<Rightarrow> int \<Rightarrow> 'a option" where
  "go_nth xs i = (if 0 \<le> i \<and> i < int (length xs) then Some (xs ! nat i) else None)"

definition go_upd :: "'a list \<Rightarrow> int \<Rightarrow> 'a \<Rightarrow> 'a list option" where
  "go_upd xs i v = (if 0 \<le> i \<and> i < int (length xs) then Some (xs[nat i := v]) else None)"

text \<open>\<open>copy(dst, src)\<close> overwrites a prefix of \<open>dst\<close> with as much of \<open>src\<close> as fits.\<close>

definition go_copy :: "'a list \<Rightarrow> 'a list \<Rightarrow> 'a list" where
  "go_copy dst src = take (length dst) src @ drop (length src) dst"

lemma length_go_copy [simp]: "length (go_copy dst src) = length dst"
  by (simp add: go_copy_def)

text \<open>Integer division of Go truncates towards zero.\<close>

definition go_quot :: "int \<Rightarrow> int \<Rightarrow> int" where
  "go_quot a b = sgn a * sgn b * (\<bar>a\<bar> div \<bar>b\<bar>)"

text \<open>The sum of two \<open>int64\<close> values wraps around at 64 bits.\<close>

definition add64 :: "int \<Rightarrow> int \<Rightarrow> int" where
  "add64 a b = (a + b + 2 ^ 63) mod 2 ^ 64 - 2 ^ 63"

lemma add64_small: "- (2 ^ 63) \<le> a + b \<Longrightarrow> a + b < 2 ^ 63 \<Longrightarrow> add64 a b = a + b"
  by (simp add: add64_def mod_pos_pos_trivial)

named_theorems go_slice

lemma go_nth_Some_iff [go_slice]:
  "go_nth xs i = Some v \<longleftrightarrow> 0 \<le> i \<and> i < int (length xs) \<and> xs ! nat i = v"
  by (auto simp: go_nth_def)

lemma go_upd_Some_iff [go_slice]:
  "go_upd xs i v = Some ys \<longleftrightarrow> 0 \<le> i \<and> i < int (length xs) \<and> ys = xs[nat i := v]"
  by (auto simp: go_upd_def)

lemma go_nth_in [simp]: "0 \<le> i \<Longrightarrow> i < int (length xs) \<Longrightarrow> go_nth xs i = Some (xs ! nat i)"
  by (simp add: go_nth_def)

lemma go_quot_2_nonneg: "0 \<le> a \<Longrightarrow> go_quot a 2 = a div 2"
  by (cases "a = 0") (auto simp: go_quot_def)

end
