(* ===== verification/AlgoSort.thy ===== *)
theory AlgoSort
  imports Prelude
begin

text \<open>
  The in-place quicksort of \<^verbatim>\<open>src/algo/algorithm.go\<close> (\<open>Sort\<close>).  The slice is a list, the Go \<open>int\<close>
  indices are \<open>int\<close> (the index \<open>j\<close> can become \<open>-1\<close>), and every read goes through \<open>go_nth\<close>, so that an
  out-of-range access would be a panic.  The theory proves that the function terminates, never
  panics on a range inside the slice, and sorts that range.
\<close>

section \<open>The code\<close>

text \<open>The two inner scans \<open>for arr[i] < key { i++ }\<close> and \<open>for arr[j] > key { j-- }\<close>.\<close>

function scan_up :: "u8 list \<Rightarrow> u8 \<Rightarrow> int \<Rightarrow> int option" where
  "scan_up arr key i =
     (if 0 \<le> i \<and> i < int (length arr)
      then (if arr ! nat i < key then scan_up arr key (i + 1) else Some i)
      else None)"
  by pat_completeness auto
termination
  by (relation "measure (\<lambda>(arr, key, i). nat (int (length arr) - i))") auto

function scan_down :: "u8 list \<Rightarrow> u8 \<Rightarrow> int \<Rightarrow> int option" where
  "scan_down arr key j =
     (if 0 \<le> j \<and> j < int (length arr)
      then (if arr ! nat j > key then scan_down arr key (j - 1) else Some j)
      else None)"
  by pat_completeness auto
termination
  by (relation "measure (\<lambda>(arr, key, j). nat (j + 1))") auto

declare scan_up.simps [simp del] scan_down.simps [simp del]

lemma scan_up_Some:
  "scan_up arr key i = Some i' \<Longrightarrow>
     0 \<le> i \<and> i \<le> i' \<and> i' < int (length arr) \<and> arr ! nat i' \<ge> key \<and>
     (\<forall>p. i \<le> p \<and> p < i' \<longrightarrow> arr ! nat p < key)"
proof (induction arr key i rule: scan_up.induct)
  case (1 arr key i)
  show ?case
  proof (cases "0 \<le> i \<and> i < int (length arr) \<and> arr ! nat i < key")
    case True
    with 1 have "scan_up arr key (i + 1) = Some i'"
      by (simp add: scan_up.simps [of arr key i])
    with 1 True have *: "i + 1 \<le> i' \<and> i' < int (length arr) \<and> arr ! nat i' \<ge> key \<and>
        (\<forall>p. i + 1 \<le> p \<and> p < i' \<longrightarrow> arr ! nat p < key)" by auto
    have "\<forall>p. i \<le> p \<and> p < i' \<longrightarrow> arr ! nat p < key"
      using * True by (metis add1_zle_eq order_le_less)
    with * True show ?thesis by auto
  next
    case False
    with 1 show ?thesis by (auto simp: scan_up.simps [of arr key i] split: if_splits)
  qed
qed

lemma scan_down_Some:
  "scan_down arr key j = Some j' \<Longrightarrow>
     0 \<le> j' \<and> j' \<le> j \<and> j < int (length arr) \<and> arr ! nat j' \<le> key \<and>
     (\<forall>p. j' < p \<and> p \<le> j \<longrightarrow> arr ! nat p > key)"
proof (induction arr key j rule: scan_down.induct)
  case (1 arr key j)
  show ?case
  proof (cases "0 \<le> j \<and> j < int (length arr) \<and> arr ! nat j > key")
    case True
    with 1 have "scan_down arr key (j - 1) = Some j'"
      by (simp add: scan_down.simps [of arr key j])
    with 1 True have *: "0 \<le> j' \<and> j' \<le> j - 1 \<and> arr ! nat j' \<le> key \<and>
        (\<forall>p. j' < p \<and> p \<le> j - 1 \<longrightarrow> arr ! nat p > key)" by auto
    have "\<forall>p. j' < p \<and> p \<le> j \<longrightarrow> arr ! nat p > key"
      using * True by (metis order_le_less zle_diff1_eq)
    with * True show ?thesis by auto
  next
    case False
    with 1 show ?thesis by (auto simp: scan_down.simps [of arr key j] split: if_splits)
  qed
qed

text \<open>The swap \<open>arr[i], arr[j] = arr[j], arr[i]\<close>, executed only at indices the scans have read.\<close>

definition swap :: "'a list \<Rightarrow> nat \<Rightarrow> nat \<Rightarrow> 'a list" where
  "swap arr i j = arr[i := arr ! j, j := arr ! i]"

text \<open>The partition loop \<open>for i <= j { ... }\<close>; it returns the slice and the final \<open>i\<close> and \<open>j\<close>.\<close>

function part_loop :: "u8 list \<Rightarrow> u8 \<Rightarrow> int \<Rightarrow> int \<Rightarrow> (u8 list \<times> int \<times> int) option" where
  "part_loop arr key i j =
     (if i \<le> j then do {
        i' \<leftarrow> scan_up arr key i;
        j' \<leftarrow> scan_down arr key j;
        (if i' \<le> j'
         then part_loop (swap arr (nat i') (nat j')) key (i' + 1) (j' - 1)
         else part_loop arr key i' j')
      }
      else Some (arr, i, j))"
  by pat_completeness auto
termination
proof (relation "measure (\<lambda>(arr, key, i, j). nat (j + 1 - i))", goal_cases)
  case 1
  then show ?case by simp
next
  case (2 arr key i j i' j')
  then show ?case using scan_up_Some [of arr key i i'] scan_down_Some [of arr key j j'] by auto
next
  case (3 arr key i j i' j')
  then show ?case by auto
qed

declare part_loop.simps [simp del]

lemma length_swap [simp]: "length (swap arr i j) = length arr"
  by (simp add: swap_def)

lemma nth_swap: "i < length arr \<Longrightarrow> j < length arr \<Longrightarrow> p < length arr \<Longrightarrow>
   swap arr i j ! p = (if p = j then arr ! i else if p = i then arr ! j else arr ! p)"
  by (simp add: swap_def)

lemma mset_swap_eq [simp]: "i < length arr \<Longrightarrow> j < length arr \<Longrightarrow> mset (swap arr i j) = mset arr"
  by (simp add: swap_def mset_swap)

text \<open>
  What the partition loop computes from a state in which the part left of \<open>i\<close> is at most the key and
  the part right of \<open>j\<close> at least the key.  \<open>lo\<close> and \<open>hi\<close> are the ends of the range being partitioned.
\<close>

definition part_inv :: "u8 list \<Rightarrow> u8 \<Rightarrow> int \<Rightarrow> int \<Rightarrow> int \<Rightarrow> int \<Rightarrow> bool" where
  "part_inv arr key lo hi i j \<longleftrightarrow>
     0 \<le> lo \<and> hi < int (length arr) \<and> lo \<le> i \<and> j \<le> hi \<and>
     (\<forall>p. lo \<le> p \<and> p < i \<longrightarrow> arr ! nat p \<le> key) \<and>
     (\<forall>p. j < p \<and> p \<le> hi \<longrightarrow> arr ! nat p \<ge> key)"

text \<open>The sentinels that keep both scans inside the range.\<close>

definition part_sent :: "u8 list \<Rightarrow> u8 \<Rightarrow> int \<Rightarrow> int \<Rightarrow> int \<Rightarrow> int \<Rightarrow> bool" where
  "part_sent arr key lo hi i j \<longleftrightarrow>
     (\<exists>p. i \<le> p \<and> p \<le> hi \<and> arr ! nat p \<ge> key) \<and> (\<exists>p. lo \<le> p \<and> p \<le> j \<and> arr ! nat p \<le> key)"

lemma scan_up_total:
  "0 \<le> i \<Longrightarrow> i \<le> p \<Longrightarrow> p < int (length arr) \<Longrightarrow> arr ! nat p \<ge> key \<Longrightarrow>
     \<exists>i'. scan_up arr key i = Some i' \<and> i' \<le> p"
proof (induction arr key i rule: scan_up.induct)
  case (1 arr key i)
  show ?case
  proof (cases "arr ! nat i < key")
    case True
    with 1 have "i \<noteq> p" by auto
    with 1 True show ?thesis by (auto simp: scan_up.simps [of arr key i])
  next
    case False
    with 1 show ?thesis by (auto simp: scan_up.simps [of arr key i])
  qed
qed

lemma scan_down_total:
  "0 \<le> p \<Longrightarrow> p \<le> j \<Longrightarrow> j < int (length arr) \<Longrightarrow> arr ! nat p \<le> key \<Longrightarrow>
     \<exists>j'. scan_down arr key j = Some j' \<and> p \<le> j'"
proof (induction arr key j rule: scan_down.induct)
  case (1 arr key j)
  show ?case
  proof (cases "arr ! nat j > key")
    case True
    with 1 have "j \<noteq> p" by auto
    with 1 True show ?thesis by (auto simp: scan_down.simps [of arr key j])
  next
    case False
    with 1 show ?thesis by (auto simp: scan_down.simps [of arr key j])
  qed
qed

lemma part_loop_mono:
  "part_loop arr key i j = Some (arr', i', j') \<Longrightarrow> i \<le> i' \<and> j' \<le> j \<and> length arr' = length arr"
proof (induction arr key i j rule: part_loop.induct)
  case (1 arr key i j)
  show ?case
  proof (cases "i \<le> j")
    case True
    with "1.prems" obtain i1 j1 where scans: "scan_up arr key i = Some i1" "scan_down arr key j = Some j1"
      by (auto simp: part_loop.simps [of arr key i j] bind_eq_Some_conv)
    note bounds = scan_up_Some [OF scans(1)] scan_down_Some [OF scans(2)]
    show ?thesis
    proof (cases "i1 \<le> j1")
      case le: True
      with "1.prems" True scans
      have "part_loop (swap arr (nat i1) (nat j1)) key (i1 + 1) (j1 - 1) = Some (arr', i', j')"
        by (simp add: part_loop.simps [of arr key i j])
      from "1.IH"(1) [OF True scans le this] bounds show ?thesis by auto
    next
      case nle: False
      with "1.prems" True scans have "part_loop arr key i1 j1 = Some (arr', i', j')"
        by (simp add: part_loop.simps [of arr key i j])
      from "1.IH"(2) [OF True scans nle this] bounds show ?thesis by auto
    qed
  next
    case False
    with "1.prems" show ?thesis by (simp add: part_loop.simps [of arr key i j])
  qed
qed

text \<open>When the key occurs inside the range, the loop shrinks it on both sides.\<close>

lemma part_loop_progress:
  assumes "part_loop arr key i j = Some (arr', i', j')"
    and "i \<le> m" and "m \<le> j" and "arr ! nat m = key"
  shows "i < i' \<and> j' < j"
proof -
  from assms have "i \<le> j" by simp
  with assms(1) obtain i1 j1 where scans: "scan_up arr key i = Some i1" "scan_down arr key j = Some j1"
    by (auto simp: part_loop.simps [of arr key i j] bind_eq_Some_conv)
  note bounds = scan_up_Some [OF scans(1)] scan_down_Some [OF scans(2)]
  have "i1 \<le> m" using bounds assms by (metis linorder_not_less order_less_irrefl)
  moreover have "m \<le> j1" using bounds assms by (metis linorder_not_less order_less_irrefl)
  ultimately have "part_loop (swap arr (nat i1) (nat j1)) key (i1 + 1) (j1 - 1) = Some (arr', i', j')"
    using assms(1) \<open>i \<le> j\<close> scans by (simp add: part_loop.simps [of arr key i j])
  from part_loop_mono [OF this] bounds show ?thesis by auto
qed

lemma mid_between: "(0::int) \<le> s \<Longrightarrow> s < e \<Longrightarrow> s \<le> go_quot (s + e) 2 \<and> go_quot (s + e) 2 < e"
  using go_quot_2_nonneg [of "s + e"] by linarith

lemma part_loop_start_nonneg: "part_loop arr key s e = Some r \<Longrightarrow> s \<le> e \<Longrightarrow> 0 \<le> s"
  by (auto simp: part_loop.simps [of arr key s e] bind_eq_Some_conv dest: scan_up_Some)

lemma part_loop_shrinks:
  assumes "s < e" and "go_nth arr (go_quot (s + e) 2) = Some key"
    and "part_loop arr key s e = Some (arr', i, j)"
  shows "s < i \<and> j < e"
proof -
  have "0 \<le> s" using part_loop_start_nonneg [OF assms(3)] assms(1) by simp
  from mid_between [OF this assms(1)] assms(2) show ?thesis
    by (intro part_loop_progress [OF assms(3)]) (auto simp: go_slice)
qed

text \<open>\<open>Sort(arr, start, end)\<close>, with the updated slice as its result.\<close>

function Sort :: "u8 list \<Rightarrow> int \<Rightarrow> int \<Rightarrow> u8 list option" where
  "Sort arr start end =
     (if start < end then do {
        key \<leftarrow> go_nth arr (go_quot (start + end) 2);
        (arr1, i, j) \<leftarrow> part_loop arr key start end;
        arr2 \<leftarrow> (if start < j then Sort arr1 start j else Some arr1);
        (if end > i then Sort arr2 i end else Some arr2)
      }
      else Some arr)"
  by pat_completeness auto
termination
  by (relation "measure (\<lambda>(arr, s, e). nat (e - s))") (auto dest: part_loop_shrinks)

declare Sort.simps [simp del]

section \<open>Correctness\<close>

text \<open>One pass of the loop body keeps the invariant and, while the loop goes on, the sentinels.\<close>

lemma part_body_swap:
  assumes inv: "part_inv arr key lo hi i j" and "i \<le> j"
    and up: "scan_up arr key i = Some i1" and down: "scan_down arr key j = Some j1" and "i1 \<le> j1"
  shows "part_inv (swap arr (nat i1) (nat j1)) key lo hi (i1 + 1) (j1 - 1)"
    and "i1 + 1 \<le> j1 - 1 \<Longrightarrow> part_sent (swap arr (nat i1) (nat j1)) key lo hi (i1 + 1) (j1 - 1)"
proof -
  note b = scan_up_Some [OF up] scan_down_Some [OF down]
  have len: "nat i1 < length arr" "nat j1 < length arr" using b by auto
  have sw: "swap arr (nat i1) (nat j1) ! nat p =
      (if p = j1 then arr ! nat i1 else if p = i1 then arr ! nat j1 else arr ! nat p)"
    if "0 \<le> p" "p < int (length arr)" for p
    using that b by (subst nth_swap [OF len]) auto
  have left: "arr ! nat p \<le> key" if "lo \<le> p" "p < i1" for p
    using that inv b by (cases "p < i") (auto simp: part_inv_def intro: less_imp_le)
  have right: "arr ! nat p \<ge> key" if "j1 < p" "p \<le> hi" for p
    using that inv b by (cases "j < p") (auto simp: part_inv_def intro: less_imp_le)
  show "part_inv (swap arr (nat i1) (nat j1)) key lo hi (i1 + 1) (j1 - 1)"
    using inv b \<open>i1 \<le> j1\<close> left right by (auto simp: part_inv_def sw)
  show "part_sent (swap arr (nat i1) (nat j1)) key lo hi (i1 + 1) (j1 - 1)" if "i1 + 1 \<le> j1 - 1"
    unfolding part_sent_def
  proof (intro conjI exI)
    show "i1 + 1 \<le> j1" "i1 \<le> j1 - 1" using that by auto
    show "j1 \<le> hi" "lo \<le> i1" using inv b by (auto simp: part_inv_def)
    show "key \<le> swap arr (nat i1) (nat j1) ! nat j1" "swap arr (nat i1) (nat j1) ! nat i1 \<le> key"
      using b that by (auto simp: sw)
  qed
qed

lemma part_body_cross:
  assumes inv: "part_inv arr key lo hi i j" and "i \<le> j"
    and up: "scan_up arr key i = Some i1" and down: "scan_down arr key j = Some j1" and "\<not> i1 \<le> j1"
  shows "part_inv arr key lo hi i1 j1"
  using inv scan_up_Some [OF up] scan_down_Some [OF down] unfolding part_inv_def
  by (smt (verit) order_less_imp_le)

text \<open>Two slices that differ only inside the range \<open>lo .. hi\<close>, and only by a permutation.\<close>

definition permutes_within :: "int \<Rightarrow> int \<Rightarrow> u8 list \<Rightarrow> u8 list \<Rightarrow> bool" where
  "permutes_within lo hi arr arr' \<longleftrightarrow>
     mset arr' = mset arr \<and>
     (\<forall>p < length arr. int p < lo \<or> hi < int p \<longrightarrow> arr' ! p = arr ! p)"

lemma permutes_within_refl [simp]: "permutes_within lo hi arr arr"
  by (simp add: permutes_within_def)

lemma permutes_within_length: "permutes_within lo hi arr arr' \<Longrightarrow> length arr' = length arr"
  by (metis permutes_within_def size_mset)

lemma permutes_within_trans:
  "permutes_within lo hi a b \<Longrightarrow> permutes_within lo hi b c \<Longrightarrow> permutes_within lo hi a c"
  using permutes_within_length [of lo hi a b] by (auto simp: permutes_within_def)

lemma permutes_within_widen:
  "permutes_within lo' hi' a b \<Longrightarrow> lo \<le> lo' \<Longrightarrow> hi' \<le> hi \<Longrightarrow> permutes_within lo hi a b"
  by (auto simp: permutes_within_def)

lemma permutes_within_swap:
  "lo \<le> i \<Longrightarrow> i \<le> hi \<Longrightarrow> lo \<le> j \<Longrightarrow> j \<le> hi \<Longrightarrow> 0 \<le> lo \<Longrightarrow> hi < int (length arr) \<Longrightarrow>
     permutes_within lo hi arr (swap arr (nat i) (nat j))"
  by (auto simp: permutes_within_def nth_swap)

text \<open>
  A permutation inside a range keeps every predicate that holds throughout the range: the elements
  of the range are the same ones.
\<close>

lemma permutes_within_slice:
  assumes perm: "permutes_within lo hi arr arr'" and "0 \<le> lo" and "hi < int (length arr)" and "lo \<le> hi"
  shows "mset (take (nat (hi + 1 - lo)) (drop (nat lo) arr')) = mset (take (nat (hi + 1 - lo)) (drop (nat lo) arr))"
proof -
  let ?l = "nat lo" and ?n = "nat (hi + 1 - lo)"
  have len: "length arr' = length arr" by (rule permutes_within_length [OF perm])
  have split: "xs = take ?l xs @ take ?n (drop ?l xs) @ drop (?l + ?n) xs" for xs :: "u8 list"
    by (metis add.commute append_take_drop_id drop_drop)
  have out: "arr' ! q = arr ! q" if "q < length arr" "int q < lo \<or> hi < int q" for q
    using perm that by (auto simp: permutes_within_def)
  have "take ?l arr' = take ?l arr"
    using assms(2-4) len by (intro nth_equalityI) (auto intro!: out)
  moreover have "drop (?l + ?n) arr' = drop (?l + ?n) arr"
    using assms(2-4) len by (intro nth_equalityI) (auto intro!: out)
  moreover have "mset arr' = mset arr" using perm by (simp add: permutes_within_def)
  ultimately show ?thesis
    using split [of arr'] split [of arr] by (metis add_left_cancel add_right_cancel mset_append)
qed

lemma permutes_within_all:
  assumes perm: "permutes_within lo hi arr arr'" and "0 \<le> lo" and "hi < int (length arr)"
    and all: "\<And>p. lo \<le> p \<Longrightarrow> p \<le> hi \<Longrightarrow> P (arr ! nat p)" and "lo \<le> p" and "p \<le> hi"
  shows "P (arr' ! nat p)"
proof -
  let ?sl = "\<lambda>xs::u8 list. take (nat (hi + 1 - lo)) (drop (nat lo) xs)"
  have len: "length arr' = length arr" by (rule permutes_within_length [OF perm])
  have nth: "?sl xs ! q = xs ! (nat lo + q)" if "int q \<le> hi - lo" "length xs = length arr" for q xs
    using that assms(2,3) by (simp add: nth_append)
  have "set (?sl arr') = set (?sl arr)"
    using permutes_within_slice [OF perm] assms(2,3,5,6) by (metis dual_order.trans set_mset_mset)
  moreover have "?sl arr' ! nat (p - lo) \<in> set (?sl arr')"
    using assms(2,3,5,6) len by (intro nth_mem) auto
  moreover have "?sl arr' ! nat (p - lo) = arr' ! nat p"
    using assms(2,5,6) len by (subst nth) (auto simp flip: nat_add_distrib)
  ultimately have "arr' ! nat p \<in> set (?sl arr)" by simp
  then obtain q where q: "q < length (?sl arr)" "?sl arr ! q = arr' ! nat p"
    by (metis in_set_conv_nth)
  then have "arr' ! nat p = arr ! nat (lo + int q)"
    using assms(2,3,5,6) nth [of q arr] by (simp add: nat_add_distrib)
  moreover have "lo + int q \<le> hi" using q(1) assms(2,3,5,6) by auto
  ultimately show ?thesis using all [of "lo + int q"] by simp
qed

lemma part_loop_spec:
  "part_inv arr key lo hi i j \<Longrightarrow> (i \<le> j \<Longrightarrow> part_sent arr key lo hi i j) \<Longrightarrow>
     \<exists>arr' i' j'. part_loop arr key i j = Some (arr', i', j') \<and> j' < i' \<and>
       part_inv arr' key lo hi i' j' \<and> permutes_within lo hi arr arr'"
proof (induction arr key i j rule: part_loop.induct)
  case (1 arr key i j)
  show ?case
  proof (cases "i \<le> j")
    case True
    from "1.prems" True obtain pu pd where sent: "i \<le> pu" "pu \<le> hi" "arr ! nat pu \<ge> key"
        "lo \<le> pd" "pd \<le> j" "arr ! nat pd \<le> key"
      by (auto simp: part_sent_def)
    have range: "0 \<le> lo" "hi < int (length arr)" "lo \<le> i" "j \<le> hi"
      using "1.prems"(1) by (auto simp: part_inv_def)
    obtain i1 where i1: "scan_up arr key i = Some i1" "i1 \<le> hi"
      using scan_up_total [of i pu arr key] sent range by force
    obtain j1 where j1: "scan_down arr key j = Some j1" "lo \<le> j1"
      using scan_down_total [of pd j arr key] sent range by force
    note b = scan_up_Some [OF i1(1)] scan_down_Some [OF j1(1)]
    show ?thesis
    proof (cases "i1 \<le> j1")
      case le: True
      note body = part_body_swap [OF "1.prems"(1) True i1(1) j1(1) le]
      from "1.IH"(1) [OF True i1(1) j1(1) le body] obtain arr' i' j' where
        "part_loop (swap arr (nat i1) (nat j1)) key (i1 + 1) (j1 - 1) = Some (arr', i', j')"
        "j' < i'" "part_inv arr' key lo hi i' j'" "permutes_within lo hi (swap arr (nat i1) (nat j1)) arr'"
        by blast
      moreover have "permutes_within lo hi arr (swap arr (nat i1) (nat j1))"
        using range b i1 j1 le by (intro permutes_within_swap) auto
      ultimately show ?thesis
        using True i1 j1 le by (auto simp: part_loop.simps [of arr key i j] intro: permutes_within_trans)
    next
      case nle: False
      with part_body_cross [OF "1.prems"(1) True i1(1) j1(1) nle] True i1(1) j1(1) show ?thesis
        by (auto simp: part_loop.simps [of arr key i j] part_loop.simps [of arr key i1 j1])
    qed
  next
    case False
    with "1.prems" show ?thesis by (auto simp: part_loop.simps [of arr key i j])
  qed
qed

definition sorted_range :: "int \<Rightarrow> int \<Rightarrow> u8 list \<Rightarrow> bool" where
  "sorted_range lo hi arr \<longleftrightarrow> (\<forall>p q. lo \<le> p \<and> p \<le> q \<and> q \<le> hi \<longrightarrow> arr ! nat p \<le> arr ! nat q)"

lemma sorted_range_trivial: "hi \<le> lo \<Longrightarrow> sorted_range lo hi arr"
  unfolding sorted_range_def by (metis dual_order.trans order_antisym order_refl)

text \<open>Sorting the two parts of a partitioned range sorts the range.\<close>

lemma sorted_range_join:
  assumes part: "part_inv arr1 key lo hi i j" and "j < i"
    and left: "permutes_within lo j arr1 arr2" "sorted_range lo j arr2"
    and right: "permutes_within i hi arr2 arr3" "sorted_range i hi arr3"
  shows "sorted_range lo hi arr3"
  unfolding sorted_range_def
proof (intro allI impI)
  fix p q assume pq: "lo \<le> p \<and> p \<le> q \<and> q \<le> hi"
  have rng: "0 \<le> lo" "hi < int (length arr1)" "lo \<le> i" "j \<le> hi" using part by (auto simp: part_inv_def)
  have len: "length arr2 = length arr1" using left(1) by (rule permutes_within_length)
  have same3: "arr3 ! nat x = arr2 ! nat x" if "0 \<le> x" "x < i" "x \<le> hi" for x
    using right(1) that rng len by (auto simp: permutes_within_def)
  have same2: "arr2 ! nat x = arr1 ! nat x" if "j < x" "lo \<le> x" "x \<le> hi" for x
    using left(1) that rng by (auto simp: permutes_within_def)
  have small: "arr3 ! nat x \<le> key" if x: "lo \<le> x" "x < i" "x \<le> hi" for x
  proof (cases "x \<le> j")
    case True
    have "arr2 ! nat x \<le> key"
      by (rule permutes_within_all [OF left(1), of "\<lambda>v. v \<le> key"])
         (use part rng True x \<open>j < i\<close> in \<open>auto simp: part_inv_def\<close>)
    with same3 x rng show ?thesis by simp
  qed (use part rng x same2 same3 in \<open>auto simp: part_inv_def\<close>)
  have large: "arr3 ! nat x \<ge> key" if x: "j < x" "lo \<le> x" "x \<le> hi" for x
  proof (cases "i \<le> x")
    case True
    show ?thesis
      by (rule permutes_within_all [OF right(1), of "\<lambda>v. v \<ge> key"])
         (use part rng True x \<open>j < i\<close> same2 len in \<open>auto simp: part_inv_def\<close>)
  qed (use part rng x same2 same3 in \<open>auto simp: part_inv_def\<close>)
  consider "q \<le> j" | "i \<le> p" | "p < i" "j < q" by linarith
  then show "arr3 ! nat p \<le> arr3 ! nat q"
  proof cases
    case 1
    with left(2) pq rng same3 \<open>j < i\<close> show ?thesis by (auto simp: sorted_range_def)
  next
    case 2
    with right(2) pq show ?thesis by (auto simp: sorted_range_def)
  next
    case 3
    with small [of p] large [of q] pq show ?thesis by auto
  qed
qed

lemma Sort_range:
  "0 \<le> lo \<Longrightarrow> hi < int (length arr) \<Longrightarrow>
     \<exists>arr'. Sort arr lo hi = Some arr' \<and> permutes_within lo hi arr arr' \<and> sorted_range lo hi arr'"
proof (induction arr lo hi rule: Sort.induct)
  case (1 arr lo hi)
  show ?case
  proof (cases "lo < hi")
    case True
    let ?m = "go_quot (lo + hi) 2"
    define key where "key = arr ! nat ?m"
    have m: "lo \<le> ?m" "?m < hi" using mid_between [OF "1.prems"(1) True] by auto
    with "1.prems" have key: "go_nth arr ?m = Some key" by (simp add: key_def)
    have inv: "part_inv arr key lo hi lo hi" using "1.prems" by (auto simp: part_inv_def)
    have sent: "part_sent arr key lo hi lo hi" unfolding part_sent_def key_def using m less_imp_le by blast
    obtain arr1 i j where part: "part_loop arr key lo hi = Some (arr1, i, j)" "j < i"
        "part_inv arr1 key lo hi i j" "permutes_within lo hi arr arr1"
      using part_loop_spec [OF inv sent] by auto
    have bounds: "lo < i" "j < hi" using part_loop_shrinks [OF True key part(1)] by auto
    have len1: "length arr1 = length arr" by (rule permutes_within_length [OF part(4)])
    obtain arr2 where left: "(if lo < j then Sort arr1 lo j else Some arr1) = Some arr2"
        "permutes_within lo j arr1 arr2" "sorted_range lo j arr2"
      using "1.IH"(1) [OF True key part(1) refl refl] "1.prems" bounds len1
      by (cases "lo < j") (auto simp: sorted_range_trivial)
    have len2: "length arr2 = length arr" using permutes_within_length [OF left(2)] len1 by simp
    obtain arr3 where right: "(if hi > i then Sort arr2 i hi else Some arr2) = Some arr3"
        "permutes_within i hi arr2 arr3" "sorted_range i hi arr3"
      using "1.IH"(2) [OF True key part(1) refl refl left(1)] "1.prems" bounds len2
      by (cases "hi > i") (auto simp: sorted_range_trivial)
    have "Sort arr lo hi = Some arr3"
      using True key part(1) left(1) right(1) by (simp add: Sort.simps [of arr lo hi])
    moreover have "permutes_within lo hi arr arr3"
      using part(4) left(2) right(2) bounds
      by (meson less_imp_le order_refl permutes_within_trans permutes_within_widen)
    moreover have "sorted_range lo hi arr3"
      by (rule sorted_range_join [OF part(3,2) left(2,3) right(2,3)])
    ultimately show ?thesis by blast
  next
    case False
    then show ?thesis by (auto simp: Sort.simps [of arr lo hi] sorted_range_trivial)
  qed
qed

lemma sorted_range_whole: "sorted_range 0 (int (length arr) - 1) arr \<Longrightarrow> sorted arr"
  unfolding sorted_range_def sorted_iff_nth_mono
  by (metis int_nat_eq le_add_diff_inverse nat_int of_nat_0_le_iff zle_diff1_eq zle_int zless_nat_eq_int_zless)

lemma Sort_whole: "Sort cs 0 (int (length cs) - 1) = Some (sort cs)"
proof -
  obtain cs' where *: "Sort cs 0 (int (length cs) - 1) = Some cs'"
      "permutes_within 0 (int (length cs) - 1) cs cs'" "sorted_range 0 (int (length cs) - 1) cs'"
    using Sort_range [of 0 "int (length cs) - 1" cs] by auto
  then have "sorted cs'" using permutes_within_length sorted_range_whole by metis
  then have "sort cs = cs'" using *(2) by (intro properties_for_sort) (auto simp: permutes_within_def)
  with * show ?thesis by simp
qed

text \<open>
  C1.  Called as everywhere in the package, \<open>Sort(cs, 0, len(cs)-1)\<close> terminates without a panic for
  every slice, the empty one included, and leaves the sorted permutation of its elements in it.
\<close>

theorem Sort_correct: "Sort cs 0 (int (length cs) - 1) = Some (sort cs)"
  by (rule Sort_whole)

end
