(* ===== verification/AlgoHu.thy ===== *)
theory AlgoHu
  imports AlgoSort
begin

text \<open>
  The winning-hand recogniser of \<^verbatim>\<open>src/algo/algorithm.go\<close>: the tile set \<open>CARDS\<close>, the bit masks of the
  hand kinds, \<open>existFour\<close>, \<open>onecolor\<close>, \<open>ExistHu\<close> and \<open>Ting\<close>.  Tiles are bytes: the high nibble is the
  suit, the low nibble the rank 1 to 9.  The nested loops over slice positions become recursions over
  the list of the positions they visit, with the slice they overwrite as an argument and a result; the
  positions are always inside the slice.
\<close>

section \<open>Constants\<close>

definition TOTAL :: u32 where "TOTAL = 108"
definition BING :: u32 where "BING = 2"
definition TIAO :: u32 where "TIAO = 1"
definition WAN :: u32 where "WAN = 0"
definition HAND :: u32 where "HAND = 13"
definition SEAT :: u32 where "SEAT = 4"

definition DRAW :: u32 where "DRAW = 0"
definition DISCARD :: u32 where "DISCARD = 1"
definition PENG :: u32 where "PENG = push_bit 0 2"
definition MING_KONG :: u32 where "MING_KONG = push_bit 1 2"
definition AN_KONG :: u32 where "AN_KONG = push_bit 2 2"
definition BU_KONG :: u32 where "BU_KONG = push_bit 3 2"
definition KONG :: u32 where "KONG = push_bit 4 2"
definition HU :: u32 where "HU = push_bit 6 2"
definition PING_HU :: u32 where "PING_HU = push_bit 8 2"
definition HU_BIG_PAIR :: u32 where "HU_BIG_PAIR = push_bit 9 2"
definition HU_SEVEN_PAIR :: u32 where "HU_SEVEN_PAIR = push_bit 10 2"
definition HU_ALL_OF_ONE :: u32 where "HU_ALL_OF_ONE = push_bit 11 2"
definition HU_ONE_SUIT_BIG_PAIR :: u32 where "HU_ONE_SUIT_BIG_PAIR = push_bit 12 2"
definition HU_ONE_SUIT_SEVEN_PAIR :: u32 where "HU_ONE_SUIT_SEVEN_PAIR = push_bit 13 2"
definition HU_LONG_SEVEN_PAIR :: u32 where "HU_LONG_SEVEN_PAIR = push_bit 14 2"
definition HU_ONE_SUIT_LONG_SEVEN_PAIR :: u32 where "HU_ONE_SUIT_LONG_SEVEN_PAIR = push_bit 15 2"
definition LONG :: u32 where "LONG = push_bit 16 2"

definition SHA_BAO :: u32 where "SHA_BAO = push_bit 17 2"
definition QIANG_GANG :: u32 where "QIANG_GANG = push_bit 18 2"
definition RE_PAO :: u32 where "RE_PAO = push_bit 19 2"
definition SHAN_XIANG :: u32 where "SHAN_XIANG = push_bit 20 2"
definition ZIMO :: u32 where "ZIMO = push_bit 21 2"
definition PAOHU :: u32 where "PAOHU = push_bit 22 2"
definition HU_KONG_FLOWER :: u32 where "HU_KONG_FLOWER = push_bit 24 2"
definition TIAN_HU :: u32 where "TIAN_HU = push_bit 25 2"
definition DI_HU :: u32 where "DI_HU = push_bit 26 2"
definition TT_HU :: u32 where "TT_HU = push_bit 27 2"
definition DTING :: u32 where "DTING = push_bit 28 2"
definition TTING :: u32 where "TTING = push_bit 29 2"

lemmas hu_flags = HU_def PING_HU_def HU_BIG_PAIR_def HU_SEVEN_PAIR_def HU_ALL_OF_ONE_def
  HU_ONE_SUIT_BIG_PAIR_def HU_ONE_SUIT_SEVEN_PAIR_def HU_LONG_SEVEN_PAIR_def
  HU_ONE_SUIT_LONG_SEVEN_PAIR_def LONG_def

text \<open>The 108 tiles: four copies of ranks 1 to 9 in the suits 0 (wan), 1 (tiao) and 2 (bing).\<close>

definition CARDS :: "u8 list" where
  "CARDS =
    [0x01, 0x02, 0x03, 0x04, 0x05, 0x06, 0x07, 0x08, 0x09,
     0x01, 0x02, 0x03, 0x04, 0x05, 0x06, 0x07, 0x08, 0x09,
     0x01, 0x02, 0x03, 0x04, 0x05, 0x06, 0x07, 0x08, 0x09,
     0x01, 0x02, 0x03, 0x04, 0x05, 0x06, 0x07, 0x08, 0x09,
     0x11, 0x12, 0x13, 0x14, 0x15, 0x16, 0x17, 0x18, 0x19,
     0x11, 0x12, 0x13, 0x14, 0x15, 0x16, 0x17, 0x18, 0x19,
     0x11, 0x12, 0x13, 0x14, 0x15, 0x16, 0x17, 0x18, 0x19,
     0x11, 0x12, 0x13, 0x14, 0x15, 0x16, 0x17, 0x18, 0x19,
     0x21, 0x22, 0x23, 0x24, 0x25, 0x26, 0x27, 0x28, 0x29,
     0x21, 0x22, 0x23, 0x24, 0x25, 0x26, 0x27, 0x28, 0x29,
     0x21, 0x22, 0x23, 0x24, 0x25, 0x26, 0x27, 0x28, 0x29,
     0x21, 0x22, 0x23, 0x24, 0x25, 0x26, 0x27, 0x28, 0x29]"

section \<open>Four of a kind, one suit\<close>

text \<open>The inner loop of \<open>existFour\<close>: \<open>c\<close> is its \<open>count\<close>, the list its remaining positions \<open>i\<close>.\<close>

fun four_from :: "u8 list \<Rightarrow> nat \<Rightarrow> nat list \<Rightarrow> nat \<Rightarrow> bool" where
  "four_from cards j [] c = False"
| "four_from cards j (i # is) c =
     (if cards ! j = cards ! i
      then (if c + 1 = 3 then True else four_from cards j is (c + 1))
      else four_from cards j is c)"

definition existFour :: "u8 list \<Rightarrow> bool" where
  "existFour cards = (let le = length cards in
     list_ex (\<lambda>j. four_from cards j [j + 1..<le] 0) [0..<le - 3])"

definition onecolor :: "u8 list \<Rightarrow> bool" where
  "onecolor cards =
     (case cards of [] \<Rightarrow> False
      | c # cs \<Rightarrow> list_all (\<lambda>card. drop_bit 4 c = drop_bit 4 card) cs)"

section \<open>The winning check\<close>

text \<open>
  The three nested loops that clear sets of three from \<open>list\<close>.  \<open>sh\<close> is \<open>existShun\<close>.  The innermost
  loop leaves by \<open>break\<close> after the first match; the two outer loops go on.
\<close>

fun hu_k :: "nat \<Rightarrow> nat \<Rightarrow> nat list \<Rightarrow> u8 list \<Rightarrow> bool \<Rightarrow> u8 list \<times> bool" where
  "hu_k i j [] l sh = (l, sh)"
| "hu_k i j (k # ks) l sh =
     (if l ! k > 0 then
        (if l ! i + 1 = l ! j \<and> l ! j + 1 = l ! k then (l[i := 0, j := 0, k := 0], True)
         else if l ! i = l ! j \<and> l ! j = l ! k then (l[i := 0, j := 0, k := 0], sh)
         else hu_k i j ks l sh)
      else hu_k i j ks l sh)"

fun hu_j :: "nat \<Rightarrow> nat list \<Rightarrow> u8 list \<Rightarrow> bool \<Rightarrow> u8 list \<times> bool" where
  "hu_j i [] l sh = (l, sh)"
| "hu_j i (j # js) l sh =
     (if l ! j > 0 then (case hu_k i j [j + 1..<length l] l sh of (l', sh') \<Rightarrow> hu_j i js l' sh')
      else hu_j i js l sh)"

fun hu_i :: "nat list \<Rightarrow> u8 list \<Rightarrow> bool \<Rightarrow> u8 list \<times> bool" where
  "hu_i [] l sh = (l, sh)"
| "hu_i (i # is) l sh =
     (if l ! i > 0 then (case hu_j i [i + 1..<length l - 1] l sh of (l', sh') \<Rightarrow> hu_i is l' sh')
      else hu_i is l sh)"

text \<open>The loop over the positions \<open>n\<close> of a candidate pair, accumulating \<open>huType\<close> and \<open>existShun\<close>.\<close>

fun hu_n :: "u8 list \<Rightarrow> bool \<Rightarrow> nat list \<Rightarrow> u32 \<Rightarrow> bool \<Rightarrow> u32" where
  "hu_n cs oc [] ht sh = ht"
| "hu_n cs oc (n # ns) ht sh =
     (if cs ! n = cs ! (n + 1) then
        (case hu_i [0..<length cs - 2] (cs[n := 0, n + 1 := 0]) sh of (l, sh') \<Rightarrow>
           (let num = list_ex (\<lambda>i. l ! i > 0) [0..<length cs];
                ht' = (if \<not> num then
                         (let h = ht OR HU OR PING_HU;
                              h = (if \<not> sh' then
                                     (let h = h OR HU_BIG_PAIR
                                      in if oc then h OR HU_ONE_SUIT_BIG_PAIR else h)
                                   else h)
                          in if oc then h OR HU_ALL_OF_ONE else h)
                       else ht)
            in hu_n cs oc ns ht' sh'))
      else hu_n cs oc ns ht sh)"

text \<open>The seven-pairs scan \<open>for n := 0; n < le-1; n += 2\<close>.\<close>

fun pairs_ok :: "u8 list \<Rightarrow> bool" where
  "pairs_ok (a # b # cs) = (a = b \<and> pairs_ok cs)"
| "pairs_ok _ = True"

definition seven_type :: "u8 list \<Rightarrow> bool \<Rightarrow> u32" where
  "seven_type cs oc =
     (let ht = HU OR HU_SEVEN_PAIR;
          ht = (if oc then ht OR HU_ALL_OF_ONE else ht);
          long = existFour cs;
          ht = (if long then ht OR LONG else ht)
      in if long \<and> oc then ht OR HU_ONE_SUIT_LONG_SEVEN_PAIR
         else if long then ht OR HU_LONG_SEVEN_PAIR
         else if oc then ht OR HU_ONE_SUIT_SEVEN_PAIR
         else ht)"

text \<open>
  \<open>ExistHu(cs, isonecolor)\<close>: the hand-kind mask and the slice, which the function sorts in place
  (except on its early return for a pair).  The test \<open>huType & HU != HU\<close> before the last loop is
  always true there, since \<open>huType\<close> is still 0.
\<close>

definition ExistHu :: "u8 list \<Rightarrow> bool \<Rightarrow> (u32 \<times> u8 list) option" where
  "ExistHu cs isonecolor =
     (let le = length cs in
      if le = 2 \<and> cs ! 0 = cs ! 1 then
        (let ht = HU OR HU_BIG_PAIR
         in Some (if isonecolor then ht OR HU_ALL_OF_ONE else ht, cs))
      else do {
        cs' \<leftarrow> Sort cs 0 (int le - 1);
        (if le = 14 \<and> pairs_ok cs' then Some (seven_type cs' isonecolor, cs')
         else Some (hu_n cs' isonecolor [0..<le - 1] 0 False, cs'))
      })"

section \<open>Waiting hands\<close>

text \<open>
  The loop that collects candidate tiles.  \<open>card\<close> is \<open>tingTestCards[i]\<close> for the positions of the
  original hand; the slice grows at its end.  The first membership test compares with \<open>card\<close>, not
  with \<open>next\<close>.
\<close>

fun ting_cands :: "nat list \<Rightarrow> u8 list \<Rightarrow> u8 list" where
  "ting_cands [] t = t"
| "ting_cands (i # is) t =
     (let card = t ! i; pre = card - 1; next = card + 1;
          t1 = (if list_ex (\<lambda>v. v = card \<or> next AND 0x0F > 0x09) t then t else t @ [next]);
          t2 = (if list_ex (\<lambda>v. v = pre \<or> pre AND 0x0F < 0x01) t1 then t1 else t1 @ [pre])
      in ting_cands is t2)"

fun ting_try :: "u8 list \<Rightarrow> bool \<Rightarrow> u8 list \<Rightarrow> u32 option" where
  "ting_try cs oc [] = Some 0"
| "ting_try cs oc (v # vs) = do {
     (value, _) \<leftarrow> ExistHu (cs @ [v]) oc;
     (if value > 0 then Some value else ting_try cs oc vs)
   }"

definition Ting :: "u8 list \<Rightarrow> bool \<Rightarrow> u32 option" where
  "Ting cs isonecolor = ting_try cs isonecolor (ting_cands [0..<length cs] cs)"

end
