(* ===== verification/AlgoHuCorrect.thy ===== *)
theory AlgoHuCorrect
  imports AlgoHu
begin

text \<open>
  Correctness of \<open>ExistHu\<close> against the rules of the game: a hand wins when it is a pair plus sets of
  three (triplets and runs), or seven pairs.  \<open>melds\<close> states the rule on multisets, independently of
  the positions and the order in which the loops clear the tiles.
\<close>

section \<open>The rule\<close>

definition triplets :: "u8 multiset \<Rightarrow> u8 multiset" where
  "triplets T = repeat_mset 3 T"

definition runs :: "u8 multiset \<Rightarrow> u8 multiset" where
  "runs R = R + image_mset (\<lambda>x. x + 1) R + image_mset (\<lambda>x. x + 2) R"

definition melds :: "u8 multiset \<Rightarrow> bool" where
  "melds M \<longleftrightarrow> (\<exists>T R. M = triplets T + runs R)"

definition seven_pairs :: "u8 list \<Rightarrow> bool" where
  "seven_pairs cs \<longleftrightarrow> length cs = 14 \<and> (\<forall>x. even (count (mset cs) x))"

definition winning :: "u8 list \<Rightarrow> bool" where
  "winning cs \<longleftrightarrow> seven_pairs cs \<or> (\<exists>x D. mset cs = {#x, x#} + D \<and> melds D)"

lemma triplets_simps [simp]:
  "triplets {#} = {#}" "triplets (add_mset x T) = {#x, x, x#} + triplets T"
  "triplets (S + T) = triplets S + triplets T"
  by (simp_all add: triplets_def numeral_3_eq_3)

lemma runs_simps [simp]:
  "runs {#} = {#}" "runs (add_mset x R) = {#x, x + 1, x + 2#} + runs R"
  "runs (Q + R) = runs Q + runs R"
  by (simp_all add: runs_def)

lemma count_triplets [simp]: "count (triplets T) x = 3 * count T x"
  by (simp add: triplets_def)

lemma melds_empty [simp]: "melds {#}"
  unfolding melds_def by (rule exI [of _ "{#}"], rule exI [of _ "{#}"]) simp

lemma size_runs: "size (runs R) = 3 * size R"
  by (simp add: runs_def)

lemma size_triplets: "size (triplets T) = 3 * size T"
  by (induction T) auto

lemma melds_size: "melds M \<Longrightarrow> size M mod 3 = 0"
  unfolding melds_def by (auto simp: size_runs size_triplets)

section \<open>What the clearing loops do to the slice\<close>

text \<open>The tiles still in the slice (cleared positions hold 0).\<close>

definition nz :: "u8 list \<Rightarrow> u8 multiset" where
  "nz l = filter_mset (\<lambda>x. x \<noteq> 0) (mset l)"

text \<open>The test of the innermost loop body.\<close>

definition is_run :: "u8 list \<Rightarrow> nat \<Rightarrow> nat \<Rightarrow> nat \<Rightarrow> bool" where
  "is_run l i j k \<longleftrightarrow> l ! i + 1 = l ! j \<and> l ! j + 1 = l ! k"

definition is_triple :: "u8 list \<Rightarrow> nat \<Rightarrow> nat \<Rightarrow> nat \<Rightarrow> bool" where
  "is_triple l i j k \<longleftrightarrow> l ! i = l ! j \<and> l ! j = l ! k"

abbreviation hit :: "u8 list \<Rightarrow> nat \<Rightarrow> nat \<Rightarrow> nat \<Rightarrow> bool" where
  "hit l i j k \<equiv> l ! k > 0 \<and> (is_run l i j k \<or> is_triple l i j k)"

abbreviation clear3 :: "u8 list \<Rightarrow> nat \<Rightarrow> nat \<Rightarrow> nat \<Rightarrow> u8 list" where
  "clear3 l i j k \<equiv> l[i := 0, j := 0, k := 0]"

lemma hu_k_none: "(\<And>k. k \<in> set ks \<Longrightarrow> \<not> hit l i j k) \<Longrightarrow> hu_k i j ks l sh = (l, sh)"
  by (induction ks) (auto simp: is_run_def is_triple_def)

lemma hu_k_some:
  "k0 \<in> set ks \<Longrightarrow> hit l i j k0 \<Longrightarrow>
     \<exists>k \<in> set ks. hit l i j k \<and> hu_k i j ks l sh = (clear3 l i j k, sh \<or> is_run l i j k)"
proof (induction ks)
  case (Cons k ks)
  show ?case
  proof (cases "hit l i j k")
    case True
    then show ?thesis by (intro bexI [of _ k]) (auto simp: is_run_def is_triple_def)
  next
    case False
    with Cons show ?thesis by (auto simp: is_run_def is_triple_def)
  qed
qed simp

lemma hu_j_skip:
  "(\<And>k. l ! j > 0 \<Longrightarrow> j < k \<Longrightarrow> k < length l \<Longrightarrow> \<not> hit l i j k) \<Longrightarrow> hu_j i (j # js) l sh = hu_j i js l sh"
  using hu_k_none [of "[j + 1..<length l]" l i j sh] by auto

lemma hu_j_none:
  "(\<And>j k. j \<in> set js \<Longrightarrow> l ! j > 0 \<Longrightarrow> j < k \<Longrightarrow> k < length l \<Longrightarrow> \<not> hit l i j k) \<Longrightarrow> hu_j i js l sh = (l, sh)"
proof (induction js)
  case (Cons j js)
  then show ?case by (subst hu_j_skip) auto
qed simp

text \<open>The first match of the middle loop, and the loop that goes on behind it.\<close>

lemma hu_j_some:
  "j0 \<in> set js \<Longrightarrow> l ! j0 > 0 \<Longrightarrow> j0 < k0 \<Longrightarrow> k0 < length l \<Longrightarrow> hit l i j0 k0 \<Longrightarrow>
     \<exists>js1 j js2 k. js = js1 @ j # js2 \<and> l ! j > 0 \<and> j < k \<and> k < length l \<and> hit l i j k \<and>
       (\<forall>j' \<in> set js1. \<forall>k'. l ! j' > 0 \<and> j' < k' \<and> k' < length l \<longrightarrow> \<not> hit l i j' k') \<and>
       hu_j i js l sh = hu_j i js2 (clear3 l i j k) (sh \<or> is_run l i j k)"
proof (induction js)
  case (Cons j js)
  show ?case
  proof (cases "l ! j > 0 \<and> (\<exists>k. j < k \<and> k < length l \<and> hit l i j k)")
    case True
    then obtain k1 where "k1 \<in> set [j + 1..<length l]" "hit l i j k1"
      by (metis Suc_eq_plus1 Suc_leI atLeastLessThan_iff set_upt)
    from hu_k_some [OF this, of sh] obtain k where
      k: "k \<in> set [j + 1..<length l]" "hit l i j k"
         "hu_k i j [j + 1..<length l] l sh = (clear3 l i j k, sh \<or> is_run l i j k)" by blast
    with True show ?thesis
      by (intro exI [of _ "[]"] exI [of _ j] exI [of _ js] exI [of _ k]) auto
  next
    case False
    with Cons.prems have "j0 \<in> set js" by auto
    with Cons obtain js1 j' js2 k where *: "js = js1 @ j' # js2" "l ! j' > 0" "j' < k" "k < length l" "hit l i j' k"
       "\<forall>j' \<in> set js1. \<forall>k'. l ! j' > 0 \<and> j' < k' \<and> k' < length l \<longrightarrow> \<not> hit l i j' k'"
       "hu_j i js l sh = hu_j i js2 (clear3 l i j' k) (sh \<or> is_run l i j' k)" by blast
    have "hu_j i (j # js) l sh = hu_j i js l sh"
      using False by (intro hu_j_skip) auto
    with * False show ?thesis
      by (intro exI [of _ "j # js1"] exI [of _ j'] exI [of _ js2] exI [of _ k]) auto
  qed
qed simp

lemma length_hu_k: "hu_k i j ks l sh = (l', sh') \<Longrightarrow> length l' = length l"
  by (induction ks) (auto split: if_splits)

lemma nz_update: "p < length l \<Longrightarrow> l ! p \<noteq> 0 \<Longrightarrow> nz l = add_mset (l ! p) (nz (l[p := 0]))"
  using multi_member_split [of "l ! p" "mset l"] by (auto simp: nz_def mset_update)

lemma nz_clear3:
  assumes "i < j" "j < k" "k < length l" "l ! i \<noteq> 0" "l ! j \<noteq> 0" "l ! k \<noteq> 0"
  shows "nz l = {#l ! i, l ! j, l ! k#} + nz (clear3 l i j k)"
proof -
  have "nz l = add_mset (l ! i) (nz (l[i := 0]))" using assms by (intro nz_update) auto
  also have "nz (l[i := 0]) = add_mset (l ! j) (nz (l[i := 0, j := 0]))"
    using assms nz_update [of j "l[i := 0]"] by simp
  also have "nz (l[i := 0, j := 0]) = add_mset (l ! k) (nz (clear3 l i j k))"
    using assms nz_update [of k "l[i := 0, j := 0]"] by simp
  finally show ?thesis by simp
qed

section \<open>Soundness: every cleared tile is accounted for\<close>

text \<open>The slice during the loops: each position holds the tile of the sorted hand or has been cleared.\<close>

definition remains :: "u8 list \<Rightarrow> u8 list \<Rightarrow> bool" where
  "remains cs l \<longleftrightarrow> length l = length cs \<and> (\<forall>p < length cs. l ! p = 0 \<or> l ! p = cs ! p)"

lemma remains_refl [simp]: "remains l l"
  by (simp add: remains_def)

lemma remains_update: "remains cs l \<Longrightarrow> remains cs (l[p := 0])"
  by (cases "p < length l") (auto simp: remains_def nth_list_update)

lemma remains_clear3: "remains cs l \<Longrightarrow> remains cs (clear3 l i j k)"
  by (intro remains_update)

lemma remains_trans: "remains cs l \<Longrightarrow> remains l l' \<Longrightarrow> remains cs l'"
  by (fastforce simp: remains_def)

text \<open>
  The tiles that disappear between two stages of the loops: triplets, runs and, because the middle
  loop goes on after \<open>list[i]\<close> has been cleared and then reads it as 0, possibly \<open>1 2\<close> couples that
  pass for the run \<open>0 1 2\<close>.  Such a couple needs a triplet of 1s before it.
\<close>

definition accounts :: "bool \<Rightarrow> u8 multiset \<Rightarrow> u8 multiset \<Rightarrow> bool" where
  "accounts sh M N \<longleftrightarrow>
     (\<exists>T R b. M = triplets T + runs R + repeat_mset b {#1, 2#} + N \<and>
        (b > 0 \<longrightarrow> 1 \<in># T) \<and> (\<not> sh \<longrightarrow> R = {#} \<and> b = 0))"

lemma accounts_refl [simp]: "accounts sh M M"
  unfolding accounts_def by (rule exI [of _ "{#}"], rule exI [of _ "{#}"], rule exI [of _ 0]) simp

lemma accounts_trans:
  assumes "accounts sh M N" and "accounts sh' N K" and "sh \<longrightarrow> sh'"
  shows "accounts sh' M K"
proof -
  from assms(1) obtain T R b where 1: "M = triplets T + runs R + repeat_mset b {#1, 2#} + N"
      "b > 0 \<longrightarrow> 1 \<in># T" "\<not> sh \<longrightarrow> R = {#} \<and> b = 0" by (auto simp: accounts_def)
  from assms(2) obtain T' R' b' where 2: "N = triplets T' + runs R' + repeat_mset b' {#1, 2#} + K"
      "b' > 0 \<longrightarrow> 1 \<in># T'" "\<not> sh' \<longrightarrow> R' = {#} \<and> b' = 0" by (auto simp: accounts_def)
  show ?thesis unfolding accounts_def
    by (rule exI [of _ "T + T'"], rule exI [of _ "R + R'"], rule exI [of _ "b + b'"])
       (use 1 2 assms(3) in \<open>auto simp: multiset_eq_iff\<close>)
qed

text \<open>The middle loop after a match, when position \<open>i\<close> is cleared.\<close>

lemma hu_j_cleared:
  "l ! i = 0 \<Longrightarrow> (\<And>j. j \<in> set js \<Longrightarrow> i < j \<and> j < length l) \<Longrightarrow> hu_j i js l sh = (l', sh') \<Longrightarrow>
     \<exists>b. nz l = repeat_mset b {#1, 2#} + nz l' \<and> remains l l' \<and>
       (b > 0 \<longrightarrow> sh' \<and> (\<exists>j \<in> set js. l ! j = 1)) \<and> (sh \<longrightarrow> sh')"
proof (induction js arbitrary: l sh)
  case Nil
  then show ?case by (intro exI [of _ 0]) auto
next
  case (Cons j js)
  show ?case
  proof (cases "l ! j > 0 \<and> (\<exists>k. j < k \<and> k < length l \<and> hit l i j k)")
    case True
    then obtain k1 where "k1 \<in> set [j + 1..<length l]" "hit l i j k1"
      by (metis Suc_eq_plus1 Suc_leI atLeastLessThan_iff set_upt)
    from hu_k_some [OF this, of sh] obtain k where k: "k \<in> set [j + 1..<length l]" "hit l i j k"
       "hu_k i j [j + 1..<length l] l sh = (clear3 l i j k, sh \<or> is_run l i j k)" by blast
    have run: "is_run l i j k" "l ! j = 1" "l ! k = 2"
      using k(2) True Cons.prems(1) by (auto simp: is_triple_def is_run_def)
    have ij: "i < j" "j < k" "k < length l" using k(1) Cons.prems(2) [of j] by auto
    have li: "l[i := 0] = l" using Cons.prems(1) by (metis list_update_id)
    let ?l = "clear3 l i j k"
    have nz: "nz l = {#1, 2#} + nz ?l"
      using nz_update [of j l] nz_update [of k "l[j := 0]"] run ij by (simp add: li)
    have "hu_j i js ?l True = (l', sh')" using Cons.prems(3) True k(3) run by simp
    from Cons.IH [OF _ _ this] Cons.prems(2) ij obtain b where b: "nz ?l = repeat_mset b {#1, 2#} + nz l'"
      "remains ?l l'" "sh'" by fastforce
    have "nz l = repeat_mset (Suc b) {#1, 2#} + nz l'" using nz b(1) by simp
    moreover have "remains l l'" using b(2) remains_clear3 remains_refl remains_trans by blast
    ultimately show ?thesis using b(3) run(2) by (intro exI [of _ "Suc b"]) auto
  next
    case False
    then have "hu_j i js l sh = (l', sh')" using Cons.prems(3) hu_j_skip [of l j i js sh] by auto
    from Cons.IH [OF Cons.prems(1) _ this] Cons.prems(2) show ?thesis by auto
  qed
qed

text \<open>
  The whole middle loop for one \<open>i\<close>: either no position matches and nothing changes, or the first
  match \<open>(j, k)\<close> is cleared, followed by \<open>b\<close> couples \<open>1 2\<close>, and then the match was a triplet of 1s.
\<close>

lemma hu_j_match:
  assumes srt: "sorted cs" and rem: "remains cs l" and pos: "l ! i > 0" and "i < length cs"
    and run: "hu_j i [i + 1..<length cs - 1] l sh = (l', sh')"
    and ex: "j0 \<in> set [i + 1..<length cs - 1]" "l ! j0 > 0" "j0 < k0" "k0 < length l" "hit l i j0 k0"
  obtains js1 j js2 k b where "[i + 1..<length cs - 1] = js1 @ j # js2" "i < j" "j < k" "k < length l"
    "l ! j > 0" "hit l i j k"
    "\<forall>j' \<in> set js1. \<forall>k'. l ! j' > 0 \<and> j' < k' \<and> k' < length l \<longrightarrow> \<not> hit l i j' k'"
    "nz l = {#l ! i, l ! j, l ! k#} + repeat_mset b {#1, 2#} + nz l'" "remains (clear3 l i j k) l'"
    "b \<noteq> 0 \<Longrightarrow> sh' \<and> l ! i = 1 \<and> is_triple l i j k" "sh \<or> is_run l i j k \<longrightarrow> sh'"
proof -
  from hu_j_some [OF ex, of sh] obtain js1 j js2 k where
    js: "[i + 1..<length cs - 1] = js1 @ j # js2" and jk: "l ! j > 0" "j < k" "k < length l" "hit l i j k"
    and first: "\<forall>j' \<in> set js1. \<forall>k'. l ! j' > 0 \<and> j' < k' \<and> k' < length l \<longrightarrow> \<not> hit l i j' k'"
    and rest: "hu_j i js2 (clear3 l i j k) (sh \<or> is_run l i j k) = (l', sh')" using run by auto
  let ?l = "clear3 l i j k"
  have len: "length l = length cs" using rem by (simp add: remains_def)
  have js2: "i < j \<and> j < j' \<and> j' < length l" if "j' \<in> set js2" for j'
  proof -
    have "sorted_wrt (<) (js1 @ j # js2)" unfolding js [symmetric] by (rule sorted_wrt_upt)
    then have "j < j'" using that by (auto simp: sorted_wrt_append)
    moreover have "j' \<in> set [i + 1..<length cs - 1]" "j \<in> set [i + 1..<length cs - 1]"
      unfolding js using that by auto
    ultimately show ?thesis using len by auto
  qed
  have "j \<in> set [i + 1..<length cs - 1]" unfolding js by simp
  then have ij: "i < j" by auto
  have "?l ! i = 0" using ij jk len assms(4) by (simp add: nth_list_update)
  from hu_j_cleared [OF this _ rest] js2 obtain b where b: "nz ?l = repeat_mset b {#1, 2#} + nz l'"
     "remains ?l l'" "b > 0 \<longrightarrow> sh' \<and> (\<exists>j \<in> set js2. ?l ! j = 1)" "sh \<or> is_run l i j k \<longrightarrow> sh'"
    by fastforce
  have three: "nz l = {#l ! i, l ! j, l ! k#} + nz ?l"
    using ij jk pos by (intro nz_clear3) auto
  have orig: "l ! p = cs ! p" if "l ! p > 0" "p < length cs" for p
    using rem that by (auto simp: remains_def)
  have one: "l ! i = 1 \<and> l ! j = 1" if "b \<noteq> 0"
  proof -
    from that b(3) obtain j' where j': "j' \<in> set js2" "?l ! j' = 1" by auto
    have "l ! j' = 1" using j' js2 [OF j'(1)] jk(2,3) by (cases "j' = k") auto
    then have "cs ! j' = 1" using orig [of j'] js2 [OF j'(1)] len by auto
    then have "cs ! j \<le> 1" "cs ! i \<le> cs ! j"
      using sorted_nth_mono [OF srt, of j j'] sorted_nth_mono [OF srt, of i j] js2 [OF j'(1)] len ij by auto
    then have "l ! j \<le> 1" "l ! i \<le> 1" using orig [of j] orig [of i] jk pos len assms(4) by auto
    moreover have "x = 1" if "x \<le> 1" "x > 0" for x :: u8
      using that by (metis add_0 inc_le order_antisym)
    ultimately show ?thesis using pos jk(1) by blast
  qed
  have "\<not> is_run l i j k" if "l ! i = l ! j"
    using that by (simp add: is_run_def)
  with one jk(4) have "b \<noteq> 0 \<Longrightarrow> is_triple l i j k" by metis
  with js ij jk first b three one show ?thesis by (intro that [of js1 j js2 k b]) auto
qed

lemma hu_j_accounts:
  assumes srt: "sorted cs" and rem: "remains cs l" and pos: "l ! i > 0" and "i < length cs"
    and run: "hu_j i [i + 1..<length cs - 1] l sh = (l', sh')"
  shows "accounts sh' (nz l) (nz l') \<and> remains cs l' \<and> (sh \<longrightarrow> sh')"
proof (cases "\<exists>j k. j \<in> set [i + 1..<length cs - 1] \<and> l ! j > 0 \<and> j < k \<and> k < length l \<and> hit l i j k")
  case False
  then have "hu_j i [i + 1..<length cs - 1] l sh = (l, sh)" by (intro hu_j_none) blast
  with run rem show ?thesis by simp
next
  case True
  then obtain j0 k0 where jk0: "j0 \<in> set [i + 1..<length cs - 1]" "l ! j0 > 0" "j0 < k0" "k0 < length l"
    "hit l i j0 k0" by blast
  obtain j k b where jk: "hit l i j k" and nz: "nz l = {#l ! i, l ! j, l ! k#} + repeat_mset b {#1, 2#} + nz l'"
    and rem': "remains (clear3 l i j k) l'" and b: "b \<noteq> 0 \<Longrightarrow> sh' \<and> l ! i = 1 \<and> is_triple l i j k"
    and sh: "sh \<or> is_run l i j k \<longrightarrow> sh'"
    by (rule hu_j_match [OF assms jk0]) blast
  have "accounts sh' (nz l) (nz l')"
  proof (cases "is_run l i j k")
    case True
    then have "l ! j \<noteq> l ! i" by (simp add: is_run_def) (metis add_cancel_left_right zero_neq_one)
    then have "b = 0" using b by (metis is_triple_def)
    moreover have "l ! k = l ! i + 2" using True unfolding is_run_def by (metis add.assoc one_add_one)
    ultimately have "nz l = triplets {#} + runs {#l ! i#} + repeat_mset 0 {#1, 2#} + nz l'"
      using nz True by (simp add: is_run_def)
    then show ?thesis using sh True unfolding accounts_def by blast
  next
    case False
    then have "is_triple l i j k" using jk by simp
    then have "nz l = triplets {#l ! i#} + runs {#} + repeat_mset b {#1, 2#} + nz l'"
      using nz by (simp add: is_triple_def)
    then show ?thesis using b unfolding accounts_def by fastforce
  qed
  moreover have "remains cs l'" using rem' rem remains_clear3 remains_trans by blast
  ultimately show ?thesis using sh by auto
qed

lemma hu_i_accounts:
  "sorted cs \<Longrightarrow> remains cs l \<Longrightarrow> (\<And>i. i \<in> set is \<Longrightarrow> i < length cs) \<Longrightarrow> hu_i is l sh = (l', sh') \<Longrightarrow>
     accounts sh' (nz l) (nz l') \<and> remains cs l' \<and> (sh \<longrightarrow> sh')"
proof (induction "is" arbitrary: l sh)
  case (Cons i "is")
  show ?case
  proof (cases "l ! i > 0")
    case True
    obtain l1 sh1 where 1: "hu_j i [i + 1..<length cs - 1] l sh = (l1, sh1)" by fastforce
    have len: "length l = length cs" using Cons.prems(2) by (simp add: remains_def)
    from hu_j_accounts [OF Cons.prems(1,2) True _ 1] Cons.prems(3)
    have a: "accounts sh1 (nz l) (nz l1)" "remains cs l1" "sh \<longrightarrow> sh1" by auto
    have "hu_i is l1 sh1 = (l', sh')" using Cons.prems(4) True 1 len by simp
    with Cons.IH [OF Cons.prems(1) a(2)] Cons.prems(3) have "accounts sh' (nz l1) (nz l')" "remains cs l'" "sh1 \<longrightarrow> sh'"
      by auto
    with a accounts_trans show ?thesis by blast
  next
    case False
    with Cons show ?thesis by auto
  qed
qed simp

section \<open>Seven pairs and four of a kind\<close>

lemma pairs_ok_even: "even (length cs) \<Longrightarrow> pairs_ok cs \<Longrightarrow> even (count (mset cs) x)"
  by (induction cs rule: pairs_ok.induct) auto

lemma even_pairs_ok: "sorted cs \<Longrightarrow> (\<And>x. even (count (mset cs) x)) \<Longrightarrow> pairs_ok cs"
proof (induction cs rule: pairs_ok.induct)
  case (1 a b cs)
  have "a = b"
  proof (rule ccontr)
    assume "a \<noteq> b"
    with "1.prems"(1) have "a \<notin> set (b # cs)" by fastforce
    then have "count (mset (a # b # cs)) a = 1" by (auto simp: count_eq_zero_iff)
    with "1.prems"(2) show False by (metis odd_one)
  qed
  moreover have "even (count (mset cs) x)" for x
    using "1.prems"(2) [of x] \<open>a = b\<close> by (auto split: if_splits)
  ultimately show ?case using 1 by simp
qed auto

lemma sorted_pairs_ok_iff:
  "length cs = 14 \<Longrightarrow> pairs_ok (sort cs) \<longleftrightarrow> seven_pairs cs"
  using pairs_ok_even [of "sort cs"] even_pairs_ok [of "sort cs"] by (auto simp: seven_pairs_def)

lemma four_from_iff:
  "c < 3 \<Longrightarrow> four_from cards j is c \<longleftrightarrow> 3 \<le> c + length (filter (\<lambda>i. cards ! i = cards ! j) is)"
  by (induction "is" arbitrary: c) auto

lemma count_from:
  "j < length cs \<Longrightarrow> length (filter (\<lambda>i. cs ! i = cs ! j) [j + 1..<length cs]) = count (mset (drop (j + 1) cs)) (cs ! j)"
proof -
  assume "j < length cs"
  have "drop (j + 1) cs = map ((!) cs) [j + 1..<length cs]"
    by (metis drop_map drop_upt map_nth add_0)
  moreover have "count (mset (map ((!) cs) xs)) (cs ! j) = length (filter (\<lambda>i. cs ! i = cs ! j) xs)" for xs
    by (induction xs) auto
  ultimately show ?thesis by metis
qed

lemma existFour_iff_count: "existFour cs \<longleftrightarrow> (\<exists>x. count (mset cs) x \<ge> 4)"
proof
  assume "existFour cs"
  then obtain j where j: "j < length cs - 3" "four_from cs j [j + 1..<length cs] 0"
    by (auto simp: existFour_def list_ex_iff Let_def)
  then have "3 \<le> count (mset (drop (j + 1) cs)) (cs ! j)" using count_from [of j cs] by (simp add: four_from_iff)
  moreover have "mset cs = mset (take j cs) + {#cs ! j#} + mset (drop (j + 1) cs)"
    using j by (metis Suc_eq_plus1 add.commute add.left_commute add_mset_add_single append_take_drop_id
        Cons_nth_drop_Suc diff_le_self less_le_trans mset.simps(2) mset_append)
  ultimately have "4 \<le> count (mset cs) (cs ! j)" by simp
  then show "\<exists>x. count (mset cs) x \<ge> 4" ..
next
  assume "\<exists>x. count (mset cs) x \<ge> 4"
  then obtain x where x: "count (mset cs) x \<ge> 4" ..
  then have "x \<in> set cs" by (metis count_eq_zero_iff not_numeral_le_zero set_mset_mset)
  then obtain as bs where cs: "cs = as @ x # bs" "x \<notin> set as" using split_list_first by fastforce
  have "count (mset as) x = 0" using cs(2) by (simp add: count_eq_zero_iff)
  moreover have "count (mset cs) x = count (mset as) x + Suc (count (mset bs) x)" by (simp add: cs(1))
  ultimately have "count (mset bs) x \<ge> 3" using x by linarith
  then have "length bs \<ge> 3" using count_le_size [of "mset bs" x] by simp
  moreover have "four_from cs (length as) [length as + 1..<length cs] 0"
    using \<open>count (mset bs) x \<ge> 3\<close> cs count_from [of "length as" cs] by (simp add: four_from_iff)
  ultimately show "existFour cs"
    using cs unfolding existFour_def Let_def list_ex_iff by (intro bexI [of _ "length as"]) auto
qed

text \<open>
  \<open>existFour\<close> answers whether some tile occurs at least four times in the slice.
\<close>

theorem existFour_iff: "existFour cs \<longleftrightarrow> (\<exists>x. count (mset cs) x \<ge> 4)"
  by (rule existFour_iff_count)

section \<open>Soundness\<close>

text \<open>A successful attempt of the loop over \<open>n\<close>; \<open>sh'\<close> is \<open>existShun\<close> at its end.\<close>

definition attempt :: "u8 list \<Rightarrow> nat \<Rightarrow> bool \<Rightarrow> bool \<Rightarrow> bool" where
  "attempt cs n sh sh' \<longleftrightarrow> cs ! n = cs ! (n + 1) \<and>
     (\<exists>l. hu_i [0..<length cs - 2] (cs[n := 0, n + 1 := 0]) sh = (l, sh') \<and> (\<forall>i < length cs. l ! i = 0))"

lemma hu_n_result:
  "hu_n cs oc ns ht sh = ht \<or> (\<exists>n \<in> set ns. \<exists>sh1 sh2. attempt cs n sh1 sh2)"
proof (induction ns arbitrary: ht sh)
  case (Cons n ns)
  obtain l sh' where l: "hu_i [0..<length cs - 2] (cs[n := 0, n + 1 := 0]) sh = (l, sh')" by fastforce
  show ?case
  proof (cases "cs ! n = cs ! (n + 1) \<and> (\<forall>i < length cs. l ! i = 0)")
    case True
    with l have "attempt cs n sh sh'" by (auto simp: attempt_def)
    then show ?thesis by auto
  next
    case False
    with l have "hu_n cs oc (n # ns) ht sh = hu_n cs oc ns ht (if cs ! n = cs ! (n + 1) then sh' else sh)"
      by (auto simp: list_ex_iff word_gt_0)
    with Cons.IH [of ht "if cs ! n = cs ! (n + 1) then sh' else sh"] show ?thesis by auto
  qed
qed simp

lemma nz_pair:
  assumes "n + 1 < length cs" and "0 \<notin> set cs" and "cs ! n = cs ! (n + 1)"
  shows "mset cs = {#cs ! n, cs ! n#} + nz (cs[n := 0, n + 1 := 0])"
proof -
  have "nz cs = mset cs" using assms(2) by (auto simp: nz_def filter_mset_eq_conv)
  moreover have "cs ! n \<noteq> 0" using assms by (metis add_lessD1 nth_mem)
  ultimately show ?thesis
    using nz_update [of n cs] nz_update [of "n + 1" "cs[n := 0]"] assms by simp
qed

lemma attempt_sound:
  assumes att: "attempt cs n sh sh'" and srt: "sorted cs" and "n + 1 < length cs" and zero: "0 \<notin> set cs"
    and ones: "count (mset cs) 1 \<le> 4" and len: "length cs mod 3 = 2"
  obtains T R where "mset cs = {#cs ! n, cs ! n#} + (triplets T + runs R)" "\<not> sh' \<longrightarrow> R = {#}"
proof -
  let ?l0 = "cs[n := 0, n + 1 := 0]"
  from att obtain l where l: "hu_i [0..<length cs - 2] ?l0 sh = (l, sh')" "\<forall>i < length cs. l ! i = 0"
      "cs ! n = cs ! (n + 1)" by (auto simp: attempt_def)
  have rem: "remains cs ?l0" by (intro remains_update remains_refl)
  from hu_i_accounts [OF srt rem _ l(1)] have acc: "accounts sh' (nz ?l0) (nz l)" "remains cs l" by auto
  have "nz l = {#}" using l(2) acc(2) by (auto simp: nz_def remains_def filter_mset_False in_set_conv_nth filter_mset_eq_conv)
  with acc(1) obtain T R b where acc': "nz ?l0 = triplets T + runs R + repeat_mset b {#1, 2#}"
      "b > 0 \<longrightarrow> 1 \<in># T" "\<not> sh' \<longrightarrow> R = {#} \<and> b = 0" by (auto simp: accounts_def)
  have cs: "mset cs = {#cs ! n, cs ! n#} + nz ?l0" by (rule nz_pair [OF assms(3) zero l(3)])
  have "b = 0"
  proof (rule ccontr)
    assume "b \<noteq> 0"
    with acc'(2) have "1 \<le> count T 1" by (simp add: Suc_le_eq)
    moreover have "count (nz ?l0) 1 \<ge> 3 * count T 1 + b" unfolding acc'(1) by simp
    moreover have "count (nz ?l0) 1 \<le> count (mset cs) 1" unfolding cs by simp
    ultimately have "b = 1" using ones \<open>b \<noteq> 0\<close> by linarith
    moreover have "size (mset cs) = 2 + (3 * size T + 3 * size R + b * 2)"
      unfolding cs acc'(1) by (simp add: size_runs size_triplets)
    then have "length cs = 3 * (size T + size R) + 2 + 2 * b" by simp
    ultimately show False using len by presburger
  qed
  with acc'(1,3) cs show ?thesis by (intro that [of T R]) auto
qed

lemma attempt_winning:
  "attempt (sort cs) n sh sh' \<Longrightarrow> n + 1 < length cs \<Longrightarrow> 0 \<notin> set cs \<Longrightarrow> count (mset cs) 1 \<le> 4 \<Longrightarrow>
     length cs mod 3 = 2 \<Longrightarrow> winning cs"
  by (rule attempt_sound [of "sort cs" n sh sh']) (auto simp: winning_def melds_def)

lemma ExistHu_unfold:
  "ExistHu cs oc =
     (if length cs = 2 \<and> cs ! 0 = cs ! 1 then Some (if oc then HU OR HU_BIG_PAIR OR HU_ALL_OF_ONE else HU OR HU_BIG_PAIR, cs)
      else if length cs = 14 \<and> pairs_ok (sort cs) then Some (seven_type (sort cs) oc, sort cs)
      else Some (hu_n (sort cs) oc [0..<length cs - 1] 0 False, sort cs))"
  unfolding ExistHu_def Let_def Sort_whole by (simp add: or.assoc)

text \<open>
  C3.  Every hand \<open>ExistHu\<close> accepts is a winning hand: for a hand of \<open>3n + 2\<close> real tiles (no 0 byte,
  at most four 1-wan as in the deck), a non-zero mask means that the tiles are a pair plus triplets
  and runs, or seven pairs.
\<close>

theorem ExistHu_sound:
  assumes "0 \<notin> set cs" and "count (mset cs) 1 \<le> 4" and "length cs mod 3 = 2"
    and "ExistHu cs oc = Some (ht, cs')" and "ht \<noteq> 0"
  shows "winning cs"
proof -
  consider (pair) "length cs = 2" "cs ! 0 = cs ! 1"
    | (seven) "length cs = 14" "pairs_ok (sort cs)"
    | (std) "hu_n (sort cs) oc [0..<length cs - 1] 0 False \<noteq> 0"
    using assms(4,5) by (auto simp: ExistHu_unfold split: if_splits)
  then show ?thesis
  proof cases
    case pair
    then have "cs = [cs ! 0, cs ! 0]" by (auto simp: numeral_2_eq_2 length_Suc_conv)
    then have "mset cs = {#cs ! 0, cs ! 0#} + {#}"
      by (metis add.right_neutral mset.simps)
    then show ?thesis unfolding winning_def using melds_empty by blast
  next
    case seven
    then show ?thesis by (simp add: winning_def sorted_pairs_ok_iff)
  next
    case std
    with hu_n_result [of "sort cs" oc "[0..<length cs - 1]" 0 False] obtain n sh sh' where
      "n < length cs - 1" "attempt (sort cs) n sh sh'" by auto
    with assms(1-3) show ?thesis by (intro attempt_winning) auto
  qed
qed

theorem ExistHu_sound_witness:
  "winning [0x02, 0x03, 0x04, 0x15, 0x15, 0x27, 0x27, 0x27]"
proof -
  let ?cs = "[0x02, 0x03, 0x04, 0x15, 0x15, 0x27, 0x27, 0x27] :: u8 list"
  have "ExistHu ?cs False = Some (HU OR PING_HU, sort ?cs)"
    by (simp add: ExistHu_unfold upt_rec)
  then show ?thesis
    by (rule ExistHu_sound [rotated 3]) (simp_all add: hu_flags)
qed

end
