(* ===== verification/AlgoHuComplete.thy ===== *)
theory AlgoHuComplete
  imports AlgoHuCorrect
begin

text \<open>
  Completeness of \<open>ExistHu\<close>: its greedy clearing (always for the smallest remaining tile, a triplet
  if there are three copies, a run otherwise) finds a decomposition whenever there is one, as long as
  the \<open>1 2\<close> couples of \<open>AlgoHuCorrect\<close> cannot occur, that is with at most three 1-wan in the hand.
\<close>

section \<open>The greedy choice is safe\<close>

lemma word_less_succ: "(x :: u8) + 1 \<noteq> 0 \<Longrightarrow> x < x + 1"
  by (metis add.commute add.right_inverse inc_less_eq_self_iff_eq linorder_not_less)

lemma runs_min:
  assumes "0 \<notin># M" and "runs R \<subseteq># M" and "\<forall>y \<in># M. x \<le> y"
  shows "count (runs R) x = count R x"
proof -
  have sub: "z \<in># M" if "z \<in># runs R" for z using assms(2) that by (meson mset_subset_eqD)
  have step: "x \<noteq> y + 1 \<and> x \<noteq> y + 2" if y: "y \<in># R" for y
  proof -
    have in_runs: "y \<in># runs R" "y + 1 \<in># runs R" "y + 2 \<in># runs R"
      using y by (auto simp: runs_def)
    then have ne: "y + 1 \<noteq> 0" "y + 2 \<noteq> 0" and "x \<le> y" using assms(1,3) sub by metis+
    have "y < y + 1" using ne(1) by (rule word_less_succ)
    moreover have "y + 1 < y + 2" using word_less_succ [of "y + 1"] ne(2) by (simp add: add.assoc)
    ultimately show ?thesis using \<open>x \<le> y\<close> by auto
  qed
  have "count (image_mset (\<lambda>x. x + 1) R) x = 0" "count (image_mset (\<lambda>x. x + 2) R) x = 0"
    using step by (auto simp: count_eq_zero_iff)
  then show ?thesis by (simp add: runs_def)
qed

lemma melds_min_count:
  assumes "M = triplets T + runs R" and "0 \<notin># M" and "\<forall>y \<in># M. x \<le> y"
  shows "count M x = 3 * count T x + count R x"
  using runs_min [OF assms(2) _ assms(3), of R] assms(1) by simp

lemma melds_min_triple:
  assumes "melds M" and "0 \<notin># M" and "\<forall>y \<in># M. x \<le> y" and "M = {#x, x, x#} + N"
  shows "melds N"
proof -
  from assms(1) obtain T R where M: "M = triplets T + runs R" by (auto simp: melds_def)
  have cnt: "3 * count T x + count R x \<ge> 3"
    using melds_min_count [OF M assms(2,3)] assms(4) by simp
  show ?thesis
  proof (cases "x \<in># T")
    case True
    then obtain T' where "T = add_mset x T'" by (metis multi_member_split)
    then have "N = triplets T' + runs R" using M assms(4) by simp
    then show ?thesis by (auto simp: melds_def)
  next
    case False
    then have "count T x = 0" by (simp add: count_eq_zero_iff)
    with cnt have "3 \<le> count R x" by linarith
    then have "replicate_mset 3 x \<subseteq># R" by (simp flip: count_le_replicate_mset_subset_eq)
    then obtain R' where "R = {#x, x, x#} + R'"
      by (auto simp: numeral_3_eq_3 mset_subset_eq_exists_conv)
    then have "N = triplets (T + {#x + 1, x + 2#}) + runs R'" using M assms(4) by simp
    then show ?thesis unfolding melds_def by blast
  qed
qed

lemma melds_min_run:
  assumes "melds M" and "0 \<notin># M" and "\<forall>y \<in># M. x \<le> y" and "x \<in># M" and "count M x < 3"
  obtains N where "M = {#x, x + 1, x + 2#} + N" "melds N"
proof -
  from assms(1) obtain T R where M: "M = triplets T + runs R" by (auto simp: melds_def)
  have "0 < count M x" using assms(4) by simp
  then have "0 < count R x" using melds_min_count [OF M assms(2,3)] assms(5) by arith
  then have "x \<in># R" by simp
  then obtain R' where "R = add_mset x R'" by (metis multi_member_split)
  then have "M = {#x, x + 1, x + 2#} + (triplets T + runs R')" using M by simp
  then show ?thesis using that melds_def by blast
qed

section \<open>Positions of tiles in the slice\<close>

lemma nz_remains: "remains cs l \<Longrightarrow> nz l \<subseteq># mset cs"
proof -
  assume rem: "remains cs l"
  then have "length l = length cs" by (simp add: remains_def)
  then show ?thesis using rem
  proof (induction l cs rule: list_induct2)
    case (Cons x l y cs)
    then have "remains cs l" "x = 0 \<or> x = y" by (force simp: remains_def)+
    with Cons.IH show ?case by (auto simp: nz_def intro: subset_mset.trans)
  qed (simp add: nz_def)
qed

lemma nz_mem: "x \<in># nz l \<longleftrightarrow> x \<noteq> 0 \<and> (\<exists>p < length l. l ! p = x)"
  by (auto simp: nz_def in_set_conv_nth)

lemma count_two_positions:
  assumes "2 \<le> count (mset ys) x"
  shows "\<exists>a b. a < b \<and> b < length ys \<and> ys ! a = x \<and> ys ! b = x"
proof -
  have "x \<in> set ys" using assms by (metis count_eq_zero_iff not_numeral_le_zero set_mset_mset)
  then obtain as bs where ys: "ys = as @ x # bs" "x \<notin> set as" using split_list_first by fastforce
  have "count (mset as) x = 0" using ys(2) by (simp add: count_eq_zero_iff)
  moreover have "count (mset ys) x = count (mset as) x + Suc (count (mset bs) x)" by (simp add: ys(1))
  ultimately have "x \<in> set bs" using assms by (metis Suc_1 Suc_le_mono add_0 count_eq_zero_iff not_one_le_zero One_nat_def set_mset_mset)
  then obtain b where "b < length bs" "bs ! b = x" by (metis in_set_conv_nth)
  then show ?thesis using ys(1)
    by (intro exI [of _ "length as"] exI [of _ "length as + Suc b"]) (auto simp: nth_append)
qed

lemma third_copy:
  assumes "i < length l" and "\<forall>p < i. l ! p = 0" and "l ! i \<noteq> 0" and "count (nz l) (l ! i) \<ge> 3"
  shows "\<exists>j k. i < j \<and> j < k \<and> k < length l \<and> l ! j = l ! i \<and> l ! k = l ! i"
proof -
  let ?ys = "drop (Suc i) l"
  have split: "l = take i l @ l ! i # ?ys" using assms(1) by (rule id_take_nth_drop)
  have "count (mset (take i l)) (l ! i) = 0"
    using assms(1-3) by (force simp: count_eq_zero_iff in_set_conv_nth)
  moreover have "count (mset l) (l ! i) = count (mset (take i l)) (l ! i) + Suc (count (mset ?ys) (l ! i))"
    by (subst split) simp
  moreover have "count (nz l) (l ! i) = count (mset l) (l ! i)" using assms(3) by (simp add: nz_def)
  ultimately have "2 \<le> count (mset ?ys) (l ! i)" using assms(4) by linarith
  from count_two_positions [OF this] obtain a b where "a < b" "b < length ?ys" "?ys ! a = l ! i" "?ys ! b = l ! i"
    by blast
  then show ?thesis by (intro exI [of _ "Suc i + a"] exI [of _ "Suc i + b"]) auto
qed

section \<open>The loops keep a decomposable rest decomposable\<close>

text \<open>Facts about a stage of the loops at which every position before \<open>i\<close> is cleared.\<close>

lemma stage_below:
  assumes "sorted cs" and "remains cs l" and "l ! p < l ! q" "l ! p \<noteq> 0" "p < length cs" "q < length cs"
  shows "p < q"
proof (rule ccontr)
  assume "\<not> p < q"
  then have "cs ! q \<le> cs ! p" using sorted_nth_mono [OF assms(1), of q p] assms by simp
  moreover have "l ! q \<noteq> 0" using assms(3) by (metis word_not_simps(1))
  ultimately show False using assms unfolding remains_def by (metis leD)
qed

lemma stage_min:
  assumes "sorted cs" and "remains cs l" and "l ! i > 0" and "i < length cs" and "\<forall>p < i. l ! p = 0"
  shows "\<forall>y \<in># nz l. l ! i \<le> y"
  using assms stage_below [OF assms(1,2)] unfolding remains_def
  by (metis leI nz_mem not_less_iff_gr_or_eq)

lemma greedy_hit:
  assumes srt: "sorted cs" and rem: "remains cs l" and pos: "l ! i > 0" and "i < length cs"
    and before: "\<forall>p < i. l ! p = 0" and mld: "melds (nz l)"
  shows "\<exists>j0 k0. i < j0 \<and> j0 < k0 \<and> k0 < length l \<and> l ! j0 > 0 \<and> hit l i j0 k0"
proof (cases "count (nz l) (l ! i) \<ge> 3")
  case True
  have "i < length l" "l ! i \<noteq> 0" using rem assms(4) pos by (auto simp: remains_def)
  then obtain j k where "i < j" "j < k" "k < length l" "l ! j = l ! i" "l ! k = l ! i"
    using third_copy [OF _ before _ True] by blast
  with pos show ?thesis unfolding is_triple_def by metis
next
  case False
  let ?x = "l ! i"
  have len: "length l = length cs" using rem by (simp add: remains_def)
  have "?x \<in># nz l" using pos len assms(4) by (auto simp: nz_mem word_gt_0)
  then obtain N where N: "nz l = {#?x, ?x + 1, ?x + 2#} + N"
    using melds_min_run [OF mld _ stage_min [OF srt rem pos assms(4) before]] False
    by (metis nz_mem not_less)
  then have "?x + 1 \<in># nz l" "?x + 2 \<in># nz l" by auto
  then obtain j0 k0 where jk: "j0 < length l" "l ! j0 = ?x + 1" "k0 < length l" "l ! k0 = ?x + 2"
    "?x + 1 \<noteq> 0" "?x + 2 \<noteq> 0" by (auto simp: nz_mem)
  have "?x < ?x + 1" using jk(5) by (rule word_less_succ)
  moreover have "?x + 1 < ?x + 2" using word_less_succ [of "?x + 1"] jk(6) by (simp add: add.assoc)
  ultimately have "i < j0" "j0 < k0" using stage_below [OF srt rem] jk pos len assms(4) by (auto simp: word_gt_0)
  moreover have "is_run l i j0 k0" using jk by (simp add: is_run_def add.assoc)
  ultimately show ?thesis
    using jk by (intro exI [of _ j0] exI [of _ k0]) (simp add: word_gt_0)
qed

lemma hu_j_greedy:
  assumes srt: "sorted cs" and rem: "remains cs l" and "0 \<notin> set cs" and ones: "count (mset cs) 1 \<le> 3"
    and pos: "l ! i > 0" and "i < length cs" and before: "\<forall>p < i. l ! p = 0" and mld: "melds (nz l)"
    and run: "hu_j i [i + 1..<length cs - 1] l sh = (l', sh')"
  shows "remains cs l' \<and> (\<forall>p \<le> i. l' ! p = 0) \<and> melds (nz l')"
proof -
  let ?x = "l ! i"
  have len: "length l = length cs" using rem by (simp add: remains_def)
  have zero: "0 \<notin># nz l" by (simp add: nz_def)
  have mem: "?x \<in># nz l" using pos len assms(6) by (auto simp: nz_mem word_gt_0)
  note below = stage_below [OF srt rem] and min = stage_min [OF srt rem pos assms(6) before]
  have third: "\<exists>j k. i < j \<and> j < k \<and> k < length l \<and> l ! j = ?x \<and> l ! k = ?x" if "count (nz l) ?x \<ge> 3"
    using third_copy [OF _ before _ that] pos len assms(6) by auto
  have "\<exists>j0 k0. i < j0 \<and> j0 < k0 \<and> k0 < length l \<and> l ! j0 > 0 \<and> hit l i j0 k0"
    by (rule greedy_hit [OF srt rem pos assms(6) before mld])
  then obtain j0 k0 where h: "i < j0" "j0 < k0" "k0 < length l" "l ! j0 > 0" "hit l i j0 k0" by blast
  then have ex: "j0 \<in> set [i + 1..<length cs - 1]" "l ! j0 > 0" "j0 < k0" "k0 < length l" "hit l i j0 k0"
    using len by simp_all
  obtain js1 j js2 k b where js: "[i + 1..<length cs - 1] = js1 @ j # js2" and ij: "i < j" "j < k" "k < length l"
    and hit: "l ! j > 0" "hit l i j k"
    and first: "\<forall>j' \<in> set js1. \<forall>k'. l ! j' > 0 \<and> j' < k' \<and> k' < length l \<longrightarrow> \<not> hit l i j' k'"
    and nz: "nz l = {#l ! i, l ! j, l ! k#} + repeat_mset b {#1, 2#} + nz l'"
    and rem': "remains (clear3 l i j k) l'" and b: "b \<noteq> 0 \<Longrightarrow> sh' \<and> l ! i = 1 \<and> is_triple l i j k"
    by (rule hu_j_match [OF srt rem pos assms(6) run ex]) blast
  have "b = 0"
  proof (rule ccontr)
    assume "b \<noteq> 0"
    with b have "l ! i = 1" "l ! j = 1" "l ! k = 1" by (auto simp: is_triple_def)
    then have "count (nz l) 1 \<ge> 4" using nz \<open>b \<noteq> 0\<close> by simp
    moreover have "count (nz l) 1 \<le> count (mset cs) 1" using nz_remains [OF rem] by (rule mset_subset_eq_count)
    ultimately show False using ones by linarith
  qed
  have "melds (nz l')"
  proof (cases "is_triple l i j k")
    case True
    then show ?thesis
      using nz \<open>b = 0\<close> by (intro melds_min_triple [OF mld zero min]) (simp add: is_triple_def)
  next
    case False
    then have "l ! j = ?x + 1" "l ! k = (?x + 1) + 1" using hit(2) by (auto simp: is_run_def)
    then have r: "l ! j = ?x + 1" "l ! k = ?x + 2" by (simp_all add: add.assoc)
    have "\<not> count (nz l) ?x \<ge> 3"
    proof
      assume "count (nz l) ?x \<ge> 3"
      from third [OF this] obtain j1 k1 where c: "i < j1" "j1 < k1" "k1 < length l" "l ! j1 = ?x" "l ! k1 = ?x"
        by blast
      have "?x < l ! j" using r(1) hit(1) word_less_succ [of ?x] by (simp add: word_gt_0)
      then have "j1 < j" using below c ij pos len by (auto simp: word_gt_0)
      moreover have "j1 \<in> set (js1 @ j # js2)" unfolding js [symmetric] using c len by auto
      moreover have "sorted_wrt (<) (js1 @ j # js2)" unfolding js [symmetric] by (rule sorted_wrt_upt)
      ultimately have "j1 \<in> set js1" by (auto simp: sorted_wrt_append)
      moreover have "hit l i j1 k1" using c pos by (simp add: is_triple_def)
      ultimately show False using first c(2-4) pos by metis
    qed
    then obtain N where "nz l = {#?x, ?x + 1, ?x + 2#} + N" "melds N"
      using melds_min_run [OF mld zero min mem] by (metis not_less)
    then show ?thesis using nz r \<open>b = 0\<close> by simp
  qed
  moreover have "remains cs l'" using rem' rem remains_clear3 remains_trans by blast
  moreover have "l' ! p = 0" if "p \<le> i" for p
  proof -
    have "clear3 l i j k ! p = 0" using that before ij len assms(6) by (cases "p = i") auto
    moreover have "p < length cs" using that assms(6) by simp
    ultimately show ?thesis using rem' len unfolding remains_def by (metis length_list_update)
  qed
  ultimately show ?thesis by blast
qed

lemma hu_i_greedy:
  "sorted cs \<Longrightarrow> remains cs l \<Longrightarrow> 0 \<notin> set cs \<Longrightarrow> count (mset cs) 1 \<le> 3 \<Longrightarrow> i \<le> length cs - 2 \<Longrightarrow>
     \<forall>p < i. l ! p = 0 \<Longrightarrow> melds (nz l) \<Longrightarrow> hu_i [i..<length cs - 2] l sh = (l', sh') \<Longrightarrow>
     remains cs l' \<and> (\<forall>p < length cs - 2. l' ! p = 0) \<and> melds (nz l')"
proof (induction "length cs - 2 - i" arbitrary: i l sh)
  case 0
  then show ?case by simp
next
  case (Suc d)
  have upt: "[i..<length cs - 2] = i # [Suc i..<length cs - 2]" using Suc.hyps(2) by (intro upt_conv_Cons) simp
  have len: "length l = length cs" using Suc.prems(2) by (simp add: remains_def)
  obtain l1 sh1 where j: "hu_j i [i + 1..<length cs - 1] l sh = (l1, sh1)" by fastforce
  have i: "i < length cs" using Suc.hyps(2) by simp
  have d: "d = length cs - 2 - Suc i" "Suc i \<le> length cs - 2" using Suc.hyps(2) by auto
  show ?case
  proof (cases "l ! i > 0")
    case True
    from hu_j_greedy [OF Suc.prems(1-4) True i Suc.prems(6,7) j]
    have "remains cs l1" "\<forall>p < Suc i. l1 ! p = 0" "melds (nz l1)" by (auto simp: less_Suc_eq_le)
    moreover have "hu_i [Suc i..<length cs - 2] l1 sh1 = (l', sh')"
      using Suc.prems(8) True j len by (simp add: upt del: upt_Suc)
    ultimately show ?thesis using Suc.hyps(1) [OF d(1) Suc.prems(1)] Suc.prems(3,4) d(2) by blast
  next
    case False
    then have "\<forall>p < Suc i. l ! p = 0" using Suc.prems(6) by (auto simp: less_Suc_eq word_gt_0)
    moreover have "hu_i [Suc i..<length cs - 2] l sh = (l', sh')"
      using Suc.prems(8) False by (simp add: upt del: upt_Suc)
    ultimately show ?thesis using Suc.hyps(1) [OF d(1) Suc.prems(1)] Suc.prems(2-4,7) d(2) by blast
  qed
qed

lemma two_left:
  assumes "\<forall>p < length l - 2. l ! p = 0" and "melds (nz l)"
  shows "nz l = {#}"
proof -
  have "filter (\<lambda>x. x \<noteq> 0) (take (length l - 2) l) = []"
    using assms(1) by (auto simp: filter_empty_conv in_set_conv_nth)
  moreover have "filter (\<lambda>x. x \<noteq> 0) l =
      filter (\<lambda>x. x \<noteq> 0) (take (length l - 2) l) @ filter (\<lambda>x. x \<noteq> 0) (drop (length l - 2) l)"
    by (metis append_take_drop_id filter_append)
  ultimately have "length (filter (\<lambda>x. x \<noteq> 0) l) \<le> 2"
    using length_filter_le [of "\<lambda>x. x \<noteq> 0" "drop (length l - 2) l"] by simp
  then have "size (nz l) \<le> 2" unfolding nz_def by (metis mset_filter size_mset)
  with melds_size [OF assms(2)] have "size (nz l) = 0" by presburger
  then show ?thesis by simp
qed

lemma attempt_complete:
  assumes "sorted cs" and "0 \<notin> set cs" and "count (mset cs) 1 \<le> 3" and "n + 1 < length cs"
    and pair: "cs ! n = cs ! (n + 1)" and D: "mset cs = {#cs ! n, cs ! n#} + D" "melds D"
  shows "\<exists>sh'. attempt cs n sh sh'"
proof -
  let ?l = "cs[n := 0, n + 1 := 0]"
  have "nz ?l = D" using nz_pair [OF assms(4,2) pair] D(1) by simp
  then have "melds (nz ?l)" using D(2) by simp
  moreover have "remains cs ?l" by (intro remains_update remains_refl)
  moreover obtain l' sh' where run: "hu_i [0..<length cs - 2] ?l sh = (l', sh')" by fastforce
  ultimately have "remains cs l' \<and> (\<forall>p < length cs - 2. l' ! p = 0) \<and> melds (nz l')"
    using hu_i_greedy [of cs ?l 0 sh l' sh'] assms(1-4) by auto
  then have "nz l' = {#}" "length l' = length cs" using two_left [of l'] by (auto simp: remains_def)
  then have "\<forall>i < length cs. l' ! i = 0" using nz_mem by (metis empty_iff set_mset_empty)
  with run pair show ?thesis by (auto simp: attempt_def)
qed

lemma hu_n_keeps: "ht AND HU \<noteq> 0 \<Longrightarrow> hu_n cs oc ns ht sh AND HU \<noteq> 0"
proof (induction ns arbitrary: ht sh)
  case (Cons n ns)
  have "(ht OR m) AND HU \<noteq> 0" for m using Cons.prems by (metis or_eq_0_iff bit.conj_disj_distrib2)
  with Cons show ?case by (auto simp: Let_def or.assoc split: prod.splits)
qed simp

lemma hu_n_attempt:
  "n \<in> set ns \<Longrightarrow> (\<And>sh. \<exists>sh'. attempt cs n sh sh') \<Longrightarrow> hu_n cs oc ns ht sh AND HU \<noteq> 0"
proof (induction ns arbitrary: ht sh)
  case (Cons m ns)
  show ?case
  proof (cases "m = n")
    case True
    from Cons.prems(2) [of sh] obtain l sh' where l: "cs ! n = cs ! (n + 1)"
      "hu_i [0..<length cs - 2] (cs[n := 0, n + 1 := 0]) sh = (l, sh')" "\<forall>i < length cs. l ! i = 0"
      by (auto simp: attempt_def)
    have "(ht OR HU OR h) AND HU \<noteq> 0" for h
      by (simp add: bit.conj_disj_distrib2 or_eq_0_iff) (simp add: HU_def)
    then show ?thesis using True l
      by (auto simp: Let_def list_ex_iff or.assoc intro!: hu_n_keeps)
  next
    case False
    with Cons show ?thesis by (auto simp: Let_def split: prod.splits)
  qed
qed simp

lemma sorted_pair_position:
  assumes "sorted cs" and "2 \<le> count (mset cs) x"
  shows "\<exists>n. n + 1 < length cs \<and> cs ! n = x \<and> cs ! (n + 1) = x"
proof -
  from count_two_positions [OF assms(2)] obtain a b where ab: "a < b" "b < length cs" "cs ! a = x" "cs ! b = x"
    by blast
  then have "cs ! a \<le> cs ! (a + 1)" "cs ! (a + 1) \<le> cs ! b"
    using sorted_nth_mono [OF assms(1), of a "a + 1"] sorted_nth_mono [OF assms(1), of "a + 1" b] by auto
  with ab show ?thesis by (intro exI [of _ a]) auto
qed

lemma hu_n_complete:
  assumes "0 \<notin> set cs" and "count (mset cs) 1 \<le> 3" and "mset cs = {#x, x#} + D" and "melds D"
  shows "hu_n (sort cs) oc [0..<length cs - 1] 0 False \<noteq> 0"
proof -
  obtain n where n: "n + 1 < length cs" "sort cs ! n = x" "sort cs ! (n + 1) = x"
    using sorted_pair_position [of "sort cs" x] assms(3) by auto
  have "\<exists>sh'. attempt (sort cs) n sh sh'" for sh
    using assms n by (intro attempt_complete [of _ _ D]) auto
  then have "hu_n (sort cs) oc [0..<length cs - 1] 0 False AND HU \<noteq> 0"
    using n(1) by (intro hu_n_attempt [of n]) auto
  then show ?thesis by auto
qed

lemma ExistHu_decides:
  assumes "0 \<notin> set cs" and "count (mset cs) 1 \<le> 3" and "length cs mod 3 = 2"
  shows "\<exists>ht cs'. ExistHu cs oc = Some (ht, cs') \<and> mset cs' = mset cs \<and> (ht \<noteq> 0 \<longleftrightarrow> winning cs)"
proof -
  have std: "hu_n (sort cs) oc [0..<length cs - 1] 0 False \<noteq> 0 \<longleftrightarrow> winning cs"
    if "\<not> seven_pairs cs"
  proof
    assume "hu_n (sort cs) oc [0..<length cs - 1] 0 False \<noteq> 0"
    with hu_n_result [of "sort cs" oc "[0..<length cs - 1]" 0 False] obtain n sh sh' where
      "n < length cs - 1" "attempt (sort cs) n sh sh'" by auto
    with assms show "winning cs" by (intro attempt_winning) auto
  next
    assume "winning cs"
    with that obtain x D where "mset cs = {#x, x#} + D" "melds D" by (auto simp: winning_def)
    with assms show "hu_n (sort cs) oc [0..<length cs - 1] 0 False \<noteq> 0" by (intro hu_n_complete)
  qed
  show ?thesis
  proof (cases "length cs = 2 \<and> cs ! 0 = cs ! 1")
    case True
    then have "cs = [cs ! 0, cs ! 0]" by (auto simp: numeral_2_eq_2 length_Suc_conv)
    then have "mset cs = {#cs ! 0, cs ! 0#} + {#}" by (metis add.right_neutral mset.simps)
    then have "winning cs" unfolding winning_def using melds_empty by blast
    with True show ?thesis by (auto simp: ExistHu_unfold hu_flags)
  next
    case no_pair: False
    show ?thesis
    proof (cases "length cs = 14 \<and> pairs_ok (sort cs)")
      case True
      then have "winning cs" using sorted_pairs_ok_iff by (auto simp: winning_def)
      moreover have "seven_type (sort cs) oc \<noteq> 0"
        by (auto simp: seven_type_def Let_def hu_flags or_eq_0_iff)
      ultimately show ?thesis using no_pair True by (auto simp: ExistHu_unfold)
    next
      case False
      then have "\<not> seven_pairs cs" using sorted_pairs_ok_iff by (auto simp: seven_pairs_def)
      with std no_pair False show ?thesis by (auto simp: ExistHu_unfold)
    qed
  qed
qed

text \<open>
  C4.  For a hand of \<open>3n + 2\<close> real tiles with at most three 1-wan, \<open>ExistHu\<close> never panics and its mask
  is non-zero exactly for the winning hands: the greedy clearing misses no decomposition.
\<close>

theorem ExistHu_iff_winning:
  assumes "0 \<notin> set cs" and "count (mset cs) 1 \<le> 3" and "length cs mod 3 = 2"
  shows "\<exists>ht cs'. ExistHu cs oc = Some (ht, cs') \<and> mset cs' = mset cs \<and> (ht \<noteq> 0 \<longleftrightarrow> winning cs)"
  using assms by (rule ExistHu_decides)

theorem ExistHu_iff_winning_witness:
  "\<exists>ht cs'. ExistHu [0x11, 0x12, 0x13, 0x19, 0x22] True = Some (ht, cs') \<and>
     mset cs' = mset [0x11, 0x12, 0x13, 0x19, 0x22] \<and> (ht \<noteq> 0 \<longleftrightarrow> winning [0x11, 0x12, 0x13, 0x19, 0x22])"
  by (rule ExistHu_iff_winning) simp_all

section \<open>The hand that is missed\<close>

text \<open>
  With four 1-wan the clearing goes wrong: \<open>1 1 1\<close> \<open>1 2 3\<close> \<open>5 5\<close> is a winning hand, but after the
  triplet the middle loop pairs the fourth 1 with the 2 (\<open>list[i]\<close> is 0 by then, so \<open>0 1 2\<close> looks like
  a run), the 3 is left over and \<open>ExistHu\<close> answers 0.
\<close>

lemma ExistHu_misses_hand:
  "winning [1, 1, 1, 1, 2, 3, 5, 5] \<and>
   ExistHu [1, 1, 1, 1, 2, 3, 5, 5] False = Some (0, [1, 1, 1, 1, 2, 3, 5, 5])"
proof
  have "mset [1, 1, 1, 1, 2, 3, 5, 5 :: u8] = {#5, 5#} + (triplets {#1#} + runs {#1#})" by simp
  then show "winning [1, 1, 1, 1, 2, 3, 5, 5]" unfolding winning_def melds_def by blast
  show "ExistHu [1, 1, 1, 1, 2, 3, 5, 5] False = Some (0, [1, 1, 1, 1, 2, 3, 5, 5])"
    by (simp add: ExistHu_unfold upt_rec)
qed

end
