(* ===== verification/AlgoTing.thy ===== *)
theory AlgoTing
  imports AlgoHuComplete
begin

text \<open>
  Waiting hands (\<open>Ting\<close>) and the discard heuristic (\<open>SearchDirtyCard\<close>) of
  \<^verbatim>\<open>src/algo/algorithm.go\<close>.
\<close>

section \<open>Ting\<close>

text \<open>The tiles \<open>Ting\<close> tries: those of the hand and the predecessors of rank at least 1.\<close>

definition below_tiles :: "u8 list \<Rightarrow> u8 set" where
  "below_tiles cs = {c - 1 | c. c \<in> set cs \<and> (c - 1) AND 0x0F \<noteq> 0}"

lemma ting_step:
  assumes "t ! i \<in> set t"
  shows "ting_cands (i # is) t =
    ting_cands is (if (t ! i - 1) AND 0x0F \<noteq> 0 \<and> t ! i - 1 \<notin> set t then t @ [t ! i - 1] else t)"
proof -
  have "list_ex (\<lambda>v. v = t ! i \<or> (t ! i + 1) AND 0x0F > 0x09) t"
    using assms by (auto simp: list_ex_iff)
  moreover have "list_ex (\<lambda>v. v = t ! i - 1 \<or> (t ! i - 1) AND 0x0F < 0x01) t \<longleftrightarrow>
      t ! i - 1 \<in> set t \<or> (t ! i - 1) AND 0x0F = 0"
    using assms by (auto simp: list_ex_iff word_gt_0 word_less_1)
  ultimately show ?thesis by (auto simp: Let_def)
qed

lemma ting_cands_set:
  "(\<And>i. i \<in> set is \<Longrightarrow> i < length cs) \<Longrightarrow>
     set (ting_cands is (cs @ ex)) =
     set cs \<union> set ex \<union> {cs ! i - 1 | i. i \<in> set is \<and> (cs ! i - 1) AND 0x0F \<noteq> 0}"
proof (induction "is" arbitrary: ex)
  case (Cons i "is")
  have i: "i < length cs" using Cons.prems by simp
  let ?p = "cs ! i - 1"
  have "set (ting_cands (i # is) (cs @ ex)) =
      set (ting_cands is (cs @ (if ?p AND 0x0F \<noteq> 0 \<and> ?p \<notin> set (cs @ ex) then ex @ [?p] else ex)))"
    using i by (subst ting_step) (auto simp: nth_append)
  also have "\<dots> = set cs \<union> set ex \<union> {cs ! q - 1 | q. q \<in> set (i # is) \<and> (cs ! q - 1) AND 0x0F \<noteq> 0}"
    using Cons.prems by (subst Cons.IH) auto
  finally show ?case .
qed auto

lemma ting_cands_all: "set (ting_cands [0..<length cs] cs) = set cs \<union> below_tiles cs"
  using ting_cands_set [of "[0..<length cs]" cs "[]"] by (auto simp: below_tiles_def in_set_conv_nth)

lemma below_nonzero: "0 \<notin> below_tiles cs"
  by (auto simp: below_tiles_def)

lemma ting_try_spec:
  assumes "\<And>v. v \<in> set vs \<Longrightarrow> \<exists>ht cs'. ExistHu (cs @ [v]) oc = Some (ht, cs') \<and> (ht \<noteq> 0 \<longleftrightarrow> W v)"
  shows "\<exists>r. ting_try cs oc vs = Some r \<and> (r \<noteq> 0 \<longleftrightarrow> (\<exists>v \<in> set vs. W v))"
  using assms
proof (induction vs)
  case (Cons v vs)
  then obtain ht cs' where "ExistHu (cs @ [v]) oc = Some (ht, cs')" "ht \<noteq> 0 \<longleftrightarrow> W v" by force
  with Cons show ?case by (auto simp: word_gt_0)
qed simp

text \<open>
  C6.  For a hand of \<open>3n + 1\<close> real tiles with at most two 1-wan, \<open>Ting\<close> returns, and its result is
  non-zero exactly if the hand wins with one more tile taken from the hand itself or from the tiles
  one rank below a tile of the hand.  Tiles one rank above are never tried, though the comment on \<open>Ting\<close> says that both
  neighbours are.  With three or more 1-wan the loop that looks for a winning hand can miss one, and the answer can be wrong.
\<close>

theorem Ting_iff:
  assumes "0 \<notin> set cs" and "count (mset cs) 1 \<le> 2" and "length cs mod 3 = 1"
  shows "\<exists>r. Ting cs oc = Some r \<and>
    (r \<noteq> 0 \<longleftrightarrow> (\<exists>v \<in> set cs \<union> below_tiles cs. winning (cs @ [v])))"
  unfolding Ting_def
proof (subst ting_cands_all [symmetric], rule ting_try_spec)
  fix v assume "v \<in> set (ting_cands [0..<length cs] cs)"
  then have "v \<noteq> 0" using assms(1) below_nonzero by (auto simp: ting_cands_all)
  then have "0 \<notin> set (cs @ [v])" using assms(1) by simp
  moreover have "count (mset (cs @ [v])) 1 \<le> 3" using assms(2) by simp
  moreover have "length (cs @ [v]) mod 3 = 2" using assms(3) by (simp add: mod_Suc)
  ultimately show "\<exists>ht cs'. ExistHu (cs @ [v]) oc = Some (ht, cs') \<and> (ht \<noteq> 0 \<longleftrightarrow> winning (cs @ [v]))"
    using ExistHu_decides by blast
qed

theorem Ting_iff_witness:
  "\<exists>r. Ting [0x07, 0x08, 0x15, 0x15] False = Some r \<and>
    (r \<noteq> 0 \<longleftrightarrow> (\<exists>v \<in> set [0x07, 0x08, 0x15, 0x15] \<union> below_tiles [0x07, 0x08, 0x15, 0x15].
        winning ([0x07, 0x08, 0x15, 0x15] @ [v])))"
  by (rule Ting_iff) simp_all

lemma Ting_1255_tries:
  "ExistHu [1, 2, 5, 5, 1] oc = Some (0, [1, 1, 2, 5, 5])"
  "ExistHu [1, 2, 5, 5, 2] oc = Some (0, [1, 2, 2, 5, 5])"
  "ExistHu [1, 2, 5, 5, 5] oc = Some (0, [1, 2, 5, 5, 5])"
  "ExistHu [1, 2, 5, 5, 4] oc = Some (0, [1, 2, 4, 5, 5])"
  by (simp_all add: ExistHu_unfold upt_rec word_le_nat_alt)

text \<open>
  The consequence for play: \<open>1 2\<close> with the pair \<open>5 5\<close> waits for the 3, but \<open>Ting\<close> answers 0,
  because the test that should look for \<open>next\<close> in the candidates looks for \<open>card\<close>.
\<close>

theorem Ting_misses_wait:
  "winning ([1, 2, 5, 5] @ [3]) \<and> Ting [1, 2, 5, 5] oc = Some 0"
proof
  have "mset ([1, 2, 5, 5] @ [3 :: u8]) = {#5, 5#} + (triplets {#} + runs {#1#})" by simp
  then show "winning ([1, 2, 5, 5] @ [3])" unfolding winning_def melds_def by blast
  have t: "ting_cands [0..<length [1, 2, 5, 5 :: u8]] [1, 2, 5, 5] = [1, 2, 5, 5, 4]"
    by code_simp
  show "Ting [1, 2, 5, 5] oc = Some 0"
    unfolding Ting_def t by (simp add: Ting_1255_tries)
qed

end
