(* ===== verification/AlgoDirty.thy ===== *)
theory AlgoDirty
  imports AlgoHuCorrect
begin

text \<open>
  The discard heuristic \<open>SearchDirtyCard\<close> of \<^verbatim>\<open>src/algo/algorithm.go\<close>, used by robots and by the
  managed mode of the table: five passes over a sorted copy of the hand blank out triplets, runs,
  pairs, neighbours and gapped neighbours, and a tile that is left is discarded.
\<close>

section \<open>The passes\<close>

text \<open>
  The two triple loops (over \<open>i\<close>, \<open>j\<close>, \<open>k\<close>) differ only in the test on the three tiles, the three
  double loops only in the test on the two.  The guard \<open>better[i] > 0\<close> stands inside the inner loop
  and the \<open>break\<close> leaves only the inner loop, as in the code.
\<close>

type_synonym test3 = "u8 \<Rightarrow> u8 \<Rightarrow> u8 \<Rightarrow> bool"
type_synonym test2 = "u8 \<Rightarrow> u8 \<Rightarrow> bool"

fun dirty3_k :: "test3 \<Rightarrow> nat \<Rightarrow> nat \<Rightarrow> nat list \<Rightarrow> u8 list \<Rightarrow> u8 list" where
  "dirty3_k P i j [] l = l"
| "dirty3_k P i j (k # ks) l =
     (if l ! i > 0 \<and> P (l ! i) (l ! j) (l ! k) then l[i := 0, j := 0, k := 0]
      else dirty3_k P i j ks l)"

fun dirty3_j :: "test3 \<Rightarrow> nat \<Rightarrow> nat list \<Rightarrow> u8 list \<Rightarrow> u8 list" where
  "dirty3_j P i [] l = l"
| "dirty3_j P i (j # js) l = dirty3_j P i js (dirty3_k P i j [j + 1..<length l] l)"

fun dirty3_i :: "test3 \<Rightarrow> nat list \<Rightarrow> u8 list \<Rightarrow> u8 list" where
  "dirty3_i P [] l = l"
| "dirty3_i P (i # is) l = dirty3_i P is (dirty3_j P i [i + 1..<length l - 1] l)"

definition dirty3 :: "test3 \<Rightarrow> u8 list \<Rightarrow> u8 list" where
  "dirty3 P l = dirty3_i P [0..<length l - 2] l"

fun dirty2_m :: "test2 \<Rightarrow> nat \<Rightarrow> nat list \<Rightarrow> u8 list \<Rightarrow> u8 list" where
  "dirty2_m P n [] l = l"
| "dirty2_m P n (m # ms) l =
     (if l ! n > 0 \<and> P (l ! n) (l ! m) then l[n := 0, m := 0] else dirty2_m P n ms l)"

fun dirty2_n :: "test2 \<Rightarrow> nat list \<Rightarrow> u8 list \<Rightarrow> u8 list" where
  "dirty2_n P [] l = l"
| "dirty2_n P (n # ns) l = dirty2_n P ns (dirty2_m P n [n + 1..<length l] l)"

definition dirty2 :: "test2 \<Rightarrow> u8 list \<Rightarrow> u8 list" where
  "dirty2 P l = dirty2_n P [0..<length l - 1] l"

definition same3 :: test3 where
  "same3 a b c \<longleftrightarrow> a = b \<and> b = c"

definition run3 :: test3 where
  "run3 a b c \<longleftrightarrow> a + 1 = b \<and> b + 1 = c"

definition near2 :: test2 where
  "near2 a b \<longleftrightarrow> a + 1 = b \<and> a AND 0x0F \<noteq> 1 \<and> b AND 0x0F \<noteq> 9"

definition gap2 :: test2 where
  "gap2 a b \<longleftrightarrow> a + 2 = b \<and> a AND 0x0F \<noteq> 1 \<and> b AND 0x0F \<noteq> 9"

definition dirty_passes :: "u8 list \<Rightarrow> u8 list" where
  "dirty_passes better = dirty2 gap2 (dirty2 near2 (dirty2 (=) (dirty3 run3 (dirty3 same3 better))))"

text \<open>
  The collection of what is left: \<open>bet\<close> receives the remaining tiles up to the first terminal (rank
  1 or 9), which becomes \<open>card\<close> (here \<open>cd\<close>).
\<close>

fun dirty_bet :: "u8 list \<Rightarrow> u8 list \<Rightarrow> u8 list \<times> u8" where
  "dirty_bet [] bet = (bet, 0)"
| "dirty_bet (b # bs) bet =
     (if b > 0 then
        (if b AND 0x0F = 1 \<or> b AND 0x0F = 9 then (bet @ [b], b) else dirty_bet bs (bet @ [b]))
      else dirty_bet bs bet)"

text \<open>
  \<open>intn\<close> is \<open>rand.Intn\<close> on the freshly seeded source: an index below its argument.  The slice of
  decimal strings \<open>arr\<close> is built and never read, so it is not part of the result.
\<close>

definition SearchDirtyCard :: "(nat \<Rightarrow> nat) \<Rightarrow> u8 list \<Rightarrow> u8 option" where
  "SearchDirtyCard intn cs =
     (if length cs = 0 then Some 0
      else do {
        better \<leftarrow> Sort cs 0 (int (length cs) - 1);
        (case dirty_bet (dirty_passes better) [] of (bet, cd) \<Rightarrow>
          if cd = 0 then
            (if length bet > 0 then go_nth bet (int (intn (length bet))) else go_nth cs 0)
          else Some cd)
      })"

section \<open>What a pass keeps\<close>

lemma dirty3_k_length [simp]: "length (dirty3_k P i j ks l) = length l"
  by (induction ks) auto

lemma dirty3_j_length [simp]: "length (dirty3_j P i js l) = length l"
  by (induction js arbitrary: l) auto

lemma dirty3_i_length [simp]: "length (dirty3_i P is l) = length l"
  by (induction "is" arbitrary: l) auto

lemma dirty3_k_set: "set (dirty3_k P i j ks l) \<subseteq> insert 0 (set l)"
proof (induction ks)
  case (Cons k ks)
  have "set (l[i := 0, j := 0, k := 0]) \<subseteq> insert 0 (insert 0 (insert 0 (set l)))"
    by (meson dual_order.trans insert_mono set_update_subset_insert)
  with Cons show ?case by auto
qed auto

lemma dirty3_j_set: "set (dirty3_j P i js l) \<subseteq> insert 0 (set l)"
proof (induction js arbitrary: l)
  case (Cons j js)
  show ?case using Cons [of "dirty3_k P i j [j + 1..<length l] l"] dirty3_k_set [of P i j "[j + 1..<length l]" l]
    by auto
qed auto

lemma dirty3_set: "set (dirty3 P l) \<subseteq> insert 0 (set l)"
proof -
  have "set (dirty3_i P is l) \<subseteq> insert 0 (set l)" for "is"
  proof (induction "is" arbitrary: l)
    case (Cons i "is")
    show ?case using Cons [of "dirty3_j P i [i + 1..<length l - 1] l"] dirty3_j_set [of P i "[i + 1..<length l - 1]" l]
      by auto
  qed auto
  then show ?thesis by (simp add: dirty3_def)
qed

lemma dirty2_m_set: "set (dirty2_m P n ms l) \<subseteq> insert 0 (set l)"
proof (induction ms)
  case (Cons m ms)
  have "set (l[n := 0, m := 0]) \<subseteq> insert 0 (insert 0 (set l))"
    by (meson dual_order.trans insert_mono set_update_subset_insert)
  with Cons show ?case by auto
qed auto

lemma dirty2_set: "set (dirty2 P l) \<subseteq> insert 0 (set l)"
proof -
  have "set (dirty2_n P ns l) \<subseteq> insert 0 (set l)" for ns
  proof (induction ns arbitrary: l)
    case (Cons n ns)
    show ?case using Cons [of "dirty2_m P n [n + 1..<length l] l"] dirty2_m_set [of P n "[n + 1..<length l]" l]
      by auto
  qed auto
  then show ?thesis by (simp add: dirty2_def)
qed

lemma dirty_passes_set: "set (dirty_passes l) \<subseteq> insert 0 (set (dirty3 same3 l))"
proof -
  let ?a = "dirty3 same3 l"
  let ?b = "dirty3 run3 ?a"
  let ?c = "dirty2 (=) ?b"
  let ?d = "dirty2 near2 ?c"
  have "set ?b \<subseteq> insert 0 (set ?a)" "set ?c \<subseteq> insert 0 (set ?b)" "set ?d \<subseteq> insert 0 (set ?c)"
    "set (dirty2 gap2 ?d) \<subseteq> insert 0 (set ?d)" by (rule dirty3_set dirty2_set)+
  then show ?thesis unfolding dirty_passes_def by blast
qed

lemma dirty_bet_set:
  "dirty_bet l bet = (bet', cd) \<Longrightarrow>
     set bet \<subseteq> set bet' \<and> set bet' \<subseteq> set bet \<union> (set l - {0}) \<and> (cd = 0 \<or> cd \<in> set bet') \<and>
     (cd = 0 \<longleftrightarrow> (\<forall>b \<in> set l. b = 0 \<or> b AND 0x0F \<noteq> 1 \<and> b AND 0x0F \<noteq> 9))"
proof (induction l bet rule: dirty_bet.induct)
  case (2 b bs bet)
  then show ?case by (auto simp: word_gt_0 split: if_splits)
qed auto

lemma dirty_bet_collects:
  "dirty_bet l bet = (bet', cd) \<Longrightarrow> cd = 0 \<Longrightarrow> set bet' = set bet \<union> (set l - {0})"
proof (induction l bet rule: dirty_bet.induct)
  case (2 b bs bet)
  then show ?case by (auto simp: word_gt_0 split: if_splits)
qed auto

section \<open>The triplet pass removes triplets, and only triplets\<close>

abbreviation triple_at :: "u8 list \<Rightarrow> nat \<Rightarrow> nat \<Rightarrow> nat \<Rightarrow> bool" where
  "triple_at l i j k \<equiv> i < j \<and> j < k \<and> k < length l \<and> l ! i = l ! j \<and> l ! j = l ! k"

lemma dirty3_k_cases:
  "dirty3_k P i j ks l = l \<and> (\<forall>k \<in> set ks. \<not> (l ! i > 0 \<and> P (l ! i) (l ! j) (l ! k))) \<or>
   (\<exists>k \<in> set ks. l ! i > 0 \<and> P (l ! i) (l ! j) (l ! k) \<and> dirty3_k P i j ks l = clear3 l i j k)"
  by (induction ks) auto

lemma dirty3_k_zero: "l ! i = 0 \<Longrightarrow> dirty3_k P i j ks l = l"
  by (induction ks) auto

lemma dirty3_j_zero: "l ! i = 0 \<Longrightarrow> dirty3_j P i js l = l"
  by (induction js) (auto simp: dirty3_k_zero)

lemma dirty3_j_cases:
  assumes "i < length l" and "\<And>j. j \<in> set js \<Longrightarrow> i < j \<and> j < length l"
  shows "dirty3_j same3 i js l = l \<and> (\<forall>j \<in> set js. \<forall>k. \<not> (l ! i \<noteq> 0 \<and> triple_at l i j k)) \<or>
   (\<exists>j k. l ! i \<noteq> 0 \<and> triple_at l i j k \<and> dirty3_j same3 i js l = clear3 l i j k)"
  using assms(2)
proof (induction js)
  case (Cons j js)
  have ij: "i < j" "j < length l" using Cons.prems by auto
  from dirty3_k_cases [of same3 i j "[j + 1..<length l]" l] show ?case
  proof
    assume "dirty3_k same3 i j [j + 1..<length l] l = l \<and>
      (\<forall>k \<in> set [j + 1..<length l]. \<not> (l ! i > 0 \<and> same3 (l ! i) (l ! j) (l ! k)))"
    then have keep: "dirty3_j same3 i (j # js) l = dirty3_j same3 i js l"
      and none: "\<not> (l ! i \<noteq> 0 \<and> triple_at l i j k)" for k
      by (auto simp: same3_def [of "l ! i" "l ! j"] word_gt_0)
    have IH: "dirty3_j same3 i js l = l \<and> (\<forall>j \<in> set js. \<forall>k. \<not> (l ! i \<noteq> 0 \<and> triple_at l i j k)) \<or>
        (\<exists>j k. l ! i \<noteq> 0 \<and> triple_at l i j k \<and> dirty3_j same3 i js l = clear3 l i j k)"
      using Cons.prems by (intro Cons.IH) auto
    show ?thesis unfolding keep using IH none by (metis set_ConsD)
  next
    assume "\<exists>k \<in> set [j + 1..<length l]. l ! i > 0 \<and> same3 (l ! i) (l ! j) (l ! k) \<and>
      dirty3_k same3 i j [j + 1..<length l] l = clear3 l i j k"
    then obtain k where "k \<in> set [j + 1..<length l]" and k: "l ! i > 0" "same3 (l ! i) (l ! j) (l ! k)"
      "dirty3_k same3 i j [j + 1..<length l] l = clear3 l i j k" by blast
    then have jk: "j < k" "k < length l" by auto
    then have "clear3 l i j k ! i = 0" using ij by (simp add: nth_list_update)
    then have "dirty3_j same3 i (j # js) l = clear3 l i j k" using k(3) by (simp add: dirty3_j_zero)
    moreover have "l ! i \<noteq> 0" "triple_at l i j k"
      using k ij jk by (auto simp: same3_def [of "l ! i" "l ! j"] word_gt_0)
    ultimately show ?thesis by blast
  qed
qed auto

text \<open>After the positions below \<open>n\<close>: no triplet of tiles starts there.\<close>

definition no_triple_below :: "nat \<Rightarrow> u8 list \<Rightarrow> bool" where
  "no_triple_below n l \<longleftrightarrow> (\<forall>i < n. \<forall>j k. \<not> (l ! i \<noteq> 0 \<and> triple_at l i j k))"

lemma no_triple_below_remains: "no_triple_below n l \<Longrightarrow> remains l l' \<Longrightarrow> no_triple_below n l'"
  unfolding no_triple_below_def remains_def by (metis order.strict_trans)

lemma dirty3_i_inv:
  "i + m = length l - 2 \<Longrightarrow> no_triple_below i l \<Longrightarrow>
     no_triple_below (length l - 2) (dirty3_i same3 [i..<i + m] l) \<and>
     (\<exists>T. nz l = triplets T + nz (dirty3_i same3 [i..<i + m] l))"
proof (induction m arbitrary: i l)
  case 0
  then show ?case by (auto intro: exI [of _ "{#}"])
next
  case (Suc m)
  let ?l = "dirty3_j same3 i [i + 1..<length l - 1] l"
  have i: "i < length l" using Suc.prems(1) by simp
  have "(?l = l \<and> (\<forall>j k. \<not> (l ! i \<noteq> 0 \<and> triple_at l i j k))) \<or>
      (\<exists>j k. l ! i \<noteq> 0 \<and> triple_at l i j k \<and> ?l = clear3 l i j k)"
  proof -
    have rng: "j \<in> set [i + 1..<length l - 1]" if "triple_at l i j k" for j k using that by auto
    have "?l = l \<and> (\<forall>j \<in> set [i + 1..<length l - 1]. \<forall>k. \<not> (l ! i \<noteq> 0 \<and> triple_at l i j k)) \<or>
        (\<exists>j k. l ! i \<noteq> 0 \<and> triple_at l i j k \<and> ?l = clear3 l i j k)"
      by (rule dirty3_j_cases [OF i]) auto
    with rng show ?thesis by blast
  qed
  then obtain T where step: "nz l = triplets T + nz ?l" "remains l ?l" "no_triple_below (Suc i) ?l"
  proof
    assume *: "?l = l \<and> (\<forall>j k. \<not> (l ! i \<noteq> 0 \<and> triple_at l i j k))"
    then have "no_triple_below (Suc i) l" using Suc.prems(2) by (auto simp: no_triple_below_def less_Suc_eq)
    with * show thesis by (intro that [of "{#}"]) auto
  next
    assume "\<exists>j k. l ! i \<noteq> 0 \<and> triple_at l i j k \<and> ?l = clear3 l i j k"
    then obtain j k where jk: "l ! i \<noteq> 0" "triple_at l i j k" "?l = clear3 l i j k" by blast
    have rem: "remains l ?l" unfolding jk(3) by (simp add: remains_clear3)
    have "nz l = {#l ! i, l ! j, l ! k#} + nz ?l" unfolding jk(3) using jk(1,2) by (intro nz_clear3) auto
    then have "nz l = triplets {#l ! i#} + nz ?l" using jk(2) by simp
    moreover have "?l ! i = 0" unfolding jk(3) using jk(2) i by (simp add: nth_list_update)
    then have "no_triple_below (Suc i) ?l"
      using no_triple_below_remains [OF Suc.prems(2) rem] by (auto simp: no_triple_below_def less_Suc_eq)
    ultimately show thesis using rem by (intro that [of "{#l ! i#}"])
  qed
  have len: "length ?l = length l" by simp
  have eq: "dirty3_i same3 [i..<i + Suc m] l = dirty3_i same3 [Suc i..<Suc i + m] ?l"
  proof -
    have "[i..<i + Suc m] = i # [Suc i..<Suc i + m]" by (subst upt_conv_Cons) auto
    then show ?thesis by simp
  qed
  have "no_triple_below (length ?l - 2) (dirty3_i same3 [Suc i..<Suc i + m] ?l) \<and>
      (\<exists>T'. nz ?l = triplets T' + nz (dirty3_i same3 [Suc i..<Suc i + m] ?l))"
    using Suc.prems(1) step(3) len by (intro Suc.IH) auto
  then obtain T' where "no_triple_below (length l - 2) (dirty3_i same3 [i..<i + Suc m] l)"
    "nz ?l = triplets T' + nz (dirty3_i same3 [i..<i + Suc m] l)" unfolding eq len by blast
  moreover from this step(1) have "nz l = triplets (T + T') + nz (dirty3_i same3 [i..<i + Suc m] l)"
    by (simp add: ac_simps)
  ultimately show ?case by blast
qed

lemma count_three_positions:
  assumes "count (mset l) c \<ge> 3"
  obtains i j k where "triple_at l i j k" "l ! i = c"
proof -
  let ?S = "{p. p < length l \<and> c = l ! p}"
  let ?xs = "sorted_list_of_set ?S"
  have "card ?S = count (mset l) c"  by (simp add: count_mset count_list_eq_length_filter length_filter_conv_card)
  then have len: "length ?xs \<ge> 3" using assms by simp
  have mem: "?xs ! q < length l \<and> l ! (?xs ! q) = c" if "q < 3" for q
    using nth_mem [of q ?xs] that len by auto
  have "sorted_wrt (<) ?xs" by simp
  then have "?xs ! 0 < ?xs ! 1" "?xs ! 1 < ?xs ! 2"
    using len by (simp_all add: sorted_wrt_iff_nth_less)
  then show thesis using mem [of 0] mem [of 1] mem [of 2] by (intro that [of "?xs ! 0" "?xs ! 1" "?xs ! 2"]) auto
qed

lemma count_nz: "c \<noteq> 0 \<Longrightarrow> count (nz l) c = count (mset l) c"
  by (simp add: nz_def)

text \<open>For every tile the pass keeps the number of copies modulo three.\<close>

lemma dirty3_same3_count:
  assumes "c \<noteq> 0"
  shows "count (mset (dirty3 same3 l)) c = count (mset l) c mod 3"
proof -
  let ?l = "dirty3 same3 l"
  have "no_triple_below (length l - 2) ?l \<and> (\<exists>T. nz l = triplets T + nz ?l)"
    using dirty3_i_inv [of 0 "length l - 2" l] by (simp add: dirty3_def no_triple_below_def)
  then obtain T where nt: "no_triple_below (length l - 2) ?l" and nz: "nz l = triplets T + nz ?l" by blast
  have "count (mset l) c = 3 * count T c + count (mset ?l) c"
    using arg_cong [OF nz, of "\<lambda>M. count M c"] assms by (simp add: count_nz count_triplets)
  moreover have "count (mset ?l) c < 3"
  proof (rule ccontr)
    assume "\<not> count (mset ?l) c < 3"
    then obtain i j k where "triple_at ?l i j k" "?l ! i = c"
      using count_three_positions [of ?l c] by (metis not_less)
    moreover have "length ?l = length l" by (simp add: dirty3_def)
    ultimately have "i < length l - 2 \<and> ?l ! i \<noteq> 0 \<and> triple_at ?l i j k" using assms by auto
    with nt show False unfolding no_triple_below_def by blast
  qed
  ultimately show ?thesis by (metis mod_mult_self4 mod_less)
qed

section \<open>The discarded tile\<close>

lemma SearchDirtyCard_cases:
  assumes "cs \<noteq> []" and "\<And>n. 0 < n \<Longrightarrow> intn n < n"
  obtains c where "SearchDirtyCard intn cs = Some c"
    "c \<in> set (dirty_passes (sort cs)) - {0} \<or> c = cs ! 0 \<and> (\<forall>b \<in> set (dirty_passes (sort cs)). b = 0)"
proof -
  obtain bet cd where b: "dirty_bet (dirty_passes (sort cs)) [] = (bet, cd)" by fastforce
  note bs = dirty_bet_set [OF b]
  have run: "SearchDirtyCard intn cs =
      (if cd = 0 then (if length bet > 0 then go_nth bet (int (intn (length bet))) else go_nth cs 0) else Some cd)"
    using assms(1) b by (simp add: SearchDirtyCard_def Sort_whole)
  consider (card) "cd \<noteq> 0" | (rand) "cd = 0" "bet \<noteq> []" | (none) "cd = 0" "bet = []" by blast
  then show thesis
  proof cases
    case card
    with run bs show thesis by (intro that [of cd]) auto
  next
    case rand
    then have i: "intn (length bet) < length bet" using assms(2) by simp
    with rand run have "SearchDirtyCard intn cs = Some (bet ! intn (length bet))" by simp
    moreover have "bet ! intn (length bet) \<in> set bet" using i by simp
    ultimately show thesis using bs by (intro that [of "bet ! intn (length bet)"]) auto
  next
    case none
    have "\<forall>b \<in> set (dirty_passes (sort cs)). b = 0" using dirty_bet_collects [OF b] none by auto
    with none run assms(1) show thesis by (intro that [of "cs ! 0"]) auto
  qed
qed

text \<open>
  C8.  \<open>SearchDirtyCard\<close> never panics and discards a tile of the hand: for every non-empty hand and every
  random source that keeps its contract it returns, and the tile is one of the hand.  The hand is
  allowed to contain blank (0) entries.
\<close>

theorem SearchDirtyCard_in_hand:
  assumes "cs \<noteq> []" and "\<And>n. 0 < n \<Longrightarrow> intn n < n"
  shows "\<exists>c. SearchDirtyCard intn cs = Some c \<and> c \<in> set cs"
proof (rule SearchDirtyCard_cases [OF assms])
  fix c assume c: "SearchDirtyCard intn cs = Some c"
    "c \<in> set (dirty_passes (sort cs)) - {0} \<or> c = cs ! 0 \<and> (\<forall>b \<in> set (dirty_passes (sort cs)). b = 0)"
  have "set (dirty_passes (sort cs)) \<subseteq> insert 0 (set cs)"
    using dirty_passes_set [of "sort cs"] dirty3_set [of same3 "sort cs"] by auto
  then show ?thesis using c assms(1) by (auto intro: nth_mem)
qed

theorem SearchDirtyCard_in_hand_witness:
  "\<exists>c. SearchDirtyCard (\<lambda>n. n - 1) [0x05, 0x07, 0x12] = Some c \<and> c \<in> set [0x05, 0x07, 0x12]"
  by (rule SearchDirtyCard_in_hand) simp_all

text \<open>
  It does not break up triplets: a tile held exactly three times is discarded only in the
  fall-back case, in which no loose tile is left and the code throws the first tile of the hand.
\<close>

theorem SearchDirtyCard_keeps_triplets:
  assumes "cs \<noteq> []" and "\<And>n. 0 < n \<Longrightarrow> intn n < n" and "c \<noteq> 0" and "count (mset cs) c = 3"
    and "SearchDirtyCard intn cs = Some c"
  shows "c = cs ! 0 \<and> set (dirty_passes (sort cs)) \<subseteq> {0}"
proof (rule SearchDirtyCard_cases [OF assms(1,2)])
  fix d assume d: "SearchDirtyCard intn cs = Some d"
    "d \<in> set (dirty_passes (sort cs)) - {0} \<or> d = cs ! 0 \<and> (\<forall>b \<in> set (dirty_passes (sort cs)). b = 0)"
  have "count (mset (dirty3 same3 (sort cs))) c = 0"
    using dirty3_same3_count [OF assms(3), of "sort cs"] assms(4) by simp
  then have "c \<notin> set (dirty3 same3 (sort cs))" by (metis count_greater_zero_iff less_numeral_extra(3) set_mset_mset)
  then have "c \<notin> set (dirty_passes (sort cs)) - {0}" using dirty_passes_set by blast
  with d assms(5) show ?thesis by auto
qed

theorem SearchDirtyCard_keeps_triplets_witness:
  "(0x05 :: u8) = [0x05, 0x05, 0x05] ! 0 \<and> set (dirty_passes (sort [0x05, 0x05, 0x05])) \<subseteq> {0}"
proof (rule SearchDirtyCard_keeps_triplets [where intn = "\<lambda>n. n - 1"])
  show "SearchDirtyCard (\<lambda>n. n - 1) [0x05, 0x05, 0x05] = Some 0x05" by code_simp
qed simp_all

end
