(* ===== verification/Fan.thy ===== *)
theory Fan
  imports AlgoHuCorrect
begin

text \<open>
  The score tables of \<^verbatim>\<open>src/constan/constan.go\<close>: the multipliers and the three functions that turn a
  hand mask into a score (\<open>fan\<close>).  The multipliers are small untyped constants and the results
  \<open>int32\<close> values of at most 30, written as integers.
\<close>

section \<open>Multipliers\<close>

definition MULTI_PING :: int where "MULTI_PING = 1"
definition MULTI_TING :: int where "MULTI_TING = 20"
definition MULTI_TTING :: int where "MULTI_TTING = 20"
definition MULTI_DTING :: int where "MULTI_DTING = 10"
definition MULTI_ZIMO :: int where "MULTI_ZIMO = 1"
definition MULTI_KONG_FLOWER :: int where "MULTI_KONG_FLOWER = 2"
definition MULTI_BIG_PAIR :: int where "MULTI_BIG_PAIR = 5"
definition MULTI_SEVEN_PAIR :: int where "MULTI_SEVEN_PAIR = 10"
definition MULTI_ALL_OF_ONE :: int where "MULTI_ALL_OF_ONE = 10"
definition MULTI_ONE_SUIT_BIG_PAIR :: int where "MULTI_ONE_SUIT_BIG_PAIR = 15"
definition MULTI_ONE_SUIT_SEVEN_PAIR :: int where "MULTI_ONE_SUIT_SEVEN_PAIR = 20"
definition MULTI_LONG_SEVEN_PAIR :: int where "MULTI_LONG_SEVEN_PAIR = 20"
definition MULTI_ONE_SUIT_LONG_SEVEN_PAIR :: int where "MULTI_ONE_SUIT_LONG_SEVEN_PAIR = 30"
definition MULTI_RE_PAO :: int where "MULTI_RE_PAO = 1"
definition MULTI_SHAN_XIANG :: int where "MULTI_SHAN_XIANG = 1"

lemmas multi_defs = MULTI_PING_def MULTI_TING_def MULTI_TTING_def MULTI_DTING_def MULTI_ZIMO_def
  MULTI_KONG_FLOWER_def MULTI_BIG_PAIR_def MULTI_SEVEN_PAIR_def MULTI_ALL_OF_ONE_def
  MULTI_ONE_SUIT_BIG_PAIR_def MULTI_ONE_SUIT_SEVEN_PAIR_def MULTI_LONG_SEVEN_PAIR_def
  MULTI_ONE_SUIT_LONG_SEVEN_PAIR_def MULTI_RE_PAO_def MULTI_SHAN_XIANG_def

section \<open>Masks to scores\<close>

definition Type2Fan :: "u32 \<Rightarrow> int" where
  "Type2Fan huType =
     (if huType AND HU_ONE_SUIT_LONG_SEVEN_PAIR > 0 then MULTI_ONE_SUIT_LONG_SEVEN_PAIR
      else if huType AND HU_LONG_SEVEN_PAIR > 0 then MULTI_LONG_SEVEN_PAIR
      else if huType AND HU_ONE_SUIT_SEVEN_PAIR > 0 then MULTI_ONE_SUIT_SEVEN_PAIR
      else if huType AND HU_ONE_SUIT_BIG_PAIR > 0 then MULTI_ONE_SUIT_BIG_PAIR
      else if huType AND HU_ALL_OF_ONE > 0 then MULTI_ALL_OF_ONE
      else if huType AND HU_SEVEN_PAIR > 0 then MULTI_SEVEN_PAIR
      else if huType AND HU_BIG_PAIR > 0 then MULTI_BIG_PAIR
      else MULTI_PING)"

definition Ting2Fan :: "u32 \<Rightarrow> int" where
  "Ting2Fan huType =
     (if huType AND DI_HU > 0 then MULTI_DTING
      else if huType AND TT_HU > 0 then MULTI_TTING
      else if huType AND TIAN_HU > 0 then MULTI_TING
      else 0)"

definition Mode2Fan :: "u32 \<Rightarrow> bool \<Rightarrow> int" where
  "Mode2Fan huType zimo =
     (let huTypeFan = (if zimo then MULTI_ZIMO else 0)
      in if huType AND HU_KONG_FLOWER > 0 then MULTI_KONG_FLOWER
         else if huType AND RE_PAO > 0 then MULTI_RE_PAO
         else if huType AND SHAN_XIANG > 0 then MULTI_SHAN_XIANG
         else huTypeFan)"

section \<open>The score of a hand\<close>

lemma Type2Fan_seven_type:
  "Type2Fan (seven_type cs oc) =
     (if existFour cs then (if oc then 30 else 20) else (if oc then 20 else 10))"
  by (cases "existFour cs"; cases oc)
    (simp_all add: Type2Fan_def seven_type_def multi_defs hu_flags Let_def)

text \<open>
  The score of a seven-pairs hand: \<open>ExistHu\<close> recognises every hand of seven pairs and the mask it
  returns scores 10, 20 in one suit or with four of a kind (a \<open>dragon\<close>), and 30 with both.
\<close>

theorem seven_pairs_fan:
  assumes "seven_pairs cs"
  shows "\<exists>ht cs'. ExistHu cs oc = Some (ht, cs') \<and>
    Type2Fan ht = (if \<exists>c. count (mset cs) c \<ge> 4 then (if oc then 30 else 20) else (if oc then 20 else 10))"
proof -
  have "length cs = 14" using assms by (simp add: seven_pairs_def)
  moreover from this have "pairs_ok (sort cs)" using assms by (simp add: sorted_pairs_ok_iff)
  moreover have "existFour (sort cs) \<longleftrightarrow> (\<exists>c. count (mset cs) c \<ge> 4)"
    by (simp add: existFour_iff_count)
  ultimately show ?thesis by (simp add: ExistHu_unfold Type2Fan_seven_type)
qed

theorem seven_pairs_fan_witness:
  "\<exists>ht cs'. ExistHu [1,1,2,2,3,3,4,4,4,4,7,7,9,9] True = Some (ht, cs') \<and>
    Type2Fan ht = (if \<exists>c. count (mset [1,1,2,2,3,3,4,4,4,4,7,7,9,9 :: u8]) c \<ge> 4
                   then (if True then 30 else 20) else (if True then 20 else 10))"
  by (rule seven_pairs_fan) (simp add: seven_pairs_def)

end
