(* ===== verification/Fifo.thy ===== *)
theory Fifo
  imports Prelude
begin

text \<open>
  The growing ring buffer \<open>Queue\<close> of \<^verbatim>\<open>src/basic/utils/queue.go\<close> and the interface it implements: a
  first-in first-out queue.  The elements are interface values, \<open>None\<close> standing for \<open>nil\<close>; the
  three counters are never negative and are natural numbers.  An out-of-range slot or a remainder by a
  zero length is a panic (\<open>None\<close>).
\<close>

section \<open>The ring buffer\<close>

record 'a queue =
  elems :: "'a option list"
  nelems :: nat
  popi :: nat
  pushi :: nat

definition empty_queue :: "'a queue" where
  "empty_queue = \<lparr>elems = [], nelems = 0, popi = 0, pushi = 0\<rparr>"

definition Queue_Len :: "'a queue \<Rightarrow> nat" where
  "Queue_Len q = nelems q"

definition grow_cap :: "nat \<Rightarrow> nat" where
  "grow_cap curcap =
     (if curcap = 0 then 8 else if curcap < 1024 then curcap * 2 else curcap + curcap div 4)"

definition expand :: "'a queue \<Rightarrow> 'a queue" where
  "expand q =
     (let curcap = length (elems q);
          newcap = grow_cap curcap;
          es = replicate newcap None
      in if popi q = 0 then q\<lparr>elems := go_copy es (elems q), pushi := curcap\<rparr>
         else (let newpopi = newcap - (curcap - popi q);
                   es = go_copy es (take (popi q) (elems q));
                   es = take newpopi es @ go_copy (drop newpopi es) (drop (popi q) (elems q))
               in q\<lparr>elems := es, popi := newpopi\<rparr>))"

definition Queue_Push :: "'a option \<Rightarrow> 'a queue \<Rightarrow> 'a queue option" where
  "Queue_Push e q =
     (let q = (if nelems q = length (elems q) then expand q else q)
      in if pushi q < length (elems q)
         then Some (q\<lparr>elems := (elems q)[pushi q := e], nelems := nelems q + 1,
                      pushi := (pushi q + 1) mod length (elems q)\<rparr>)
         else None)"

definition Queue_Pop :: "'a queue \<Rightarrow> ('a option \<times> 'a queue) option" where
  "Queue_Pop q =
     (if nelems q = 0 then Some (None, q)
      else if popi q < length (elems q)
      then Some (elems q ! popi q,
                 q\<lparr>elems := (elems q)[popi q := None], nelems := nelems q - 1,
                   popi := (popi q + 1) mod length (elems q)\<rparr>)
      else None)"

section \<open>The interface\<close>

text \<open>
  What a client of the queue relies on: \<open>abs\<close> is the sequence of waiting elements, oldest first.  An
  operation on a well-formed queue returns and keeps it well-formed.
\<close>

datatype 'e qop = QPush 'e | QPop

text \<open>The specification: the same sequence of operations on a list; a pop of the empty list gives \<open>z\<close>.\<close>

fun list_ops :: "'e \<Rightarrow> 'e qop list \<Rightarrow> 'e list \<Rightarrow> 'e list \<times> 'e list" where
  "list_ops z [] xs = ([], xs)"
| "list_ops z (QPush e # ops) xs = list_ops z ops (xs @ [e])"
| "list_ops z (QPop # ops) [] = (case list_ops z ops [] of (es, ys) \<Rightarrow> (z # es, ys))"
| "list_ops z (QPop # ops) (x # xs) = (case list_ops z ops xs of (es, ys) \<Rightarrow> (x # es, ys))"

locale fifo =
  fixes emp :: 'q
    and push :: "'e \<Rightarrow> 'q \<Rightarrow> 'q option"
    and pop :: "'q \<Rightarrow> ('e \<times> 'q) option"
    and len :: "'q \<Rightarrow> nat"
    and inv :: "'q \<Rightarrow> bool"
    and abs :: "'q \<Rightarrow> 'e list"
    and nil :: 'e
  assumes inv_empty: "inv emp" and abs_empty: "abs emp = []"
    and push_ok: "inv q \<Longrightarrow> \<exists>q'. push e q = Some q' \<and> inv q' \<and> abs q' = abs q @ [e]"
    and pop_ok: "inv q \<Longrightarrow> abs q = e # es \<Longrightarrow> \<exists>q'. pop q = Some (e, q') \<and> inv q' \<and> abs q' = es"
    and pop_empty: "inv q \<Longrightarrow> abs q = [] \<Longrightarrow> pop q = Some (nil, q)"
    and len_ok: "inv q \<Longrightarrow> len q = length (abs q)"
begin

text \<open>A client that runs a sequence of operations and collects what the pops return.\<close>

primrec run_ops :: "'e qop list \<Rightarrow> 'q \<Rightarrow> ('e list \<times> 'q) option" where
  "run_ops [] q = Some ([], q)"
| "run_ops (op # ops) q =
     (case op of
        QPush e \<Rightarrow> do { q \<leftarrow> push e q; run_ops ops q }
      | QPop \<Rightarrow> do { (e, q) \<leftarrow> pop q; (es, q) \<leftarrow> run_ops ops q; Some (e # es, q) })"

lemma run_ops_ok:
  "inv q \<Longrightarrow> \<exists>q'. run_ops ops q = Some (fst (list_ops nil ops (abs q)), q') \<and> inv q' \<and>
     abs q' = snd (list_ops nil ops (abs q))"
proof (induction ops arbitrary: q)
  case (Cons op ops)
  show ?case
  proof (cases op)
    case (QPush e)
    from push_ok [OF Cons.prems] obtain q1 where "push e q = Some q1" "inv q1" "abs q1 = abs q @ [e]" by blast
    with Cons.IH [of q1] QPush show ?thesis by auto
  next
    case QPop
    show ?thesis
    proof (cases "abs q")
      case Nil
      with QPop Cons.IH [OF Cons.prems] pop_empty [OF Cons.prems Nil] show ?thesis
        by (auto split: prod.splits)
    next
      case (Cons e es)
      with \<open>inv q\<close> obtain q1 where "pop q = Some (e, q1)" "inv q1" "abs q1 = es" using pop_ok by blast
      with Cons QPop \<open>\<And>q. inv q \<Longrightarrow> _\<close> [of q1] show ?thesis by (auto split: prod.splits)
    qed
  qed
qed simp

text \<open>A client that takes the oldest \<open>n\<close> elements.\<close>

primrec pop_n :: "nat \<Rightarrow> 'q \<Rightarrow> ('e list \<times> 'q) option" where
  "pop_n 0 q = Some ([], q)"
| "pop_n (Suc n) q = do { (e, q) \<leftarrow> pop q; (es, q) \<leftarrow> pop_n n q; Some (e # es, q) }"

lemma pop_n_ok:
  "inv q \<Longrightarrow> abs q = es @ fs \<Longrightarrow> \<exists>q'. pop_n (length es) q = Some (es, q') \<and> inv q' \<and> abs q' = fs"
proof (induction es arbitrary: q)
  case (Cons e es)
  then obtain q1 where "pop q = Some (e, q1)" "inv q1" "abs q1 = es @ fs"
    using pop_ok [of q e "es @ fs"] by auto
  with Cons.IH [of q1] show ?case by auto
qed simp

end

section \<open>The ring buffer implements the interface\<close>

definition queue_inv :: "'a queue \<Rightarrow> bool" where
  "queue_inv q \<longleftrightarrow>
     (let cap = length (elems q)
      in nelems q \<le> cap \<and> (if cap = 0 then popi q = 0 \<and> pushi q = 0
                            else popi q < cap \<and> pushi q = (popi q + nelems q) mod cap))"

definition queue_abs :: "'a queue \<Rightarrow> 'a option list" where
  "queue_abs q = map (\<lambda>i. elems q ! ((popi q + i) mod length (elems q))) [0..<nelems q]"

lemma queue_empty_ok: "queue_inv empty_queue" "queue_abs empty_queue = []"
  by (simp_all add: queue_inv_def queue_abs_def empty_queue_def)

lemma queue_len_ok: "Queue_Len q = length (queue_abs q)"
  by (simp add: Queue_Len_def queue_abs_def)

lemma mod_wrap: "a < n + n \<Longrightarrow> a mod n = (if a < n then a else a - n)" for a :: nat
  by (simp add: mod_if)

lemma list_eq_mapI: "length xs = n \<Longrightarrow> (\<And>i. i < n \<Longrightarrow> xs ! i = f i) \<Longrightarrow> xs = map f [0..<n]"
  by (intro nth_equalityI) auto

text \<open>Growing a full buffer keeps its content, oldest element first, and makes room.\<close>

lemma expand_shape:
  obtains k where "k > 0" "elems (expand q) = take (popi q) (elems q) @ replicate k None @ drop (popi q) (elems q)"
      "popi (expand q) = popi q + k" "pushi (expand q) = pushi q" "nelems (expand q) = nelems q"
      "popi q \<noteq> 0" "popi q < length (elems q)"
    | k where "k > 0" "elems (expand q) = elems q @ replicate k None" "popi (expand q) = 0"
      "pushi (expand q) = length (elems q)" "nelems (expand q) = nelems q" "popi q = 0"
    | "popi q \<ge> length (elems q)" "popi q \<noteq> 0"
proof -
  let ?c = "length (elems q)"
  let ?n = "grow_cap ?c"
  have n: "?c < ?n" by (auto simp: grow_cap_def)
  consider "popi q = 0" | "popi q \<noteq> 0" "popi q < ?c" | "popi q \<ge> ?c" "popi q \<noteq> 0" by linarith
  then show thesis
  proof cases
    case 1
    then show thesis using n
      by (intro that(2) [of "?n - ?c"]) (simp_all add: expand_def Let_def go_copy_def)
  next
    case 2
    have "take (?n - (?c - popi q)) (go_copy (replicate ?n None) (take (popi q) (elems q))) =
        take (popi q) (elems q) @ replicate (?n - ?c) None"
    proof -
      have "?n - (?c - popi q) - popi q = ?n - ?c" "popi q \<le> ?n - (?c - popi q)" "?n - ?c \<le> ?n - popi q"
        using 2 n by linarith+
      then show ?thesis using 2 n by (simp add: go_copy_def min_absorb1 min_absorb2)
    qed
    moreover have "go_copy (drop (?n - (?c - popi q)) (go_copy (replicate ?n None) (take (popi q) (elems q))))
        (drop (popi q) (elems q)) = drop (popi q) (elems q)"
      using 2 n by (simp add: go_copy_def)
    ultimately show thesis using 2 n
      by (intro that(1) [of "?n - ?c"]) (simp_all add: expand_def Let_def)
  next
    case 3
    then show thesis by (rule that(3))
  qed
qed

lemma expand_full:
  assumes inv: "queue_inv q" and full: "nelems q = length (elems q)"
  shows "queue_inv (expand q) \<and> queue_abs (expand q) = queue_abs q \<and>
    nelems (expand q) = nelems q \<and> nelems q < length (elems (expand q))"
  using expand_shape [of q]
proof cases
  case (1 k)
  let ?c = "length (elems q)"
  have p: "popi q < ?c" "pushi q = (popi q + ?c) mod ?c"
    using inv full 1 by (auto simp: queue_inv_def Let_def split: if_splits)
  have "elems (expand q) ! ((popi q + k + i) mod (?c + k)) = elems q ! ((popi q + i) mod ?c)" if "i < ?c" for i
    using that p(1) 1(2) by (auto simp: mod_wrap nth_append)
  then have "queue_abs (expand q) = queue_abs q"
    using 1 full p by (simp add: queue_abs_def ac_simps)
  moreover have "queue_inv (expand q)"
  proof -
    have "(popi q + k + ?c) mod (k + ?c) = popi q" using p(1) by (simp add: mod_wrap)
    moreover have "(popi q + ?c) mod ?c = popi q" using p(1) by (simp add: mod_wrap)
    ultimately show ?thesis using 1 full p by (simp add: queue_inv_def Let_def)
  qed
  ultimately show ?thesis using 1 full by simp
next
  case (2 k)
  then have "queue_abs (expand q) = queue_abs q" using full by (simp add: queue_abs_def nth_append)
  with 2 full show ?thesis by (auto simp: queue_inv_def Let_def)
next
  case 3
  with inv show ?thesis by (auto simp: queue_inv_def Let_def split: if_splits)
qed

lemma push_room:
  fixes q :: "'a queue" and e :: "'a option"
  assumes inv: "queue_inv q" and room: "nelems q < length (elems q)"
  defines "q' \<equiv> q\<lparr>elems := (elems q)[pushi q := e], nelems := nelems q + 1, pushi := (pushi q + 1) mod length (elems q)\<rparr>"
  shows "pushi q < length (elems q) \<and> queue_inv q' \<and> queue_abs q' = queue_abs q @ [e]"
proof -
  let ?c = "length (elems q)"
  have p: "popi q < ?c" "pushi q = (popi q + nelems q) mod ?c"
    using inv room by (auto simp: queue_inv_def Let_def split: if_splits)
  have other: "(popi q + i) mod ?c \<noteq> pushi q" if "i < nelems q" for i
    using that p room by (auto simp: mod_wrap)
  have lt: "pushi q < ?c" unfolding p(2) using p(1) by (intro mod_less_divisor) linarith
  have keep: "(elems q)[pushi q := e] ! ((popi q + i) mod ?c) = elems q ! ((popi q + i) mod ?c)" if "i < nelems q" for i
    using other [OF that] by simp
  have "queue_abs q' = queue_abs q @ [e]"
    using keep lt p(2) [symmetric] by (auto simp: q'_def queue_abs_def)
  moreover have "queue_inv q'"
    using p room lt by (auto simp: q'_def queue_inv_def Let_def mod_Suc_eq)
  ultimately show ?thesis using lt by simp
qed

lemma Queue_Push_ok:
  assumes "queue_inv q"
  shows "\<exists>q'. Queue_Push e q = Some q' \<and> queue_inv q' \<and> queue_abs q' = queue_abs q @ [e]"
proof (cases "nelems q = length (elems q)")
  case True
  from expand_full [OF assms this] push_room [of "expand q" e] show ?thesis
    by (auto simp: Queue_Push_def Let_def True)
next
  case False
  then have "nelems q < length (elems q)" using assms by (simp add: queue_inv_def Let_def)
  from push_room [OF assms this, of e] False show ?thesis by (auto simp: Queue_Push_def Let_def)
qed

lemma Queue_Pop_ok:
  assumes inv: "queue_inv q" and abs: "queue_abs q = e # es"
  shows "\<exists>q'. Queue_Pop q = Some (e, q') \<and> queue_inv q' \<and> queue_abs q' = es"
proof -
  let ?c = "length (elems q)"
  have n: "nelems q \<noteq> 0"
  proof
    assume "nelems q = 0"
    then show False using abs by (simp add: queue_abs_def)
  qed
  have p: "popi q < ?c" "pushi q = (popi q + nelems q) mod ?c" "nelems q \<le> ?c"
    using inv n by (auto simp: queue_inv_def Let_def split: if_splits)
  let ?q = "q\<lparr>elems := (elems q)[popi q := None], nelems := nelems q - 1, popi := (popi q + 1) mod ?c\<rparr>"
  have split: "[0..<nelems q] = 0 # map Suc [0..<nelems q - 1]"
    using n by (metis Suc_pred' map_Suc_upt neq0_conv upt_conv_Cons)
  have e: "e = elems q ! popi q" and es: "es = map (\<lambda>i. elems q ! ((popi q + Suc i) mod ?c)) [0..<nelems q - 1]"
    using abs p(1) unfolding queue_abs_def split by auto
  have ne: "(popi q + Suc i) mod ?c \<noteq> popi q" if "i < nelems q - 1" for i
    using that p(1,3) by (cases "popi q + Suc i < ?c") (auto simp: mod_if)
  have idx: "((popi q + 1) mod ?c + i) mod ?c = (popi q + Suc i) mod ?c" for i
    by (metis add.assoc mod_add_left_eq plus_1_eq_Suc)
  have keep: "(elems q)[popi q := None] ! ((popi q + Suc i) mod ?c) = elems q ! ((popi q + Suc i) mod ?c)"
    if "i < nelems q - 1" for i using ne [OF that] by simp
  have "queue_abs ?q = map (\<lambda>i. (elems q)[popi q := None] ! ((popi q + Suc i) mod ?c)) [0..<nelems q - 1]"
    unfolding queue_abs_def by (simp add: idx [simplified])
  also have "\<dots> = es" unfolding es by (intro map_cong refl keep) simp
  finally have "queue_abs ?q = es" .
  moreover have "queue_inv ?q" using p n idx [of "nelems q - 1"] by (auto simp: queue_inv_def Let_def)
  ultimately show ?thesis using p(1) n e by (auto simp: Queue_Pop_def)
qed

lemma Queue_Pop_empty: "queue_abs q = [] \<Longrightarrow> Queue_Pop q = Some (None, q)"
  by (simp add: Queue_Pop_def queue_abs_def)

interpretation ring: fifo empty_queue Queue_Push Queue_Pop Queue_Len queue_inv queue_abs None
proof
  fix q :: "'a queue"
  show "Queue_Len q = length (queue_abs q)" by (rule queue_len_ok)
qed (simp_all add: queue_empty_ok Queue_Push_ok Queue_Pop_ok Queue_Pop_empty)

text \<open>
  C11.  The ring buffer is a first-in first-out queue: every sequence of pushes and pops on a fresh
  \<open>Queue\<close> runs without an index panic, whatever number of times the buffer wraps around and grows, and its
  pops return what the same sequence returns on a list, \<open>nil\<close> on an empty queue.
\<close>

theorem Queue_refines_fifo:
  "\<exists>q'. ring.run_ops ops empty_queue = Some (fst (list_ops None ops []), q') \<and>
     queue_abs q' = snd (list_ops None ops [])"
  using ring.run_ops_ok [OF queue_empty_ok(1), of ops] queue_empty_ok(2) by metis

end
