(* ===== verification/TimerHeap.thy ===== *)
theory TimerHeap
  imports Fifo
begin

text \<open>
  The timers of \<^verbatim>\<open>src/basic/utils/timer_queue.go\<close>: a binary heap of timers ordered by their end time, in
  which every timer knows its position, on top of the heap operations of \<^verbatim>\<open>container/heap\<close>, and the
  manager that adds, removes and fires timers.  End times and intervals are \<open>int64\<close> values, written as
  integers with the wrap-around of the addition made explicit.
\<close>

section \<open>Timers and the heap primitives\<close>

record 'h timer =
  handler :: 'h
  tid :: u32
  tend :: int
  interval :: int
  index :: int

type_synonym 'h timers = "'h timer list"

definition TQ_Less :: "'h timers \<Rightarrow> nat \<Rightarrow> nat \<Rightarrow> bool" where
  "TQ_Less q i j \<longleftrightarrow> tend (q ! i) < tend (q ! j)"

definition TQ_Swap :: "'h timers \<Rightarrow> nat \<Rightarrow> nat \<Rightarrow> 'h timers" where
  "TQ_Swap q i j =
     (let q = q[i := q ! j, j := q ! i];
          q = q[i := (q ! i)\<lparr>index := int i\<rparr>]
      in q[j := (q ! j)\<lparr>index := int j\<rparr>])"

text \<open>\<open>Push\<close> extends the slice within its capacity and panics beyond it; \<open>Pop\<close> panics on an empty slice.\<close>

definition TQ_Push :: "nat \<Rightarrow> 'h timer \<Rightarrow> 'h timers \<Rightarrow> 'h timers option" where
  "TQ_Push cap x q = (if length q + 1 \<le> cap then Some (q @ [x\<lparr>index := int (length q)\<rparr>]) else None)"

definition TQ_Pop :: "'h timers \<Rightarrow> ('h timer \<times> 'h timers) option" where
  "TQ_Pop q = (if q = [] then None else Some ((last q)\<lparr>index := - 1\<rparr>, butlast q))"

text \<open>The sifting loops of \<^verbatim>\<open>container/heap\<close>; positions stay inside the slice.\<close>

function heap_up :: "'h timers \<Rightarrow> nat \<Rightarrow> 'h timers" where
  "heap_up q j =
     (let i = (j - 1) div 2 in
      if i = j \<or> \<not> TQ_Less q j i then q else heap_up (TQ_Swap q i j) i)"
  by pat_completeness auto
termination by (relation "measure snd") auto

function heap_down :: "'h timers \<Rightarrow> nat \<Rightarrow> nat \<Rightarrow> 'h timers \<times> nat" where
  "heap_down q i n =
     (let j1 = 2 * i + 1 in
      if j1 \<ge> n then (q, i)
      else (let j = (if j1 + 1 < n \<and> TQ_Less q (j1 + 1) j1 then j1 + 1 else j1) in
        if \<not> TQ_Less q j i then (q, i) else heap_down (TQ_Swap q i j) j n))"
  by pat_completeness auto
termination by (relation "measure (\<lambda>(q, i, n). n - i)") (auto split: if_splits)

declare heap_up.simps [simp del] heap_down.simps [simp del]

definition heap_Push :: "nat \<Rightarrow> 'h timer \<Rightarrow> 'h timers \<Rightarrow> 'h timers option" where
  "heap_Push cap x q = do { q \<leftarrow> TQ_Push cap x q; Some (heap_up q (length q - 1)) }"

definition heap_Pop :: "'h timers \<Rightarrow> ('h timer \<times> 'h timers) option" where
  "heap_Pop q =
     (if q = [] then None
      else (let n = length q - 1 in TQ_Pop (fst (heap_down (TQ_Swap q 0 n) 0 n))))"

definition heap_Remove :: "'h timers \<Rightarrow> int \<Rightarrow> ('h timer \<times> 'h timers) option" where
  "heap_Remove q i =
     (if i < 0 \<or> int (length q) \<le> i then None
      else (let n = length q - 1; k = nat i in
        if n \<noteq> k then
          (case heap_down (TQ_Swap q k n) k n of (q', k') \<Rightarrow>
             TQ_Pop (if k' > k then q' else heap_up q' k))
        else TQ_Pop q))"

section \<open>The manager\<close>

record 'h manager =
  mid :: u32
  tq :: "'h timers"
  cap :: nat

text \<open>\<open>make\<close> panics on a negative capacity.\<close>

definition NewTimerManager :: "int \<Rightarrow> 'h manager option" where
  "NewTimerManager sz =
     (let sz = (if sz = 0 then 1024 else sz)
      in if sz < 0 then None else Some \<lparr>mid = 0, tq = [], cap = nat sz\<rparr>)"

definition AddTimer :: "'h \<Rightarrow> int \<Rightarrow> int \<Rightarrow> 'h manager \<Rightarrow> (u32 \<times> 'h manager) option" where
  "AddTimer i e iv m =
     (if cap m \<le> length (tq m) then Some (0, m)
      else do {
        q \<leftarrow> heap_Push (cap m) \<lparr>handler = i, tid = mid m + 1, tend = e, interval = iv, index = 0\<rparr> (tq m);
        Some (mid m + 1, m\<lparr>mid := mid m + 1, tq := q\<rparr>)
      })"

definition RemoveTimer :: "u32 \<Rightarrow> 'h manager \<Rightarrow> 'h manager option" where
  "RemoveTimer d m =
     (case find (\<lambda>t. tid t = d) (tq m) of
        None \<Rightarrow> Some m
      | Some t \<Rightarrow> do { (_, q) \<leftarrow> heap_Remove (tq m) (index t); Some (m\<lparr>tq := q\<rparr>) })"

section \<open>Swapping\<close>

text \<open>A timer without its position, and the content of the heap.\<close>

definition core :: "'h timer \<Rightarrow> 'h timer" where
  "core t = t\<lparr>index := 0\<rparr>"

definition bag :: "'h timers \<Rightarrow> 'h timer multiset" where
  "bag q = mset (map core q)"

definition pos_ok :: "'h timers \<Rightarrow> bool" where
  "pos_ok q \<longleftrightarrow> (\<forall>i < length q. index (q ! i) = int i)"

abbreviation key :: "'h timers \<Rightarrow> nat \<Rightarrow> int" where
  "key q i \<equiv> tend (q ! i)"

definition par :: "nat \<Rightarrow> nat" where
  "par k = (k - 1) div 2"

lemma core_simps [simp]:
  "handler (core t) = handler t" "tid (core t) = tid t" "tend (core t) = tend t" "interval (core t) = interval t"
  "core (t\<lparr>index := i\<rparr>) = core t" "core (core t) = core t"
  by (simp_all add: core_def)

lemma length_TQ_Swap [simp]: "length (TQ_Swap q i j) = length q"
  by (simp add: TQ_Swap_def Let_def)

lemma nth_TQ_Swap:
  "i < length q \<Longrightarrow> j < length q \<Longrightarrow> k < length q \<Longrightarrow>
     TQ_Swap q i j ! k =
       (if k = j then (q ! i)\<lparr>index := int j\<rparr> else if k = i then (q ! j)\<lparr>index := int i\<rparr> else q ! k)"
  by (auto simp: TQ_Swap_def Let_def nth_list_update)

lemma key_TQ_Swap:
  "i < length q \<Longrightarrow> j < length q \<Longrightarrow> k < length q \<Longrightarrow>
     key (TQ_Swap q i j) k = (if k = j then key q i else if k = i then key q j else key q k)"
  by (simp add: nth_TQ_Swap)

lemma bag_TQ_Swap [simp]: "i < length q \<Longrightarrow> j < length q \<Longrightarrow> bag (TQ_Swap q i j) = bag q"
proof -
  assume ij: "i < length q" "j < length q"
  have "map core (TQ_Swap q i j) = (map core q)[i := map core q ! j, j := map core q ! i]"
    using ij by (intro nth_equalityI) (auto simp: nth_TQ_Swap nth_list_update)
  moreover have "mset ((map core q)[i := map core q ! j, j := map core q ! i]) = mset (map core q)"
    using ij by (intro mset_swap) auto
  ultimately show ?thesis by (simp only: bag_def)
qed

lemma pos_ok_TQ_Swap: "pos_ok q \<Longrightarrow> i < length q \<Longrightarrow> j < length q \<Longrightarrow> pos_ok (TQ_Swap q i j)"
  by (auto simp: pos_ok_def nth_TQ_Swap)

section \<open>Sifting\<close>

text \<open>
  The heap order on the first \<open>n\<close> positions, and the two shapes of an array that is a heap but for
  position \<open>j\<close>: it may be smaller than its parent, or larger than its children.
\<close>

definition heap_n :: "nat \<Rightarrow> 'h timers \<Rightarrow> bool" where
  "heap_n n q \<longleftrightarrow> (\<forall>k. 0 < k \<and> k < n \<longrightarrow> key q (par k) \<le> key q k)"

definition up_inv :: "nat \<Rightarrow> nat \<Rightarrow> 'h timers \<Rightarrow> bool" where
  "up_inv n j q \<longleftrightarrow> (\<forall>k. 0 < k \<and> k < n \<and> k \<noteq> j \<longrightarrow> key q (par k) \<le> key q k) \<and>
     (\<forall>k. 0 < k \<and> k < n \<and> par k = j \<and> 0 < j \<longrightarrow> key q (par j) \<le> key q k)"

definition down_inv :: "nat \<Rightarrow> nat \<Rightarrow> 'h timers \<Rightarrow> bool" where
  "down_inv n i q \<longleftrightarrow> (\<forall>k. 0 < k \<and> k < n \<and> par k \<noteq> i \<longrightarrow> key q (par k) \<le> key q k) \<and>
     (\<forall>k. 0 < k \<and> k < n \<and> par k = i \<and> 0 < i \<longrightarrow> key q (par i) \<le> key q k)"

text \<open>What sifting keeps: the content, the positions, and everything from \<open>n\<close> on.\<close>

definition keeps :: "nat \<Rightarrow> 'h timers \<Rightarrow> 'h timers \<Rightarrow> bool" where
  "keeps n q q' \<longleftrightarrow> length q' = length q \<and> bag q' = bag q \<and> (pos_ok q \<longrightarrow> pos_ok q') \<and>
     (\<forall>k. n \<le> k \<and> k < length q \<longrightarrow> q' ! k = q ! k)"

lemma keeps_refl [simp]: "keeps n q q"
  by (simp add: keeps_def)

lemma keeps_trans: "keeps n q q' \<Longrightarrow> keeps n q' q'' \<Longrightarrow> keeps n q q''"
  by (auto simp: keeps_def)

lemma keeps_swap: "i < n \<Longrightarrow> j < n \<Longrightarrow> n \<le> length q \<Longrightarrow> keeps n q (TQ_Swap q i j)"
  by (auto simp: keeps_def pos_ok_TQ_Swap nth_TQ_Swap)

lemma par_less: "0 < k \<Longrightarrow> par k < k"
  by (auto simp: par_def)

lemma par_le: "par k \<le> k"
  by (auto simp: par_def)

lemma heap_up_step:
  "heap_up q j = (if par j = j \<or> \<not> TQ_Less q j (par j) then q else heap_up (TQ_Swap q (par j) j) (par j))"
  by (simp add: heap_up.simps [of q j] Let_def par_def)

lemma par_0: "par j = j \<longleftrightarrow> j = 0"
  by (auto simp: par_def)

lemma par_eq_iff: "0 < k \<Longrightarrow> par k = i \<longleftrightarrow> k = 2 * i + 1 \<or> k = 2 * i + 2"
  unfolding par_def by arith

lemma up_inv_step:
  assumes inv: "up_inv n j q" and j: "0 < j" "j < n" "n \<le> length q" and less: "key q j < key q (par j)"
  shows "up_inv n (par j) (TQ_Swap q (par j) j)"
proof -
  let ?i = "par j" and ?q = "TQ_Swap q (par j) j"
  have i: "?i < j" using j(1) by (rule par_less)
  have k': "key ?q k = (if k = j then key q ?i else if k = ?i then key q j else key q k)" if "k < n" for k
    using that i j by (intro key_TQ_Swap) auto
  have ord: "key q (par k) \<le> key q k" if "0 < k" "k < n" "k \<noteq> j" for k using inv that by (simp add: up_inv_def)
  have ch: "key q ?i \<le> key q k" if "0 < k" "k < n" "par k = j" for k using inv that j(1) by (simp add: up_inv_def)
  have 1: "key ?q (par k) \<le> key ?q k" if k: "0 < k" "k < n" "k \<noteq> ?i" for k
  proof -
    have p: "par k < k" "par k < n" using k par_less [of k] by auto
    consider "k = j" | "k \<noteq> j" "par k = ?i" | "k \<noteq> j" "par k = j" | "k \<noteq> j" "par k \<noteq> ?i" "par k \<noteq> j" by blast
    then show ?thesis
    proof cases
      case 1 then show ?thesis using k' [OF k(2)] k' [OF p(2)] less i by auto
    next
      case 2 then show ?thesis using k' [OF k(2)] k' [OF p(2)] less i ord [OF k(1,2)] k(3) by auto
    next
      case 3 then show ?thesis using k' [OF k(2)] k' [OF p(2)] ch [OF k(1,2)] k(3) by auto
    next
      case 4 then show ?thesis using k' [OF k(2)] k' [OF p(2)] ord [OF k(1,2)] k(3) by auto
    qed
  qed
  have 2: "key ?q (par ?i) \<le> key ?q k" if k: "0 < k" "k < n" "par k = ?i" "0 < ?i" for k
  proof -
    have p: "par ?i < ?i" using k(4) by (rule par_less)
    have top: "key q (par ?i) \<le> key q ?i" using ord [of ?i] i j k(4) by auto
    have "key ?q (par ?i) = key q (par ?i)" using p i j k' [of "par ?i"] by auto
    then show ?thesis using top ord [OF k(1,2)] k' [OF k(2)] k(3) par_less [OF k(1)] by (cases "k = j") auto
  qed
  from 1 2 show ?thesis by (simp add: up_inv_def)
qed

lemma heap_up_ok:
  "up_inv n j q \<Longrightarrow> j < n \<Longrightarrow> n \<le> length q \<Longrightarrow> heap_n n (heap_up q j) \<and> keeps n q (heap_up q j)"
proof (induction q j rule: heap_up.induct)
  case (1 q j)
  show ?case
  proof (cases "par j = j \<or> \<not> TQ_Less q j (par j)")
    case True
    then have "heap_up q j = q" by (subst heap_up_step) simp
    moreover have "heap_n n q" unfolding heap_n_def
    proof (intro allI impI, elim conjE)
      fix k assume k: "0 < k" "k < n"
      show "key q (par k) \<le> key q k"
      proof (cases "k = j")
        case True
        then have "par j < j" using k(1) by (metis par_less)
        then show ?thesis using \<open>par j = j \<or> \<not> TQ_Less q j (par j)\<close> True by (auto simp: TQ_Less_def)
      next
        case False
        then show ?thesis using 1(2) k by (simp add: up_inv_def)
      qed
    qed
    ultimately show ?thesis by simp
  next
    case False
    then have j: "0 < j" "key q j < key q (par j)" by (auto simp: TQ_Less_def par_0)
    have step: "heap_up q j = heap_up (TQ_Swap q (par j) j) (par j)"
      using False by (subst heap_up_step) simp
    have p: "par j < j" using j(1) by (rule par_less)
    have "heap_n n (heap_up (TQ_Swap q (par j) j) (par j)) \<and>
        keeps n (TQ_Swap q (par j) j) (heap_up (TQ_Swap q (par j) j) (par j))"
      using False up_inv_step [OF 1(2) j(1) 1(3,4) j(2)] 1(3,4) p
      by (intro 1(1) [unfolded par_def [symmetric], OF refl]) auto
    moreover have "keeps n q (TQ_Swap q (par j) j)" using p 1(3,4) by (intro keeps_swap) auto
    ultimately show ?thesis unfolding step using keeps_trans by blast
  qed
qed

text \<open>The child the sifting compares with: the smaller of the children below \<open>n\<close>.\<close>

definition child :: "'h timers \<Rightarrow> nat \<Rightarrow> nat \<Rightarrow> nat" where
  "child q i n = (if 2 * i + 2 < n \<and> TQ_Less q (2 * i + 2) (2 * i + 1) then 2 * i + 2 else 2 * i + 1)"

lemma heap_down_step:
  "heap_down q i n =
     (if 2 * i + 1 \<ge> n \<or> \<not> TQ_Less q (child q i n) i then (q, i)
      else heap_down (TQ_Swap q i (child q i n)) (child q i n) n)"
  by (simp add: heap_down.simps [of q i n] Let_def child_def)

lemma child_bounds: "2 * i + 1 < n \<Longrightarrow> i < child q i n \<and> child q i n < n \<and> par (child q i n) = i"
  by (auto simp: child_def par_def)

lemma child_min: "0 < k \<Longrightarrow> k < n \<Longrightarrow> par k = i \<Longrightarrow> key q (child q i n) \<le> key q k"
  by (auto simp: par_eq_iff child_def TQ_Less_def)

lemma no_child: "n \<le> 2 * i + 1 \<Longrightarrow> 0 < k \<Longrightarrow> k < n \<Longrightarrow> par k \<noteq> i"
  by (auto simp: par_eq_iff)

text \<open>
  One step down from position \<open>i\<close>.  The order between \<open>i\<close> and its own parent is not needed before the
  step and holds after it.
\<close>

definition down_weak :: "nat \<Rightarrow> nat \<Rightarrow> 'h timers \<Rightarrow> bool" where
  "down_weak n i q \<longleftrightarrow> (\<forall>k. 0 < k \<and> k < n \<and> k \<noteq> i \<and> par k \<noteq> i \<longrightarrow> key q (par k) \<le> key q k) \<and>
     (\<forall>k. 0 < k \<and> k < n \<and> par k = i \<and> 0 < i \<longrightarrow> key q (par i) \<le> key q k)"

lemma down_inv_weak: "down_inv n i q \<Longrightarrow> down_weak n i q"
  by (simp add: down_inv_def down_weak_def)

lemma down_step:
  assumes inv: "down_weak n i q" and i: "2 * i + 1 < n" "n \<le> length q" and less: "key q (child q i n) < key q i"
  shows "down_inv n (child q i n) (TQ_Swap q i (child q i n))"
proof -
  let ?j = "child q i n" and ?q = "TQ_Swap q i (child q i n)"
  have j: "i < ?j" "?j < n" "par ?j = i" using child_bounds [OF i(1)] by auto
  have k': "key ?q k = (if k = ?j then key q i else if k = i then key q ?j else key q k)" if "k < n" for k
    using that i j by (intro key_TQ_Swap) auto
  have ord: "key q (par k) \<le> key q k" if "0 < k" "k < n" "k \<noteq> i" "par k \<noteq> i" for k
    using inv that by (simp add: down_weak_def)
  have top: "key q (par i) \<le> key q k" if "0 < k" "k < n" "par k = i" "0 < i" for k
    using inv that by (simp add: down_weak_def)
  have 1: "key ?q (par k) \<le> key ?q k" if k: "0 < k" "k < n" "par k \<noteq> ?j" for k
  proof -
    have p: "par k < k" "par k < n" using k par_less [of k] by auto
    consider "k = i" | "k = ?j" | "k \<noteq> ?j" "par k = i" | "k \<noteq> i" "k \<noteq> ?j" "par k \<noteq> i" by blast
    then show ?thesis
    proof cases
      case 1
      then have "key q (par i) \<le> key q ?j" using top [of ?j] j k(1) by auto
      then show ?thesis using 1 k' [OF k(2)] k' [OF p(2)] p(1) j by auto
    next
      case 2 then show ?thesis using k' [OF k(2)] k' [OF p(2)] less j by auto
    next
      case 3 then show ?thesis using k' [OF k(2)] k' [OF p(2)] child_min [OF k(1,2)] p(1) j by auto
    next
      case 4 then show ?thesis using k' [OF k(2)] k' [OF p(2)] ord [OF k(1,2)] k(3) by auto
    qed
  qed
  have 2: "key ?q (par ?j) \<le> key ?q k" if k: "0 < k" "k < n" "par k = ?j" for k
  proof -
    have "k \<noteq> i" "k \<noteq> ?j" using par_less [OF k(1)] k(3) j by auto
    then have "key q ?j \<le> key q k" using ord [OF k(1,2)] k(3) j by auto
    then show ?thesis using k' [OF k(2)] k' [of i] j \<open>k \<noteq> i\<close> \<open>k \<noteq> ?j\<close> by auto
  qed
  from 1 2 show ?thesis by (simp add: down_inv_def)
qed

lemma down_stop:
  assumes "2 * i + 1 \<ge> n \<or> \<not> TQ_Less q (child q i n) i" and "0 < k" "k < n" "par k = i"
  shows "key q i \<le> key q k"
  using assms child_min [OF assms(2,3), of i q] no_child [of n i k] by (auto simp: TQ_Less_def)

lemma keeps_down_swap: "2 * i + 1 < n \<Longrightarrow> n \<le> length q \<Longrightarrow> keeps n q (TQ_Swap q i (child q i n))"
  using child_bounds [of i n q] by (intro keeps_swap) auto

lemma heap_down_ok:
  "down_inv n i q \<Longrightarrow> n \<le> length q \<Longrightarrow>
     heap_n n (fst (heap_down q i n)) \<and> keeps n q (fst (heap_down q i n)) \<and> i \<le> snd (heap_down q i n)"
proof (induction "n - i" arbitrary: q i rule: less_induct)
  case less
  show ?case
  proof (cases "2 * i + 1 \<ge> n \<or> \<not> TQ_Less q (child q i n) i")
    case True
    have "heap_n n q" unfolding heap_n_def
    proof (intro allI impI, elim conjE)
      fix k assume k: "0 < k" "k < n"
      show "key q (par k) \<le> key q k"
        using down_stop [OF True k] less.prems(1) k by (cases "par k = i") (auto simp: down_inv_def)
    qed
    with True show ?thesis by (subst (1 2 3) heap_down_step) simp
  next
    case False
    let ?j = "child q i n"
    have lt: "2 * i + 1 < n" "key q ?j < key q i" using False by (auto simp: TQ_Less_def)
    have j: "i < ?j" "?j < n" using child_bounds [OF lt(1)] by auto
    have "heap_n n (fst (heap_down (TQ_Swap q i ?j) ?j n)) \<and>
        keeps n (TQ_Swap q i ?j) (fst (heap_down (TQ_Swap q i ?j) ?j n)) \<and> ?j \<le> snd (heap_down (TQ_Swap q i ?j) ?j n)"
      using j down_step [OF down_inv_weak [OF less.prems(1)] lt(1) less.prems(2) lt(2)] less.prems(2)
      by (intro less.hyps) auto
    moreover have "heap_down q i n = heap_down (TQ_Swap q i ?j) ?j n" using False by (subst heap_down_step) simp
    ultimately show ?thesis
      using keeps_trans [OF keeps_down_swap [OF lt(1) less.prems(2)]] j(1) by auto
  qed
qed

text \<open>
  Sifting down from a position that may also be out of order with its parent: either the loop moves, and
  the result is a heap, or it does not, and only that order is left to repair.
\<close>

lemma heap_down_weak:
  assumes inv: "down_weak n i q" and n: "n \<le> length q" and run: "heap_down q i n = (q', i')"
  shows "keeps n q q' \<and> (if i < i' then heap_n n q' else q' = q \<and> up_inv n i q)"
proof (cases "2 * i + 1 \<ge> n \<or> \<not> TQ_Less q (child q i n) i")
  case True
  then have "q' = q" "i' = i" using run heap_down_step [of q i n] by auto
  moreover have "up_inv n i q" unfolding up_inv_def
  proof (intro conjI allI impI; elim conjE)
    fix k assume k: "0 < k" "k < n" "k \<noteq> i"
    show "key q (par k) \<le> key q k"
      using down_stop [OF True k(1,2)] inv k by (cases "par k = i") (auto simp: down_weak_def)
  next
    fix k assume "0 < k" "k < n" "par k = i" "0 < i"
    then show "key q (par i) \<le> key q k" using inv by (simp add: down_weak_def)
  qed
  ultimately show ?thesis by simp
next
  case False
  let ?j = "child q i n"
  have lt: "2 * i + 1 < n" "key q ?j < key q i" using False by (auto simp: TQ_Less_def)
  have "heap_down (TQ_Swap q i ?j) ?j n = (q', i')" using False run heap_down_step [of q i n] by simp
  with heap_down_ok [OF down_step [OF inv lt(1) n lt(2)]] n
  have "heap_n n q'" "keeps n (TQ_Swap q i ?j) q'" "?j \<le> i'" by auto
  then show ?thesis
    using keeps_trans [OF keeps_down_swap [OF lt(1) n]] child_bounds [OF lt(1), of q] by auto
qed

section \<open>The heap operations\<close>

definition tq_inv :: "'h timers \<Rightarrow> bool" where
  "tq_inv q \<longleftrightarrow> pos_ok q \<and> heap_n (length q) q"

lemma tq_inv_eval:
  "tq_inv q \<longleftrightarrow> map index q = map int [0..<length q] \<and> list_all (\<lambda>k. key q (par k) \<le> key q k) [1..<length q]"
proof -
  have "pos_ok q \<longleftrightarrow> map index q = map int [0..<length q]" unfolding pos_ok_def list_eq_iff_nth_eq by simp
  moreover have "heap_n (length q) q \<longleftrightarrow> list_all (\<lambda>k. key q (par k) \<le> key q k) [1..<length q]"
    unfolding heap_n_def list_all_iff set_upt by (simp only: atLeastLessThan_iff One_nat_def Suc_le_eq Ball_def)
  ultimately show ?thesis by (simp only: tq_inv_def)
qed

lemma heap_root_min: "heap_n n q \<Longrightarrow> k < n \<Longrightarrow> key q 0 \<le> key q k"
proof (induction k rule: less_induct)
  case (less k)
  show ?case
  proof (cases "k = 0")
    case False
    then have "par k < k" by (simp add: par_less)
    with less have "key q 0 \<le> key q (par k)" by auto
    also have "\<dots> \<le> key q k" using less.prems False by (simp add: heap_n_def)
    finally show ?thesis .
  qed simp
qed

lemma heap_Push_ok:
  assumes "tq_inv q" and "length q < c"
  shows "\<exists>q'. heap_Push c x q = Some q' \<and> tq_inv q' \<and> bag q' = add_mset (core x) (bag q)"
proof -
  let ?n = "length q" and ?q = "q @ [x\<lparr>index := int (length q)\<rparr>]"
  have heap: "key q (par k) \<le> key q k" if "0 < k" "k < ?n" for k
    using assms(1) that by (simp add: tq_inv_def heap_n_def)
  have "up_inv (Suc ?n) ?n ?q" unfolding up_inv_def
  proof (intro conjI allI impI; elim conjE)
    fix k assume k: "0 < k" "k < Suc ?n" "k \<noteq> ?n"
    then have "par k < ?n" using par_less [of k] by auto
    with k heap [of k] show "key ?q (par k) \<le> key ?q k" by (simp add: nth_append)
  next
    fix k assume "0 < k" "k < Suc ?n" "par k = ?n"
    then show "key ?q (par ?n) \<le> key ?q k" using par_less [of k] by auto
  qed
  from heap_up_ok [OF this] have up: "heap_n (Suc ?n) (heap_up ?q ?n)" "keeps (Suc ?n) ?q (heap_up ?q ?n)" by auto
  have "pos_ok ?q" using assms(1) by (auto simp: tq_inv_def pos_ok_def nth_append less_Suc_eq)
  with up have "tq_inv (heap_up ?q ?n)" "bag (heap_up ?q ?n) = add_mset (core x) (bag q)"
    by (auto simp: tq_inv_def keeps_def bag_def)
  then show ?thesis using assms(2) by (simp add: heap_Push_def TQ_Push_def)
qed

text \<open>Taking off the last position of an array whose first \<open>n\<close> positions are a heap.\<close>

lemma TQ_Pop_ok:
  assumes "length r = Suc n" and "pos_ok r" and "heap_n n r"
  shows "\<exists>t q'. TQ_Pop r = Some (t, q') \<and> tq_inv q' \<and> core t = core (r ! n) \<and> bag r = add_mset (core t) (bag q') \<and>
    length q' = n"
proof -
  have r: "r = butlast r @ [r ! n]" "r \<noteq> []" using assms(1)
    by (metis append_butlast_last_id diff_Suc_1 last_conv_nth list.size(3) nat.distinct(1), auto)
  have nth: "butlast r ! k = r ! k" if "k < n" for k using that assms(1) by (simp add: nth_butlast)
  have "heap_n n (butlast r)" unfolding heap_n_def
  proof (intro allI impI, elim conjE)
    fix k assume k: "0 < k" "k < n"
    then have "par k < n" using par_less [of k] by simp
    with k nth assms(3) show "key (butlast r) (par k) \<le> key (butlast r) k" by (simp add: heap_n_def)
  qed
  moreover have "pos_ok (butlast r)" using assms(1,2) nth by (auto simp: pos_ok_def)
  moreover have "bag r = add_mset (core (r ! n)) (bag (butlast r))" by (subst r(1)) (simp add: bag_def)
  moreover have "last r = r ! n" using assms(1) r(2) by (simp add: last_conv_nth)
  ultimately show ?thesis using assms(1) r(2) by (auto simp: TQ_Pop_def tq_inv_def)
qed

lemma heap_swap_last:
  assumes "tq_inv q" and "n = length q - 1" and "k \<le> n" and "q \<noteq> []"
  shows "down_weak n k (TQ_Swap q k n)" and "pos_ok (TQ_Swap q k n)"
    and "core (TQ_Swap q k n ! n) = core (q ! k)" and "length (TQ_Swap q k n) = Suc n" and "bag (TQ_Swap q k n) = bag q"
proof -
  let ?q = "TQ_Swap q k n"
  have len: "length q = Suc n" using assms(2,4) by (cases q) auto
  have k: "k < length q" "n < length q" using assms(3) len by auto
  have nth: "key ?q m = key q m" if "m < n" "m \<noteq> k" for m using that k by (simp add: key_TQ_Swap)
  have heap: "key q (par m) \<le> key q m" if "0 < m" "m \<le> n" for m
    using assms(1) that len by (simp add: tq_inv_def heap_n_def)
  show "down_weak n k ?q" unfolding down_weak_def
  proof (intro conjI allI impI; elim conjE)
    fix m assume m: "0 < m" "m < n" "m \<noteq> k" "par m \<noteq> k"
    then have "par m < n" using par_less [of m] by simp
    with m nth heap [of m] show "key ?q (par m) \<le> key ?q m" by simp
  next
    fix m assume m: "0 < m" "m < n" "par m = k" "0 < k"
    then have "k < m" using par_less [of m] by simp
    have "key ?q (par k) = key q (par k)" using par_less [OF m(4)] \<open>k < m\<close> m(2) by (intro nth) auto
    moreover have "key ?q m = key q m" using m \<open>k < m\<close> by (intro nth) auto
    moreover have "key q (par k) \<le> key q k" using heap [OF m(4)] assms(3) by simp
    moreover have "key q k \<le> key q m" using heap [OF m(1)] m(2,3) by simp
    ultimately show "key ?q (par k) \<le> key ?q m" by simp
  qed
  show "pos_ok ?q" using assms(1) k by (simp add: pos_ok_TQ_Swap tq_inv_def)
  show "core (?q ! n) = core (q ! k)" using k by (simp add: nth_TQ_Swap)
  show "length ?q = Suc n" by (simp add: len)
  show "bag ?q = bag q" using k by simp
qed

lemma heap_Pop_ok:
  assumes "tq_inv q" and "q \<noteq> []"
  shows "\<exists>t q'. heap_Pop q = Some (t, q') \<and> tq_inv q' \<and> core t = core (q ! 0) \<and>
    bag q = add_mset (core t) (bag q') \<and> length q = Suc (length q')"
proof -
  let ?n = "length q - 1" and ?q = "TQ_Swap q 0 (length q - 1)"
  note sw = heap_swap_last [OF assms(1) refl le0 assms(2)]
  have "down_inv ?n 0 ?q" using sw(1) unfolding down_weak_def down_inv_def
    by (metis less_nat_zero_code gr0I)
  from heap_down_ok [OF this] sw(4) have down: "heap_n ?n (fst (heap_down ?q 0 ?n))"
    "keeps ?n ?q (fst (heap_down ?q 0 ?n))" by auto
  let ?r = "fst (heap_down ?q 0 ?n)"
  have "length ?r = Suc ?n" "pos_ok ?r" "?r ! ?n = ?q ! ?n" "bag ?r = bag q"
    using down(2) sw by (auto simp: keeps_def)
  with TQ_Pop_ok [OF _ _ down(1)] sw(3) assms(2) show ?thesis by (fastforce simp: heap_Pop_def Let_def)
qed

lemma heap_Remove_ok:
  assumes "tq_inv q" and "k < length q"
  shows "\<exists>t q'. heap_Remove q (int k) = Some (t, q') \<and> tq_inv q' \<and> core t = core (q ! k) \<and>
    bag q = add_mset (core t) (bag q') \<and> length q = Suc (length q')"
proof (cases "length q - 1 = k")
  case True
  then have "length q = Suc k" using assms(2) by simp
  then have "\<exists>t q'. TQ_Pop q = Some (t, q') \<and> tq_inv q' \<and> core t = core (q ! k) \<and>
      bag q = add_mset (core t) (bag q') \<and> length q' = k"
    using assms(1) by (intro TQ_Pop_ok) (auto simp: tq_inv_def heap_n_def)
  with True assms(2) show ?thesis by (auto simp: heap_Remove_def Let_def)
next
  case False
  let ?n = "length q - 1" and ?q = "TQ_Swap q k (length q - 1)"
  have k: "k \<le> ?n" "k < ?n" "q \<noteq> []" using False assms(2) by auto
  note sw = heap_swap_last [OF assms(1) refl k(1,3)]
  obtain q' i' where run: "heap_down ?q k ?n = (q', i')" by fastforce
  let ?r = "if k < i' then q' else heap_up q' k"
  from heap_down_weak [OF sw(1) _ run] sw(4)
  have down: "keeps ?n ?q q'" "if k < i' then heap_n ?n q' else q' = ?q \<and> up_inv ?n k ?q" by auto
  have r: "heap_n ?n ?r \<and> keeps ?n ?q ?r"
  proof (cases "k < i'")
    case False
    then have "q' = ?q" "up_inv ?n k ?q" using down(2) by auto
    with heap_up_ok [OF this(2) k(2)] sw(4) False show ?thesis by simp
  qed (use down in auto)
  then have "length ?r = Suc ?n" "pos_ok ?r" "?r ! ?n = ?q ! ?n" "bag ?r = bag q"
    using sw by (auto simp: keeps_def)
  with TQ_Pop_ok [of ?r ?n] r sw(3) have "\<exists>t q''. TQ_Pop ?r = Some (t, q'') \<and> tq_inv q'' \<and> core t = core (q ! k) \<and>
      bag q = add_mset (core t) (bag q'') \<and> length q'' = ?n" by metis
  moreover have "heap_Remove q (int k) = TQ_Pop ?r" using k False assms(2) run by (auto simp: heap_Remove_def Let_def)
  ultimately show ?thesis using assms(2) by auto
qed

section \<open>The priority-queue interface\<close>

text \<open>
  What the manager relies on: \<open>content\<close> is the multiset of waiting entries, \<open>prio\<close> their order, and
  \<open>pop\<close> takes an entry of least priority.  A full queue may refuse a push.
\<close>

locale prio_queue =
  fixes push :: "'e \<Rightarrow> 'q \<Rightarrow> 'q option"
    and pop :: "'q \<Rightarrow> ('e \<times> 'q) option"
    and inv :: "'q \<Rightarrow> bool"
    and full :: "'q \<Rightarrow> bool"
    and content :: "'q \<Rightarrow> 'e multiset"
    and norm :: "'e \<Rightarrow> 'e"
    and prio :: "'e \<Rightarrow> int"
  assumes push_ok: "inv q \<Longrightarrow> \<not> full q \<Longrightarrow> \<exists>q'. push e q = Some q' \<and> inv q' \<and> content q' = add_mset (norm e) (content q)"
    and pop_ok: "inv q \<Longrightarrow> content q \<noteq> {#} \<Longrightarrow>
      \<exists>e q'. pop q = Some (e, q') \<and> inv q' \<and> \<not> full q' \<and> content q = add_mset (norm e) (content q') \<and>
        (\<forall>x \<in># content q. prio (norm e) \<le> prio x)"
begin

text \<open>A client that takes entries until the queue is empty sees them in order.\<close>

primrec pop_all :: "nat \<Rightarrow> 'q \<Rightarrow> ('e list \<times> 'q) option" where
  "pop_all 0 q = Some ([], q)"
| "pop_all (Suc n) q = do { (e, q) \<leftarrow> pop q; (es, q) \<leftarrow> pop_all n q; Some (norm e # es, q) }"

lemma pop_all_sorted:
  "inv q \<Longrightarrow> size (content q) = n \<Longrightarrow>
     \<exists>es q'. pop_all n q = Some (es, q') \<and> mset es = content q \<and> sorted (map prio es) \<and> inv q' \<and> content q' = {#}"
proof (induction n arbitrary: q)
  case (Suc n)
  then have "content q \<noteq> {#}" by auto
  with Suc.prems(1) pop_ok obtain e q1 where pop: "pop q = Some (e, q1)" "inv q1"
    "content q = add_mset (norm e) (content q1)" "\<forall>x \<in># content q. prio (norm e) \<le> prio x" by blast
  with Suc.prems(2) have "size (content q1) = n" by simp
  from Suc.IH [OF pop(2) this] obtain es q' where IH: "pop_all n q1 = Some (es, q')" "mset es = content q1"
    "sorted (map prio es)" "inv q'" "content q' = {#}" by blast
  have "\<forall>x \<in> set es. prio (norm e) \<le> prio x" using pop(3,4) IH(2) by (metis set_mset_add_mset_insert insertCI set_mset_mset)
  with pop IH show ?case by auto
qed auto

end

interpretation timer_heap: prio_queue "heap_Push c" heap_Pop "\<lambda>q. tq_inv q \<and> length q \<le> c" "\<lambda>q. length q = c" bag core tend
  for c
proof (unfold_locales, goal_cases)
  case (1 q e)
  then have "length q < c" by simp
  from heap_Push_ok [OF _ this, of e] 1 obtain q' where q': "heap_Push c e q = Some q'" "tq_inv q'" "bag q' = add_mset (core e) (bag q)"
    by blast
  have "length q' = Suc (length q)" using arg_cong [OF q'(3), of size] by (simp add: bag_def)
  with q' \<open>length q < c\<close> show ?case by auto
next
  case (2 q)
  then have "q \<noteq> []" by (auto simp: bag_def)
  with 2 heap_Pop_ok [of q] obtain t q' where p: "heap_Pop q = Some (t, q')" "tq_inv q'" "core t = core (q ! 0)"
    "bag q = add_mset (core t) (bag q')" "length q = Suc (length q')" by blast
  have "\<forall>x \<in># bag q. tend (core t) \<le> tend x"
  proof
    fix x assume "x \<in># bag q"
    then obtain k where k: "k < length q" "x = core (q ! k)" by (auto simp: bag_def in_set_conv_nth)
    have "tend (q ! 0) \<le> tend (q ! k)" using 2 k(1) by (intro heap_root_min) (auto simp: tq_inv_def)
    moreover have "tend (core t) = tend (q ! 0)" by (simp only: p(3) core_simps)
    ultimately show "tend (core t) \<le> tend x" using k(2) by simp
  qed
  with p(1,2,4,5) 2 show ?case by auto
qed

section \<open>Adding and removing\<close>

definition manager_inv :: "'h manager \<Rightarrow> bool" where
  "manager_inv m \<longleftrightarrow> tq_inv (tq m) \<and> length (tq m) \<le> cap m"

lemma NewTimerManager_inv: "NewTimerManager n = Some m \<Longrightarrow> manager_inv m"
  by (auto simp: manager_inv_def NewTimerManager_def tq_inv_def pos_ok_def heap_n_def Let_def split: if_splits)

lemma AddTimer_run:
  assumes "manager_inv m" and "length (tq m) < cap m"
  shows "\<exists>m'. AddTimer h e iv m = Some (mid m + 1, m') \<and> manager_inv m' \<and> cap m' = cap m \<and> mid m' = mid m + 1 \<and>
    bag (tq m') = add_mset \<lparr>handler = h, tid = mid m + 1, tend = e, interval = iv, index = 0\<rparr> (bag (tq m))"
proof -
  let ?t = "\<lparr>handler = h, tid = mid m + 1, tend = e, interval = iv, index = 0\<rparr>"
  have c: "core ?t = ?t" by (simp add: core_def)
  from timer_heap.push_ok [of "tq m" "cap m" ?t] assms obtain q' where
    "heap_Push (cap m) ?t (tq m) = Some q'" "tq_inv q'" "length q' \<le> cap m" "bag q' = add_mset ?t (bag (tq m))"
    unfolding manager_inv_def c by auto
  with assms(2) show ?thesis by (simp add: AddTimer_def manager_inv_def)
qed

lemma RemoveTimer_run:
  assumes "manager_inv m"
  shows "\<exists>m'. RemoveTimer d m = Some m' \<and> manager_inv m' \<and> cap m' = cap m \<and>
    (case find (\<lambda>t. tid t = d) (tq m) of None \<Rightarrow> m' = m
     | Some t \<Rightarrow> bag (tq m) = add_mset (core t) (bag (tq m')))"
proof (cases "find (\<lambda>t. tid t = d) (tq m)")
  case None
  with assms show ?thesis by (simp add: RemoveTimer_def)
next
  case (Some t)
  then obtain k where k: "k < length (tq m)" "tq m ! k = t" by (auto simp: find_Some_iff)
  with assms have i: "index t = int k" by (auto simp: manager_inv_def tq_inv_def pos_ok_def)
  from heap_Remove_ok [OF _ k(1)] assms k(2) obtain t' q' where
    "heap_Remove (tq m) (int k) = Some (t', q')" "tq_inv q'" "core t' = core t"
    "bag (tq m) = add_mset (core t') (bag q')" "length (tq m) = Suc (length q')" by (auto simp: manager_inv_def)
  with Some i assms show ?thesis by (simp add: RemoveTimer_def manager_inv_def)
qed

end
