(* ===== verification/TimerRun.thy ===== *)
theory TimerRun
  imports TimerHeap
begin

text \<open>
  Firing timers: \<open>Run\<close> and \<open>dump\<close> of \<^verbatim>\<open>src/basic/utils/timer_queue.go\<close>.  The handlers of due timers go
  through the package-wide \<open>Queue\<close> and are called in its order; a call is recorded as the handler in the
  result.  Handlers that themselves add or remove timers are not covered.
\<close>

section \<open>Run\<close>

text \<open>The handler of a popped timer is queued, and a periodic timer goes back with its next end time.\<close>

definition rearm :: "'h manager \<Rightarrow> 'h timer \<Rightarrow> 'h timers \<Rightarrow> 'h manager option" where
  "rearm m t q =
     (if interval t > 0 then do {
        q \<leftarrow> heap_Push (cap m) (t\<lparr>tend := add64 (tend t) (interval t)\<rparr>) q;
        Some (m\<lparr>tq := q\<rparr>)
      } else Some (m\<lparr>tq := q\<rparr>))"

text \<open>The handling of the timer at the root, when it is due; \<open>None\<close> is a panic.\<close>

definition run_body :: "'h manager \<Rightarrow> 'h queue \<Rightarrow> ('h manager \<times> 'h queue) option" where
  "run_body m g = do {
     (t, q) \<leftarrow> heap_Pop (tq m);
     g \<leftarrow> Queue_Push (Some (handler t)) g;
     m \<leftarrow> rearm m t q;
     Some (m, g)
   }"

text \<open>
  The first loop may run forever when an end time wraps around: \<open>None\<close> is a loop that does not return, \<open>Some None\<close> one that
  panics.
\<close>

partial_function (option) run_loop :: "int \<Rightarrow> int \<Rightarrow> 'h manager \<Rightarrow> 'h queue \<Rightarrow> ('h manager \<times> 'h queue) option option" where
  "run_loop now limit m g =
     (if tq m = [] then Some (Some (m, g))
      else if tend (tq m ! 0) \<le> now then
        (case run_body m g of
           None \<Rightarrow> Some None
         | Some (m, g) \<Rightarrow>
             if limit > 0 \<and> int (Queue_Len g) \<ge> limit then Some (Some (m, g)) else run_loop now limit m g)
      else Some (Some (m, g)))"

text \<open>The second loop calls what is queued; \<open>nil\<close> would fail the type assertion.\<close>

function drain :: "'h queue \<Rightarrow> ('h list \<times> 'h queue) option" where
  "drain g =
     (if Queue_Len g > 0 then do {
        (e, g) \<leftarrow> Queue_Pop g;
        h \<leftarrow> e;
        (hs, g) \<leftarrow> drain g;
        Some (h # hs, g)
      } else Some ([], g))"
  by pat_completeness auto
termination
  by (relation "measure nelems") (auto simp: Queue_Pop_def Queue_Len_def split: if_splits)

declare drain.simps [simp del]

text \<open>\<open>None\<close> is a \<open>Run\<close> that does not return, \<open>Some None\<close> one that panics.\<close>

definition Run :: "int \<Rightarrow> int \<Rightarrow> 'h manager \<Rightarrow> 'h queue \<Rightarrow> ('h list \<times> 'h manager \<times> 'h queue) option option" where
  "Run now limit m g =
     (case run_loop now limit m g of
        None \<Rightarrow> None
      | Some r \<Rightarrow> Some (do {
          (m, g) \<leftarrow> r;
          (hs, g) \<leftarrow> drain g;
          Some (hs, m, g)
        }))"

section \<open>What is due\<close>

text \<open>How often a timer fires until \<open>now\<close>, and what it is afterwards.\<close>

definition fires :: "int \<Rightarrow> 'h timer \<Rightarrow> nat" where
  "fires now t =
     (if now < tend t then 0 else if 0 < interval t then Suc (nat ((now - tend t) div interval t)) else 1)"

definition advance :: "int \<Rightarrow> 'h timer \<Rightarrow> 'h timer" where
  "advance now t = t\<lparr>tend := tend t + int (fires now t) * interval t\<rparr>"

definition fired :: "int \<Rightarrow> 'h timer multiset \<Rightarrow> 'h multiset" where
  "fired now B = (\<Sum>t \<in># B. replicate_mset (fires now t) (handler t))"

definition settled :: "int \<Rightarrow> 'h timer multiset \<Rightarrow> 'h timer multiset" where
  "settled now B = {# advance now t. t \<in># filter_mset (\<lambda>t. now < tend t \<or> 0 < interval t) B #}"

text \<open>End times are \<open>int64\<close> values, and no due timer runs past the largest one.\<close>

definition in_range :: "int \<Rightarrow> 'h timer \<Rightarrow> bool" where
  "in_range now t \<longleftrightarrow> - (2 ^ 63) \<le> tend t \<and> now + interval t < 2 ^ 63"

definition next_round :: "'h timer \<Rightarrow> 'h timer" where
  "next_round t = t\<lparr>tend := tend t + interval t\<rparr>"

lemma fires_due: "tend t \<le> now \<Longrightarrow> 0 < interval t \<Longrightarrow> fires now t = Suc (fires now (next_round t))"
proof -
  assume due: "tend t \<le> now" "0 < interval t"
  show ?thesis
  proof (cases "now < tend t + interval t")
    case True
    then have "(now - tend t) div interval t = 0" using due by (intro div_pos_pos_trivial) auto
    with True due show ?thesis by (simp add: fires_def next_round_def)
  next
    case False
    have "(now - tend t) div interval t = (now - tend t - interval t) div interval t + 1"
      using due div_add_self2 [of "interval t" "now - tend t - interval t"] by simp
    moreover have "0 \<le> (now - tend t - interval t) div interval t"
      using False due by (intro pos_imp_zdiv_nonneg_iff [THEN iffD2]) auto
    ultimately show ?thesis using False due by (simp add: fires_def next_round_def nat_add_distrib diff_diff_eq)
  qed
qed

lemma fires_once: "tend t \<le> now \<Longrightarrow> \<not> 0 < interval t \<Longrightarrow> fires now t = 1"
  by (simp add: fires_def)

lemma advance_due: "tend t \<le> now \<Longrightarrow> 0 < interval t \<Longrightarrow> advance now t = advance now (next_round t)"
  by (simp add: advance_def fires_due next_round_def algebra_simps)

lemma advance_late: "0 < interval t \<Longrightarrow> now < tend (advance now t)" if "tend t \<le> now"
proof -
  assume iv: "0 < interval t"
  have "now - tend t < ((now - tend t) div interval t + 1) * interval t"
    using iv by (metis add.commute div_mult_mod_eq distrib_right mult_1 pos_mod_bound add_strict_right_mono)
  moreover have "0 \<le> (now - tend t) div interval t" using iv that by (simp add: pos_imp_zdiv_nonneg_iff)
  ultimately show "now < tend (advance now t)" using iv that
    by (simp add: advance_def fires_def add.commute [of 1])
qed

lemma fired_add [simp]: "fired now (add_mset t B) = replicate_mset (fires now t) (handler t) + fired now B"
  by (simp add: fired_def)

lemma settled_add: "settled now (add_mset t B) =
    (if now < tend t \<or> 0 < interval t then add_mset (advance now t) (settled now B) else settled now B)"
  by (simp add: settled_def)

lemma settled_late: "t \<in># settled now B \<Longrightarrow> now < tend t"
proof -
  assume "t \<in># settled now B"
  then obtain u where u: "t = advance now u" "now < tend u \<or> 0 < interval u" by (auto simp: settled_def)
  show "now < tend t"
  proof (cases "now < tend u")
    case True
    then show ?thesis using u(1) by (simp add: advance_def fires_def)
  next
    case False
    then show ?thesis using u advance_late [of u now] by simp
  qed
qed

lemma nothing_due:
  assumes "\<And>t. t \<in># B \<Longrightarrow> now < tend t"
  shows "fired now B = {#}" and "settled now B = B"
  using assms by (induction B) (simp_all add: fired_def settled_def advance_def fires_def)

section \<open>Run fires exactly what is due\<close>

lemma drain_ok:
  "queue_inv g \<Longrightarrow> queue_abs g = map Some hs \<Longrightarrow> \<exists>g'. drain g = Some (hs, g') \<and> queue_inv g' \<and> queue_abs g' = []"
proof (induction hs arbitrary: g)
  case Nil
  then have "Queue_Len g = 0" using ring.len_ok by fastforce
  with Nil show ?case by (simp add: drain.simps [of g])
next
  case (Cons h hs)
  then obtain g1 where g1: "Queue_Pop g = Some (Some h, g1)" "queue_inv g1" "queue_abs g1 = map Some hs"
    using ring.pop_ok [of g "Some h" "map Some hs"] by auto
  have "Queue_Len g > 0" using ring.len_ok [OF Cons.prems(1)] Cons.prems(2) by simp
  with g1 Cons.IH [OF g1(2,3)] show ?case by (auto simp: drain.simps [of g])
qed

lemma rearm_ok:
  assumes "manager_inv (m\<lparr>tq := q\<rparr>)" and "length q < cap m" and "in_range now (core t)" and "tend t \<le> now"
  shows "\<exists>m'. rearm m t q = Some m' \<and> manager_inv m' \<and> cap m' = cap m \<and>
    bag (tq m') = (if 0 < interval t then add_mset (next_round (core t)) (bag q) else bag q)"
proof (cases "0 < interval t")
  case True
  have sum: "add64 (tend t) (interval t) = tend t + interval t"
    using True assms(3,4) by (intro add64_small) (auto simp: in_range_def)
  have "core (t\<lparr>tend := tend t + interval t\<rparr>) = next_round (core t)" by (simp add: core_def next_round_def)
  with timer_heap.push_ok [where q = q and c = "cap m" and e = "t\<lparr>tend := tend t + interval t\<rparr>"] assms(1,2) True sum show ?thesis
    by (auto simp: rearm_def manager_inv_def)
qed (use assms in \<open>simp add: rearm_def\<close>)

lemma run_loop_ok:
  "manager_inv m \<Longrightarrow> queue_inv g \<Longrightarrow> limit \<le> 0 \<Longrightarrow> (\<And>t. t \<in># bag (tq m) \<Longrightarrow> in_range now t) \<Longrightarrow>
     \<exists>m' g' hs. run_loop now limit m g = Some (Some (m', g')) \<and> manager_inv m' \<and> queue_inv g' \<and>
       queue_abs g' = queue_abs g @ map Some hs \<and> mset hs = fired now (bag (tq m)) \<and> bag (tq m') = settled now (bag (tq m))"
proof (induction "size (fired now (bag (tq m)))" arbitrary: m g rule: less_induct)
  case less
  show ?case
  proof (cases "tq m = [] \<or> now < tend (tq m ! 0)")
    case True
    have late: "now < tend t" if "t \<in># bag (tq m)" for t
    proof -
      from that obtain k where k: "k < length (tq m)" "t = core (tq m ! k)" by (auto simp: bag_def in_set_conv_nth)
      then have "tend (tq m ! 0) \<le> tend (tq m ! k)"
        using less.prems(1) by (intro heap_root_min) (auto simp: manager_inv_def tq_inv_def)
      then show ?thesis using True k by auto
    qed
    then have "run_loop now limit m g = Some (Some (m, g))" using True by (auto simp: run_loop.simps [of now limit m])
    with less.prems nothing_due [OF late] show ?thesis by (intro exI [of _ m] exI [of _ g] exI [of _ "[]"]) auto
  next
    case False
    then have ne: "bag (tq m) \<noteq> {#}" by (auto simp: bag_def)
    have inv: "tq_inv (tq m) \<and> length (tq m) \<le> cap m" using less.prems(1) by (simp add: manager_inv_def)
    from timer_heap.pop_ok [OF inv ne] obtain t q where pop: "heap_Pop (tq m) = Some (t, q)" "tq_inv q" "length q \<le> cap m"
      "length q \<noteq> cap m" "bag (tq m) = add_mset (core t) (bag q)" "\<forall>x \<in># bag (tq m). tend (core t) \<le> tend x" by blast
    have "core (tq m ! 0) \<in># bag (tq m)" using False by (auto simp: bag_def)
    then have due: "tend t \<le> now" using pop(6) False by fastforce
    from ring.push_ok [OF less.prems(2), of "Some (handler t)"] obtain g1 where
      push: "Queue_Push (Some (handler t)) g = Some g1" "queue_inv g1" "queue_abs g1 = queue_abs g @ [Some (handler t)]" by blast
    have "in_range now (core t)" using less.prems(4) pop(5) by simp
    with rearm_ok [where m = m and q = q and t = t and now = now] pop(2-4) due obtain m1 where re: "rearm m t q = Some m1" "manager_inv m1" "cap m1 = cap m"
      "bag (tq m1) = (if 0 < interval t then add_mset (next_round (core t)) (bag q) else bag q)"
      by (auto simp: manager_inv_def)
    have fired: "fired now (bag (tq m)) = add_mset (handler t) (fired now (bag (tq m1)))"
      using due re(4) pop(5) by (cases "0 < interval t") (simp_all add: fires_due fires_once, simp add: next_round_def)
    have settled: "settled now (bag (tq m)) = settled now (bag (tq m1))"
      using due re(4) pop(5) advance_due [of "core t" now]
      by (cases "0 < interval t") (simp_all add: settled_add, simp add: next_round_def)
    have step: "run_loop now limit m g = run_loop now limit m1 g1"
      using False pop(1) push(1) re(1) less.prems(3) by (simp add: run_loop.simps [of now limit m] run_body_def)
    have rng: "in_range now x" if "x \<in># bag (tq m1)" for x
    proof (cases "x \<in># bag q")
      case False
      then have "x = next_round (core t)" "0 < interval t" using that re(4) by (auto split: if_splits)
      then show ?thesis using less.prems(4) [of "core t"] pop(5) by (auto simp: in_range_def next_round_def)
    qed (use less.prems(4) pop(5) in auto)
    have "\<exists>m' g' hs. run_loop now limit m1 g1 = Some (Some (m', g')) \<and> manager_inv m' \<and> queue_inv g' \<and>
        queue_abs g' = queue_abs g1 @ map Some hs \<and> mset hs = fired now (bag (tq m1)) \<and> bag (tq m') = settled now (bag (tq m1))"
      using fired re(2) push(2) less.prems(3) rng by (intro less.hyps) auto
    then obtain m' g' hs where "run_loop now limit m1 g1 = Some (Some (m', g'))" "manager_inv m'" "queue_inv g'"
      "queue_abs g' = queue_abs g1 @ map Some hs" "mset hs = fired now (bag (tq m1))" "bag (tq m') = settled now (bag (tq m1))"
      by blast
    with step fired settled push(3) show ?thesis
      by (intro exI [of _ m'] exI [of _ g'] exI [of _ "handler t # hs"]) auto
  qed
qed

text \<open>
  C21.  \<open>Run\<close> without a limit returns and fires exactly what is due: a one-shot timer that has ended
  fires once, a periodic one once for every period that has ended, no other timer fires, and afterwards
  no timer of the heap is due; periodic timers keep their phase.  The heap keeps its order and its
  positions.  The hypothesis excludes end times that would wrap around.
\<close>

theorem Run_fires_due:
  assumes "manager_inv m" and "queue_inv g" and "queue_abs g = []" and "limit \<le> 0"
    and "\<And>t. t \<in># bag (tq m) \<Longrightarrow> in_range now t"
  shows "\<exists>hs m' g'. Run now limit m g = Some (Some (hs, m', g')) \<and> mset hs = fired now (bag (tq m)) \<and>
    bag (tq m') = settled now (bag (tq m)) \<and> manager_inv m' \<and> queue_inv g' \<and> queue_abs g' = []"
proof -
  from run_loop_ok [OF assms(1,2,4,5)] assms(3) obtain m' g1 hs where 1: "run_loop now limit m g = Some (Some (m', g1))"
    "manager_inv m'" "queue_inv g1" "queue_abs g1 = map Some hs" "mset hs = fired now (bag (tq m))"
    "bag (tq m') = settled now (bag (tq m))" by auto
  from drain_ok [OF 1(3,4)] obtain g' where "drain g1 = Some (hs, g')" "queue_inv g'" "queue_abs g' = []" by blast
  with 1 show ?thesis by (auto simp: Run_def)
qed

lemma Run_fires_due_witness:
  "\<exists>hs m' g'. Run 12 0 \<lparr>mid = 2, tq = [\<lparr>handler = CHR ''a'', tid = 1, tend = 5, interval = 3, index = 0\<rparr>,
      \<lparr>handler = CHR ''b'', tid = 2, tend = 9, interval = 0, index = 1\<rparr>], cap = 4\<rparr> empty_queue = Some (Some (hs, m', g')) \<and>
    mset hs = {#CHR ''a'', CHR ''a'', CHR ''a'', CHR ''b''#} \<and>
    bag (tq m') = {#\<lparr>handler = CHR ''a'', tid = 1, tend = 14, interval = 3, index = 0\<rparr>#}"
proof -
  let ?q = "[\<lparr>handler = CHR ''a'', tid = 1, tend = 5, interval = 3, index = 0\<rparr>,
      \<lparr>handler = CHR ''b'', tid = 2, tend = 9, interval = 0, index = 1\<rparr>]"
  let ?m = "\<lparr>mid = 2, tq = ?q, cap = 4\<rparr>"
  have inv: "manager_inv ?m" by (simp add: manager_inv_def tq_inv_eval par_def)
  have rng: "in_range 12 t" if "t \<in># bag (tq ?m)" for t
    using that by (auto simp: bag_def in_range_def core_def)
  have f: "fired 12 (bag (tq ?m)) = {#CHR ''a'', CHR ''a'', CHR ''a'', CHR ''b''#}"
    by (simp add: bag_def fired_def fires_def core_def numeral_3_eq_3 numeral_2_eq_2 replicate_mset_Suc)
  have t: "settled 12 (bag (tq ?m)) = {#\<lparr>handler = CHR ''a'', tid = 1, tend = 14, interval = 3, index = 0\<rparr>#}"
    by (simp add: bag_def settled_def advance_def fires_def core_def)
  from Run_fires_due [OF inv queue_empty_ok order_refl rng] show ?thesis unfolding f t by blast
qed

section \<open>dump\<close>

text \<open>The printed lines are the result; the slice is emptied into a local \<open>Queue\<close> and filled again from it.\<close>

lemma length_heap_down [simp]: "length (fst (heap_down q i n)) = length q"
  by (induction q i n rule: heap_down.induct) (subst heap_down.simps, simp add: Let_def)

lemma length_heap_Pop: "heap_Pop q = Some (t, q') \<Longrightarrow> length q' < length q"
  by (auto simp: heap_Pop_def TQ_Pop_def Let_def split: if_splits)

type_synonym line = "u32 \<times> int \<times> int \<times> int"

definition timer_line :: "'h timer \<Rightarrow> line" where
  "timer_line t = (tid t, index t, tend t, interval t)"

function dump_out :: "'h timers \<Rightarrow> 'h timer queue \<Rightarrow> (line list \<times> 'h timers \<times> 'h timer queue) option" where
  "dump_out q g =
     (if q \<noteq> [] then do {
        (t, q) \<leftarrow> heap_Pop q;
        g \<leftarrow> Queue_Push (Some t) g;
        (ls, q, g) \<leftarrow> dump_out q g;
        Some (timer_line t # ls, q, g)
      } else Some ([], q, g))"
  by pat_completeness auto
termination
  by (relation "measure (length \<circ> fst)") (auto simp: length_heap_Pop)

function dump_in :: "nat \<Rightarrow> 'h timer queue \<Rightarrow> 'h timers \<Rightarrow> 'h timers option" where
  "dump_in c g q =
     (if Queue_Len g > 0 then do {
        (e, g) \<leftarrow> Queue_Pop g;
        t \<leftarrow> e;
        q \<leftarrow> heap_Push c t q;
        dump_in c g q
      } else Some q)"
  by pat_completeness auto
termination
  by (relation "measure (\<lambda>(c, g, q). nelems g)") (auto simp: Queue_Pop_def Queue_Len_def split: if_splits)

declare dump_out.simps [simp del] dump_in.simps [simp del]

definition dump :: "'h manager \<Rightarrow> (line list \<times> 'h manager) option" where
  "dump m = do {
     (ls, q, g) \<leftarrow> dump_out (tq m) empty_queue;
     q \<leftarrow> dump_in (cap m) g q;
     Some (ls, m\<lparr>tq := q\<rparr>)
   }"

lemma index_heap_Pop: "heap_Pop q = Some (t, q') \<Longrightarrow> index t = - 1"
  by (auto simp: heap_Pop_def TQ_Pop_def Let_def split: if_splits)

definition bare_line :: "'h timer \<Rightarrow> line" where
  "bare_line t = timer_line (t\<lparr>index := - 1\<rparr>)"

lemma dump_out_pop_all:
  "timer_heap.pop_all n q = Some (es, []) \<Longrightarrow> length q = n \<Longrightarrow> tq_inv q \<Longrightarrow> queue_inv g \<Longrightarrow>
     \<exists>ts g'. dump_out q g = Some (map bare_line es, [], g') \<and> queue_inv g' \<and>
       queue_abs g' = queue_abs g @ map Some ts \<and> map core ts = es"
proof (induction n arbitrary: q es g)
  case 0
  then show ?case by (intro exI [of _ "[]"] exI [of _ g]) (simp add: dump_out.simps [of "[]" g])
next
  case (Suc n)
  then have "q \<noteq> []" by auto
  with heap_Pop_ok [OF Suc.prems(3)] obtain t q1 where
    pop: "heap_Pop q = Some (t, q1)" "tq_inv q1" "length q = Suc (length q1)" by blast
  with Suc.prems(1) obtain es1 where es: "timer_heap.pop_all n q1 = Some (es1, [])" "es = core t # es1"
    by (auto split: Option.bind_split_asm)
  from ring.push_ok [OF Suc.prems(4), of "Some t"] obtain g1 where
    g1: "Queue_Push (Some t) g = Some g1" "queue_inv g1" "queue_abs g1 = queue_abs g @ [Some t]" by blast
  from Suc.IH [OF es(1) _ pop(2) g1(2)] pop(3) Suc.prems(2) obtain ts g' where
    "dump_out q1 g1 = Some (map bare_line es1, [], g')" "queue_inv g'" "queue_abs g' = queue_abs g1 @ map Some ts"
    "map core ts = es1" by auto
  moreover have "timer_line t = bare_line (core t)"
    using index_heap_Pop [OF pop(1)] by (simp add: bare_line_def timer_line_def core_def)
  ultimately show ?case using pop(1) g1 es(2) \<open>q \<noteq> []\<close>
    by (intro exI [of _ "t # ts"] exI [of _ g']) (simp add: dump_out.simps [of q g])
qed

lemma dump_in_ok:
  "tq_inv q \<Longrightarrow> queue_inv g \<Longrightarrow> queue_abs g = map Some ts \<Longrightarrow> length q + length ts \<le> c \<Longrightarrow>
     \<exists>q'. dump_in c g q = Some q' \<and> tq_inv q' \<and> bag q' = mset (map core ts) + bag q"
proof (induction ts arbitrary: q g)
  case Nil
  then have "Queue_Len g = 0" using ring.len_ok by fastforce
  with Nil show ?case by (simp add: dump_in.simps [of c g q])
next
  case (Cons t ts)
  then obtain g1 where g1: "Queue_Pop g = Some (Some t, g1)" "queue_inv g1" "queue_abs g1 = map Some ts"
    using ring.pop_ok [of g "Some t" "map Some ts"] by auto
  have len: "Queue_Len g > 0" using ring.len_ok [OF Cons.prems(2)] Cons.prems(3) by simp
  from heap_Push_ok [OF Cons.prems(1), of c t] Cons.prems(4) obtain q1 where
    q1: "heap_Push c t q = Some q1" "tq_inv q1" "bag q1 = add_mset (core t) (bag q)" by auto
  have "length q1 = Suc (length q)" using arg_cong [OF q1(3), of size] by (simp add: bag_def)
  with Cons.IH [OF q1(2) g1(2,3)] Cons.prems(4) q1 g1 len show ?case by (auto simp: dump_in.simps [of c g q])
qed

lemma dump_ok:
  assumes "manager_inv m"
  shows "\<exists>ts m'. dump m = Some (map bare_line ts, m') \<and> sorted (map tend ts) \<and> mset ts = bag (tq m) \<and>
    manager_inv m' \<and> bag (tq m') = bag (tq m) \<and> mid m' = mid m \<and> cap m' = cap m"
proof -
  have inv: "tq_inv (tq m)" "length (tq m) \<le> cap m" using assms by (auto simp: manager_inv_def)
  have "size (bag (tq m)) = length (tq m)" by (simp add: bag_def)
  from timer_heap.pop_all_sorted [OF conjI [OF inv] this] obtain es q' where
    pop: "timer_heap.pop_all (length (tq m)) (tq m) = Some (es, q')" "mset es = bag (tq m)" "sorted (map tend es)" "bag q' = {#}"
    by blast
  then have "q' = []" by (simp add: bag_def)
  with dump_out_pop_all [OF _ refl inv(1) queue_empty_ok(1)] pop(1) obtain ts g' where
    out: "dump_out (tq m) empty_queue = Some (map bare_line es, [], g')" "queue_inv g'" "queue_abs g' = map Some ts"
    "map core ts = es" by (auto simp: queue_empty_ok)
  have "length ts = length (tq m)" using arg_cong [OF pop(2), of size] out(4) by (auto simp: bag_def)
  then have "\<exists>q. dump_in (cap m) g' [] = Some q \<and> tq_inv q \<and> bag q = mset (map core ts) + bag []"
    using inv(2) out(2,3) by (intro dump_in_ok) (simp_all add: tq_inv_def pos_ok_def heap_n_def)
  then obtain q where q: "dump_in (cap m) g' [] = Some q" "tq_inv q" "bag q = bag (tq m)"
    using out(4) pop(2) by (auto simp: bag_def)
  then have "length q = length (tq m)" by (metis bag_def length_map size_mset)
  with out(1) q inv pop show ?thesis
    by (intro exI [of _ es] exI [of _ "m\<lparr>tq := q\<rparr>"]) (simp add: dump_def manager_inv_def)
qed

text \<open>
  C22.  \<open>dump\<close> returns, prints every waiting timer once in the order of the end times (each with position
  -1, since it is printed after it was popped), and leaves the manager with the same timers in a
  well-formed heap.
\<close>

theorem dump_prints_in_order:
  assumes "manager_inv m"
  shows "\<exists>ts m'. dump m = Some (map bare_line ts, m') \<and> sorted (map tend ts) \<and> mset ts = bag (tq m) \<and>
    manager_inv m' \<and> bag (tq m') = bag (tq m) \<and> mid m' = mid m \<and> cap m' = cap m"
  using dump_ok [OF assms] .

lemma dump_prints_in_order_witness:
  "\<exists>ts m'. dump \<lparr>mid = 1, tq = [\<lparr>handler = (), tid = 1, tend = 5, interval = 3, index = 0\<rparr>], cap = 4\<rparr> =
     Some (map bare_line ts, m') \<and> mset ts = {#\<lparr>handler = (), tid = 1, tend = 5, interval = 3, index = 0\<rparr>#}"
  using dump_prints_in_order [of "\<lparr>mid = 1, tq = [\<lparr>handler = (), tid = 1, tend = 5, interval = 3, index = 0\<rparr>], cap = 4\<rparr>"]
  by (auto simp: manager_inv_def tq_inv_eval bag_def core_def)

section \<open>Every manager a program can reach\<close>

text \<open>A step of the program on its manager; \<open>Run\<close> uses the package-wide \<open>Queue\<close>, empty between calls.\<close>

inductive mstep :: "'h manager \<times> 'h queue \<Rightarrow> 'h manager \<times> 'h queue \<Rightarrow> bool" where
  add: "AddTimer h e iv m = Some (i, m') \<Longrightarrow> mstep (m, g) (m', g)"
| remove: "RemoveTimer i m = Some m' \<Longrightarrow> mstep (m, g) (m', g)"
| run: "Run now limit m g = Some (Some (hs, m', g')) \<Longrightarrow> mstep (m, g) (m', g')"
| dump: "dump m = Some (ls, m') \<Longrightarrow> mstep (m, g) (m', g)"

inductive_cases mstepE: "mstep s s'"










end
