(* ===== verification/Xxtea.thy ===== *)
theory Xxtea
  imports Prelude
begin

text \<open>
  The block cipher of \<^verbatim>\<open>src/basic/utils/xxtea.go\<close>: packing of bytes into 32-bit words, the rounds of
  encryption and decryption over an array of words with the registers \<open>y\<close> and \<open>z\<close> of the code, and the
  exported \<open>Encrypt\<close> and \<open>Decrypt\<close>.  A nil slice is the empty list; a panic is \<open>None\<close>.
\<close>

unbundle bit_operations_syntax

section \<open>Packing\<close>

definition toBytes :: "u32 list \<Rightarrow> bool \<Rightarrow> u8 list option" where
  "toBytes v includeLength =
     (let len = of_nat (length v) :: u32;
          n = push_bit 2 len;
          unpack = (\<lambda>n. map (\<lambda>i. ucast (drop_bit (8 * (i mod 4)) (v ! (i div 4)))) [0..<unat n])
      in if includeLength then do {
           m \<leftarrow> go_nth v (uint (len - 1));
           let n = n - 4 in
           if m < n - 3 \<or> m > n then Some [] else Some (unpack m)
         } else Some (unpack n))"

definition set_byte :: "u8 list \<Rightarrow> nat \<Rightarrow> u32 list \<Rightarrow> u32 list" where
  "set_byte bytes i v = v[i div 4 := v ! (i div 4) OR push_bit (8 * (i mod 4)) (ucast (bytes ! i))]"

definition toUint32s :: "u8 list \<Rightarrow> bool \<Rightarrow> u32 list" where
  "toUint32s bytes includeLength =
     (let len = of_nat (length bytes) :: u32;
          n = drop_bit 2 len;
          n = (if len AND 3 \<noteq> 0 then n + 1 else n);
          v = replicate (unat n) 0 @ (if includeLength then [len] else [])
      in fold (set_byte bytes) [0..<unat len] v)"

section \<open>Rounds\<close>

definition delta :: u32 where
  "delta = 0x9E3779B9"

definition mx :: "u32 \<Rightarrow> u32 \<Rightarrow> u32 \<Rightarrow> u32 \<Rightarrow> u32 \<Rightarrow> u32 list \<Rightarrow> u32" where
  "mx acc y z p e k =
     ((drop_bit 5 z XOR push_bit 2 y) + (drop_bit 3 y XOR push_bit 4 z)) XOR
     ((acc XOR y) + (k ! unat ((p AND 3) XOR e) XOR z))"

definition fixk :: "u32 list \<Rightarrow> u32 list" where
  "fixk k = (if length k < 4 then k @ replicate (4 - length k) 0 else k)"

text \<open>The bodies of the inner loops, and one round of the outer loops.\<close>

definition enc_body :: "u32 list \<Rightarrow> u32 \<Rightarrow> nat \<Rightarrow> u32 list \<times> u32 \<Rightarrow> u32 list \<times> u32" where
  "enc_body k acc p = (\<lambda>(v, z).
     let y = v ! (p + 1);
         v = v[p := v ! p + mx acc y z (of_nat p) (drop_bit 2 acc AND 3) k]
     in (v, v ! p))"

definition enc_round :: "u32 list \<Rightarrow> nat \<Rightarrow> u32 list \<times> u32 \<times> u32 \<Rightarrow> u32 list \<times> u32 \<times> u32" where
  "enc_round k n = (\<lambda>(v, z, acc).
     let acc = acc + delta;
         (v, z) = fold (enc_body k acc) [0..<n] (v, z);
         y = v ! 0;
         v = v[n := v ! n + mx acc y z (of_nat n) (drop_bit 2 acc AND 3) k]
     in (v, v ! n, acc))"

definition encrypt :: "u32 list \<Rightarrow> u32 list \<Rightarrow> u32 list option" where
  "encrypt v k =
     (let len = of_nat (length v) :: u32; n = unat (len - 1); k = fixk k
      in if n < length v \<and> len \<noteq> 0
         then Some (fst ((enc_round k n ^^ unat (6 + 52 div len)) (v, v ! n, 0)))
         else None)"

definition dec_body :: "u32 list \<Rightarrow> u32 \<Rightarrow> nat \<Rightarrow> u32 list \<times> u32 \<Rightarrow> u32 list \<times> u32" where
  "dec_body k acc p = (\<lambda>(v, y).
     let z = v ! (p - 1);
         v = v[p := v ! p - mx acc y z (of_nat p) (drop_bit 2 acc AND 3) k]
     in (v, v ! p))"

definition dec_round :: "u32 list \<Rightarrow> nat \<Rightarrow> u32 \<Rightarrow> u32 list \<times> u32 \<Rightarrow> u32 list \<times> u32" where
  "dec_round k n acc = (\<lambda>(v, y).
     let (v, y) = fold (dec_body k acc) (rev [1..<Suc n]) (v, y);
         z = v ! n;
         v = v[0 := v ! 0 - mx acc y z 0 (drop_bit 2 acc AND 3) k]
     in (v, v ! 0))"

text \<open>
  The outer loop of the decryption runs until the sum, counted down by the odd constant \<open>delta\<close>, is 0.
  Multiplied with the inverse of \<open>delta\<close> it counts down by 1.
\<close>

definition delta_inv :: u32 where
  "delta_inv = 0x144CBC89"

lemma delta_inverse: "delta * delta_inv = 1" "delta_inv * delta = 1"
  by (simp_all add: delta_def delta_inv_def)

lemma delta_count: "acc \<noteq> 0 \<Longrightarrow> unat (acc * delta_inv) = Suc (unat ((acc - delta) * delta_inv))"
proof -
  assume "acc \<noteq> 0"
  moreover have "acc = acc * delta_inv * delta" by (simp only: mult.assoc delta_inverse mult_1_right)
  ultimately have nz: "acc * delta_inv \<noteq> 0" by auto
  have "(acc - delta) * delta_inv = acc * delta_inv - 1" by (simp only: left_diff_distrib delta_inverse)
  moreover have "unat (acc * delta_inv) \<noteq> 0" using nz by (simp only: unat_eq_0 not_False_eq_True)
  ultimately show ?thesis using unat_minus_one [OF nz] by simp
qed

function dec_loop :: "u32 list \<Rightarrow> nat \<Rightarrow> u32 \<Rightarrow> u32 list \<times> u32 \<Rightarrow> u32 list" where
  "dec_loop k n acc s = (if acc \<noteq> 0 then dec_loop k n (acc - delta) (dec_round k n acc s) else fst s)"
  by pat_completeness auto
termination
  by (relation "measure (\<lambda>(k, n, acc, s). unat (acc * delta_inv))") (auto simp: delta_count)

declare dec_loop.simps [simp del]

definition decrypt :: "u32 list \<Rightarrow> u32 list \<Rightarrow> u32 list option" where
  "decrypt v k =
     (let len = of_nat (length v) :: u32; n = unat (len - 1); k = fixk k
      in if n < length v \<and> len \<noteq> 0 then Some (dec_loop k n ((6 + 52 div len) * delta) (v, v ! 0)) else None)"

definition Encrypt :: "u8 list \<Rightarrow> u8 list \<Rightarrow> u8 list option" where
  "Encrypt data key =
     (if data = [] then Some data
      else do { v \<leftarrow> encrypt (toUint32s data True) (toUint32s key False); toBytes v False })"

definition Decrypt :: "u8 list \<Rightarrow> u8 list \<Rightarrow> u8 list option" where
  "Decrypt data key =
     (if data = [] then Some data
      else do { v \<leftarrow> decrypt (toUint32s data False) (toUint32s key False); toBytes v True })"

section \<open>Decryption undoes encryption\<close>

lemma fold_undo:
  assumes "\<And>x v. x \<in> set xs \<Longrightarrow> P v \<Longrightarrow> P (f x v) \<and> g x (f x v) = v" and "P v"
  shows "fold g (rev xs) (fold f xs v) = v \<and> P (fold f xs v)"
  using assms
proof (induction xs arbitrary: v)
  case (Cons x xs)
  then have "P (f x v)" "g x (f x v) = v" by auto
  with Cons.IH [of "f x v"] Cons.prems show ?case by simp
qed simp

text \<open>What one position adds to its word depends on its two neighbours in the ring of \<open>l\<close> words only.\<close>

definition mix :: "u32 list \<Rightarrow> nat \<Rightarrow> u32 \<Rightarrow> nat \<Rightarrow> u32 list \<Rightarrow> u32" where
  "mix k l acc p v =
     mx acc (v ! ((p + 1) mod l)) (v ! ((p + l - 1) mod l)) (of_nat p) (drop_bit 2 acc AND 3) k"

definition up :: "u32 list \<Rightarrow> nat \<Rightarrow> u32 \<Rightarrow> nat \<Rightarrow> u32 list \<Rightarrow> u32 list" where
  "up k l acc p v = v[p := v ! p + mix k l acc p v]"

definition dn :: "u32 list \<Rightarrow> nat \<Rightarrow> u32 \<Rightarrow> nat \<Rightarrow> u32 list \<Rightarrow> u32 list" where
  "dn k l acc p v = v[p := v ! p - mix k l acc p v]"

lemma length_up [simp]: "length (up k l acc p v) = length v" "length (dn k l acc p v) = length v"
  by (simp_all add: up_def dn_def)

lemma length_fold_up [simp]: "length (fold (up k l acc) ps v) = length v" "length (fold (dn k l acc) ps v) = length v"
  by (induction ps arbitrary: v) simp_all

lemma neighbours: "2 \<le> l \<Longrightarrow> p < l \<Longrightarrow> (p + 1) mod l \<noteq> p \<and> (p + l - 1) mod l \<noteq> p" for l p :: nat
  by (auto simp: mod_if)

lemma ring_pred: "m \<le> n \<Longrightarrow> Suc (m + n) mod Suc n = m"
  using mod_add_self2 [of m "Suc n"] by simp

lemma dn_up: "2 \<le> l \<Longrightarrow> p < l \<Longrightarrow> length v = l \<Longrightarrow> dn k l acc p (up k l acc p v) = v"
  using neighbours [of l p] by (simp add: up_def dn_def mix_def)

definition ups :: "u32 list \<Rightarrow> nat \<Rightarrow> u32 \<Rightarrow> u32 list \<Rightarrow> u32 list" where
  "ups k l acc = fold (up k l acc) [0..<l]"

definition dns :: "u32 list \<Rightarrow> nat \<Rightarrow> u32 \<Rightarrow> u32 list \<Rightarrow> u32 list" where
  "dns k l acc = fold (dn k l acc) (rev [0..<l])"

lemma dns_ups: "2 \<le> l \<Longrightarrow> length v = l \<Longrightarrow> dns k l acc (ups k l acc v) = v \<and> length (ups k l acc v) = l"
  unfolding dns_def ups_def
  by (rule fold_undo [where P = "\<lambda>v. length v = l"]) (auto simp: dn_up)

lemma enc_body_up:
  "length v = Suc n \<Longrightarrow> m < n \<Longrightarrow> enc_body k acc m (v, v ! ((m + n) mod Suc n)) =
     (up k (Suc n) acc m v, up k (Suc n) acc m v ! ((Suc m + n) mod Suc n))"
  by (simp add: enc_body_def up_def mix_def Let_def ring_pred)

lemma enc_inner:
  "length v = Suc n \<Longrightarrow> m \<le> n \<Longrightarrow> fold (enc_body k acc) [0..<m] (v, v ! n) =
     (let v' = fold (up k (Suc n) acc) [0..<m] v in (v', v' ! ((m + n) mod Suc n)))"
proof (induction m)
  case (Suc m)
  then show ?case by (simp add: Let_def enc_body_up del: add_Suc)
qed simp

lemma enc_round_ups:
  "length v = Suc n \<Longrightarrow> enc_round k n (v, v ! n, acc) =
     (ups k (Suc n) (acc + delta) v, ups k (Suc n) (acc + delta) v ! n, acc + delta)"
  by (simp add: enc_round_def enc_inner ups_def Let_def up_def mix_def)

lemma dec_inner:
  "length v = Suc n \<Longrightarrow> m \<le> n \<Longrightarrow> fold (dec_body k acc) (rev [1..<Suc m]) (v, v ! (Suc m mod Suc n)) =
     (let v' = fold (dn k (Suc n) acc) (rev [1..<Suc m]) v in (v', v' ! (1 mod Suc n)))"
proof (induction m arbitrary: v)
  case (Suc m)
  have "dec_body k acc (Suc m) (v, v ! (Suc (Suc m) mod Suc n)) =
      (dn k (Suc n) acc (Suc m) v, dn k (Suc n) acc (Suc m) v ! (Suc m mod Suc n))"
    using Suc.prems by (simp add: dec_body_def dn_def mix_def Let_def ring_pred)
  with Suc.IH [of "dn k (Suc n) acc (Suc m) v"] Suc.prems show ?case by (simp add: Let_def)
qed simp

lemma dec_round_dns:
  "length v = Suc n \<Longrightarrow> dec_round k n acc (v, v ! 0) = (dns k (Suc n) acc v, dns k (Suc n) acc v ! 0)"
proof -
  assume len: "length v = Suc n"
  have "rev [0..<Suc n] = rev [1..<Suc n] @ [0]" by (simp add: upt_conv_Cons del: upt_Suc)
  with dec_inner [OF len order_refl, of k acc] len show ?thesis
    by (simp add: dec_round_def dns_def Let_def dn_def mix_def del: upt_Suc)
qed

definition key_at :: "nat \<Rightarrow> u32" where
  "key_at i = of_nat (Suc i) * delta"

lemma key_at_Suc: "of_nat i * delta + delta = key_at i" "key_at i - delta = of_nat i * delta"
  by (simp_all add: key_at_def algebra_simps)

lemma encrypt_rounds:
  "length v = Suc n \<Longrightarrow> (let v' = fold (\<lambda>i. ups k (Suc n) (key_at i)) [0..<q] v in
     length v' = Suc n \<and> (enc_round k n ^^ q) (v, v ! n, 0) = (v', v' ! n, of_nat q * delta))"
proof (induction q)
  case (Suc q)
  then show ?case by (simp add: Let_def enc_round_ups key_at_Suc ups_def) (simp add: key_at_def)
qed simp

lemma key_at_nonzero: "q < 2 ^ 32 - 1 \<Longrightarrow> key_at q \<noteq> 0"
proof
  assume q: "q < 2 ^ 32 - 1" and "key_at q = 0"
  then have "of_nat (Suc q) * (delta * delta_inv) = 0" by (simp add: key_at_def mult.assoc [symmetric])
  then have "of_nat (Suc q) = (0 :: u32)" by (simp only: delta_inverse mult_1_right)
  then have "2 ^ 32 dvd Suc q" by (simp add: word_of_nat_eq_0_iff del: of_nat_Suc)
  with q show False by (auto dest: dvd_imp_le)
qed

lemma decrypt_rounds:
  "length v = Suc n \<Longrightarrow> q < 2 ^ 32 \<Longrightarrow>
     dec_loop k n (of_nat q * delta) (v, v ! 0) = fold (\<lambda>i. dns k (Suc n) (key_at i)) (rev [0..<q]) v"
proof (induction q arbitrary: v)
  case 0
  then show ?case by (simp add: dec_loop.simps)
next
  case (Suc q)
  then have "key_at q \<noteq> 0" by (intro key_at_nonzero) simp
  moreover have "length (dns k (Suc n) (key_at q) v) = Suc n" using Suc.prems by (simp add: dns_def)
  ultimately have "dec_loop k n (key_at q) (v, v ! 0) = fold (\<lambda>i. dns k (Suc n) (key_at i)) (rev [0..<Suc q]) v"
    using Suc by (simp add: dec_loop.simps [of k n "key_at q"] dec_round_dns key_at_Suc)
  then show ?case by (simp only: key_at_def)
qed

lemma unat32: "n < 2 ^ 32 \<Longrightarrow> unat (of_nat n :: u32) = n"
  by (simp add: unat_of_nat)

lemma decrypt_encrypt:
  assumes "2 \<le> length v" and "length v < 2 ^ 32"
  shows "\<exists>w. encrypt v k = Some w \<and> length w = length v \<and> decrypt w k = Some v"
proof -
  obtain n where n: "length v = Suc n" "1 \<le> n" using assms(1) by (cases "length v") auto
  let ?len = "of_nat (length v) :: u32" and ?k = "fixk k"
  let ?q = "unat (6 + 52 div ?len)"
  let ?w = "fold (\<lambda>i. ups ?k (Suc n) (key_at i)) [0..<?q] v"
  have un: "unat (?len - 1) = n" using assms(2) n(1) unat32 [of n] by simp
  have nz: "?len \<noteq> 0" using unat32 [OF assms(2)] n(1) by (metis nat.distinct(1) unat_0)
  have enc: "length ?w = Suc n" "encrypt v k = Some ?w"
    using encrypt_rounds [OF n(1), of ?k ?q] un nz n(1) by (simp_all add: encrypt_def Let_def)
  have "fold (\<lambda>i. dns ?k (Suc n) (key_at i)) (rev [0..<?q]) ?w = v"
    using fold_undo [where P = "\<lambda>v. length v = Suc n" and f = "\<lambda>i. ups ?k (Suc n) (key_at i)"
        and g = "\<lambda>i. dns ?k (Suc n) (key_at i)" and xs = "[0..<?q]" and v = v] n dns_ups [of "Suc n"] by simp
  moreover have "dec_loop ?k n (of_nat ?q * delta) (?w, ?w ! 0) = fold (\<lambda>i. dns ?k (Suc n) (key_at i)) (rev [0..<?q]) ?w"
    using unsigned_less [of "6 + 52 div ?len", where ?'a = nat] by (intro decrypt_rounds enc(1)) simp
  ultimately have "decrypt ?w k = Some v" using un nz n(1) enc(1) by (simp add: decrypt_def Let_def)
  with enc n(1) show ?thesis by auto
qed

section \<open>Packing keeps the bytes\<close>

lemma pack_bits:
  assumes "length v = N + r" and "\<And>j. j < N \<Longrightarrow> v ! j = 0"
  shows "m \<le> length bytes \<Longrightarrow> m \<le> 4 * N \<Longrightarrow> (let w = fold (set_byte bytes) [0..<m] v in
    length w = N + r \<and> (\<forall>j. N \<le> j \<longrightarrow> w ! j = v ! j) \<and>
    (\<forall>j b. j < N \<longrightarrow> b < 32 \<longrightarrow> bit (w ! j) b = (4 * j + b div 8 < m \<and> bit (bytes ! (4 * j + b div 8)) (b mod 8))))"
proof (induction m)
  case (Suc m)
  let ?w = "fold (set_byte bytes) [0..<m] v"
  have IH: "length ?w = N + r" "\<And>j. N \<le> j \<Longrightarrow> ?w ! j = v ! j"
    "\<And>j b. j < N \<Longrightarrow> b < 32 \<Longrightarrow> bit (?w ! j) b = (4 * j + b div 8 < m \<and> bit (bytes ! (4 * j + b div 8)) (b mod 8))"
    using Suc by (auto simp: Let_def)
  have m: "m div 4 < N" using Suc.prems by auto
  have bits: "bit (set_byte bytes m ?w ! j) b = (4 * j + b div 8 < Suc m \<and> bit (bytes ! (4 * j + b div 8)) (b mod 8))"
    if j: "j < N" "b < 32" for j b
  proof (cases "j = m div 4")
    case False
    then have "4 * j + b div 8 \<noteq> m" using j(2) by auto
    then show ?thesis using False IH(3) [OF j] by (auto simp: set_byte_def)
  next
    case True
    have "bit (push_bit (8 * (m mod 4)) (ucast (bytes ! m)) :: u32) b \<longleftrightarrow>
        b div 8 = m mod 4 \<and> bit (bytes ! m) (b mod 8)"
    proof (cases "b div 8 = m mod 4")
      case True
      then have "b - 8 * (m mod 4) = b mod 8" "8 * (m mod 4) \<le> b"
        by (metis minus_mult_div_eq_mod, metis times_div_less_eq_dividend)
      moreover have "b mod 8 < 32" by (rule less_trans [of _ 8]) simp_all
      ultimately show ?thesis using True j(2) by (simp add: bit_simps)
    next
      case False
      then have "b < 8 * (m mod 4) \<or> 8 \<le> b - 8 * (m mod 4)" by linarith
      with False show ?thesis by (auto simp: bit_simps dest: bit_imp_le_length)
    qed
    moreover have "b div 8 = m mod 4 \<longleftrightarrow> 4 * j + b div 8 = m"
      using True div_mult_mod_eq [of m 4] by linarith
    ultimately show ?thesis using True IH(3) [OF j] IH(1) j(1) by (auto simp: set_byte_def bit_simps less_Suc_eq)
  qed
  have "length (set_byte bytes m ?w) = N + r" "\<forall>j. N \<le> j \<longrightarrow> set_byte bytes m ?w ! j = v ! j"
    using IH(1,2) m by (auto simp: set_byte_def)
  with bits show ?case by (simp add: Let_def)
qed (use assms in \<open>auto simp: Let_def\<close>)

lemma word_counts:
  assumes "L < 2 ^ 32" and "w = (of_nat L :: u32)"
  shows "unat (if w AND 3 \<noteq> 0 then drop_bit 2 w + 1 else drop_bit 2 w) = (L + 3) div 4"
proof -
  have w: "unat w = L" using assms by (simp add: unat32)
  have "unat (w AND 3) = L mod 4"
    using w unsigned_take_bit_eq [of 2 w, where ?'a = nat] by (simp add: take_bit_eq_mask mask_eq_exp_minus_1 [of 2, where ?'a = u32])
      (simp add: take_bit_eq_mod flip: take_bit_eq_mask)
  then have low: "w AND 3 \<noteq> 0 \<longleftrightarrow> L mod 4 \<noteq> 0" by (metis unat_0 unat_eq_0)
  have quo: "unat (drop_bit 2 w) = L div 4" using w unat_drop_bit_eq [of 2 w] by (simp add: drop_bit_nat_def)
  moreover have "unat (drop_bit 2 w + 1) = Suc (L div 4)"
  proof -
    have "drop_bit 2 w = of_nat (L div 4)" by (simp flip: quo)
    then have "drop_bit 2 w + 1 = of_nat (Suc (L div 4))" by simp
    moreover have "Suc (L div 4) < 2 ^ 32" using assms(1) by simp
    ultimately show ?thesis by (simp only: unat32)
  qed
  ultimately show ?thesis using low by (auto simp: mod_eq_0_iff_dvd, presburger+)
qed

definition unpack :: "u32 list \<Rightarrow> nat \<Rightarrow> u8 list" where
  "unpack v n = map (\<lambda>i. ucast (drop_bit (8 * (i mod 4)) (v ! (i div 4)))) [0..<n]"

lemma toUint32s_ok:
  assumes "length bytes < 2 ^ 32" and "N = (length bytes + 3) div 4"
  shows "length (toUint32s bytes incl) = N + (if incl then 1 else 0)"
    and "incl \<Longrightarrow> toUint32s bytes incl ! N = of_nat (length bytes)"
    and "j < N \<Longrightarrow> b < 32 \<Longrightarrow> bit (toUint32s bytes incl ! j) b =
      (4 * j + b div 8 < length bytes \<and> bit (bytes ! (4 * j + b div 8)) (b mod 8))"
proof -
  let ?v = "replicate N (0 :: u32) @ (if incl then [of_nat (length bytes)] else [])"
  have shape: "toUint32s bytes incl = fold (set_byte bytes) [0..<length bytes] ?v"
    unfolding toUint32s_def Let_def word_counts [OF assms(1) refl] assms(2) [symmetric] unat32 [OF assms(1)] ..
  have len: "length bytes \<le> 4 * N" using assms(2) by simp
  note pb = pack_bits [where v = ?v and N = N and r = "if incl then 1 else 0" and bytes = bytes, OF _ _ order_refl len]
  show "length (toUint32s bytes incl) = N + (if incl then 1 else 0)"
    and "incl \<Longrightarrow> toUint32s bytes incl ! N = of_nat (length bytes)"
    and "j < N \<Longrightarrow> b < 32 \<Longrightarrow> bit (toUint32s bytes incl ! j) b =
      (4 * j + b div 8 < length bytes \<and> bit (bytes ! (4 * j + b div 8)) (b mod 8))"
    unfolding shape using pb by (auto simp: nth_append Let_def)
qed

lemma unpack_pack:
  assumes "length bytes < 2 ^ 32"
  shows "unpack (toUint32s bytes incl) (length bytes) = bytes"
proof (rule nth_equalityI)
  fix i assume "i < length (unpack (toUint32s bytes incl) (length bytes))"
  then have i: "i < length bytes" by (simp add: unpack_def)
  show "unpack (toUint32s bytes incl) (length bytes) ! i = bytes ! i"
  proof (rule bit_word_eqI)
    fix c assume "c < LENGTH(8)"
    then have c: "c < 8" by simp
    have "i mod 4 < 4" by simp
    with c have b: "8 * (i mod 4) + c < 32" by linarith
    have idx: "(8 * (i mod 4) + c) div 8 = i mod 4" "(8 * (i mod 4) + c) mod 8 = c" using c by auto
    have j: "i div 4 < (length bytes + 3) div 4" using i by linarith
    show "bit (unpack (toUint32s bytes incl) (length bytes) ! i) c = bit (bytes ! i) c"
      using toUint32s_ok(3) [OF assms refl j b, of incl] i c b
      unfolding idx by (simp add: unpack_def bit_simps)
  qed
qed (simp add: unpack_def)

lemma pack_unpack:
  assumes "4 * length v < 2 ^ 32"
  shows "toUint32s (unpack v (4 * length v)) False = v"
proof (rule nth_equalityI)
  let ?b = "unpack v (4 * length v)"
  have len: "length ?b = 4 * length v" by (simp add: unpack_def)
  then have L: "length ?b < 2 ^ 32" "length v = (length ?b + 3) div 4" using assms by auto
  show "length (toUint32s ?b False) = length v" using toUint32s_ok(1) [OF L] by simp
  fix j assume "j < length (toUint32s ?b False)"
  then have j: "j < length v" using toUint32s_ok(1) [OF L] by simp
  show "toUint32s ?b False ! j = v ! j"
  proof (rule bit_word_eqI)
    fix b assume "b < LENGTH(32)"
    then have b: "b < 32" by simp
    then have q: "b div 8 < 4" by simp
    have i: "4 * j + b div 8 < 4 * length v" using j q by linarith
    have idx: "(4 * j + b div 8) div 4 = j" "(4 * j + b div 8) mod 4 = b div 8" using q by auto
    have "8 * (b div 8) + b mod 8 = b" by simp
    then show "bit (toUint32s ?b False ! j) b = bit (v ! j) b"
      using toUint32s_ok(3) [OF L j b, of False] i idx b by (simp add: unpack_def bit_simps)
  qed
qed

lemma push2: "push_bit 2 (of_nat n :: u32) = of_nat (4 * n)"
  by (simp add: push_bit_eq_mult)

lemma toBytes_plain: "4 * length v < 2 ^ 32 \<Longrightarrow> toBytes v False = Some (unpack v (4 * length v))"
  unfolding toBytes_def Let_def push2 by (simp add: unat32 unpack_def del: of_nat_mult)

lemma toBytes_pack:
  assumes "data \<noteq> []" and "length data + 8 \<le> 2 ^ 32"
  shows "toBytes (toUint32s data True) True = Some data"
proof -
  define N where "N = (length data + 3) div 4"
  let ?v = "toUint32s data True"
  have L: "length data < 2 ^ 32" using assms(2) by simp
  note ok = toUint32s_ok [OF L N_def, where incl = True]
  have "1 \<le> length data" using assms(1) by (cases data) auto
  then have N: "1 \<le> N" "4 * N \<le> length data + 3" "length data \<le> 4 * N" unfolding N_def by linarith+
  have len: "of_nat (length ?v) - 1 = (of_nat N :: u32)" using ok(1) by simp
  have nth: "go_nth ?v (uint (of_nat N :: u32)) = Some (of_nat (length data))"
    using ok(1,2) N assms(2) unat32 [of N] by (simp flip: unat_eq_nat_uint int_nat_eq) (simp add: uint_nat)
  have n: "push_bit 2 (of_nat (length ?v)) - 4 = (of_nat (4 * N) :: u32)"
    unfolding push2 using ok(1) by (simp add: algebra_simps)
  have n3: "of_nat (4 * N) - 3 = (of_nat (4 * N - 3) :: u32)" using N(1) by (subst of_nat_diff) auto
  have "\<not> (of_nat (length data) :: u32) < of_nat (4 * N - 3)" "\<not> of_nat (4 * N) < (of_nat (length data) :: u32)"
    using N assms(2) unat32 [of "length data"] unat32 [of "4 * N - 3"] unat32 [of "4 * N"]
    unfolding word_less_nat_alt by (simp_all del: of_nat_mult)
  then show ?thesis using unpack_pack [OF L, of True] unat32 [OF L]
    unfolding toBytes_def Let_def len n n3 by (simp add: nth unpack_def)
qed

text \<open>
  C24.  \<open>Decrypt\<close> undoes \<open>Encrypt\<close> under every key: neither panics, and the plain text comes back byte
  for byte, whatever its length, as long as it can be counted in 32 bits.
\<close>

theorem Decrypt_Encrypt:
  assumes "length data + 8 \<le> 2 ^ 32"
  shows "\<exists>c. Encrypt data key = Some c \<and> Decrypt c key = Some data"
proof (cases "data = []")
  case False
  let ?v = "toUint32s data True" and ?k = "toUint32s key False"
  have L: "length data < 2 ^ 32" using assms by simp
  have len: "length ?v = Suc ((length data + 3) div 4)" using toUint32s_ok(1) [OF L refl, of True] by simp
  have "1 \<le> length data" using False by (cases data) auto
  then have N1: "1 \<le> (length data + 3) div 4" by linarith
  have big: "4 * length ?v < 2 ^ 32" "2 \<le> length ?v" "length ?v < 2 ^ 32" using assms N1 unfolding len by auto
  from decrypt_encrypt [OF big(2,3), of ?k] obtain w where
    w: "encrypt ?v ?k = Some w" "length w = length ?v" "decrypt w ?k = Some ?v" by blast
  have "4 * length w < 2 ^ 32" using w(2) big(1) by simp
  then have "toBytes w False = Some (unpack w (4 * length w))" "toUint32s (unpack w (4 * length w)) False = w"
    by (simp_all only: toBytes_plain pack_unpack)
  moreover have "unpack w (4 * length w) \<noteq> []" using w(2) big(2) by (auto simp: unpack_def)
  ultimately show ?thesis using w False toBytes_pack [OF False assms] by (simp add: Encrypt_def Decrypt_def)
qed (simp add: Encrypt_def Decrypt_def)

lemma Decrypt_Encrypt_witness: "\<exists>c. Encrypt [104, 105] [1, 2, 3] = Some c \<and> Decrypt c [1, 2, 3] = Some [104, 105]"
  using Decrypt_Encrypt [of "[104, 105]" "[1, 2, 3]"] by simp

end
