(* ===== verification/Strconv.thy ===== *)
theory Strconv
  imports Prelude
begin

text \<open>
  The decimal conversions of the Go standard library that the sources use: the \<open>%d\<close> verb and
  \<open>ParseUint\<close>, \<open>ParseInt\<close> and \<open>Atoi\<close> of \<^verbatim>\<open>strconv\<close> in base 10.  A parse returns the number and whether
  the error is nil; as documented the number is 0 after a syntax error and the nearest representable
  number after a range error.  Go strings are byte sequences, here HOL strings.
\<close>

section \<open>Printing\<close>

definition digit_char :: "nat \<Rightarrow> char" where
  "digit_char d = char_of (48 + d)"

fun fmt_nat :: "nat \<Rightarrow> string" where
  "fmt_nat n = (if n < 10 then [digit_char n] else fmt_nat (n div 10) @ [digit_char (n mod 10)])"

declare fmt_nat.simps [simp del]

definition fmt_int :: "int \<Rightarrow> string" where
  "fmt_int n = (if n < 0 then CHR ''-'' # fmt_nat (nat (- n)) else fmt_nat (nat n))"

section \<open>Parsing\<close>

definition is_digit :: "char \<Rightarrow> bool" where
  "is_digit c \<longleftrightarrow> (48 :: nat) \<le> of_char c \<and> of_char c \<le> (57 :: nat)"

definition digit_val :: "char \<Rightarrow> nat" where
  "digit_val c = of_char c - 48"

fun parse_digits :: "nat \<Rightarrow> string \<Rightarrow> nat \<Rightarrow> nat \<times> bool" where
  "parse_digits mx [] n = (n, True)"
| "parse_digits mx (c # cs) n =
     (if is_digit c then
        (let n' = n * 10 + digit_val c in if mx < n' then (mx, False) else parse_digits mx cs n')
      else (0, False))"

definition ParseUint :: "nat \<Rightarrow> string \<Rightarrow> nat \<times> bool" where
  "ParseUint bits s = (if s = [] then (0, False) else parse_digits (2 ^ bits - 1) s 0)"

text \<open>
  \<open>ParseInt\<close> strips a sign, parses the rest as unsigned and clamps.  A range error of the inner parse
  leaves the largest unsigned number, which the clamping catches.
\<close>

definition parse_signed :: "nat \<Rightarrow> bool \<Rightarrow> string \<Rightarrow> int \<times> bool" where
  "parse_signed bits neg s =
     (case ParseUint bits s of (un, good) \<Rightarrow>
        if \<not> good \<and> un \<noteq> 2 ^ bits - 1 then (0, False)
        else if \<not> neg \<and> un \<ge> 2 ^ (bits - 1) then (2 ^ (bits - 1) - 1, False)
        else if neg \<and> un > 2 ^ (bits - 1) then (- (2 ^ (bits - 1)), False)
        else (if neg then - int un else int un, True))"

definition ParseInt :: "nat \<Rightarrow> string \<Rightarrow> int \<times> bool" where
  "ParseInt bits s =
     (case s of [] \<Rightarrow> (0, False)
      | c # cs \<Rightarrow> if c = CHR ''+'' then parse_signed bits False cs
                 else if c = CHR ''-'' then parse_signed bits True cs
                 else parse_signed bits False s)"

definition Atoi :: "string \<Rightarrow> int \<times> bool" where
  "Atoi s = ParseInt 64 s"

section \<open>Digits\<close>

lemma digit_char_of [simp]: "d < 10 \<Longrightarrow> of_char (digit_char d) = 48 + d"
  by (simp add: digit_char_def of_char_of take_bit_eq_mod)

lemma is_digit_char [simp]: "d < 10 \<Longrightarrow> is_digit (digit_char d)"
  by (simp add: is_digit_def)

lemma digit_val_char [simp]: "d < 10 \<Longrightarrow> digit_val (digit_char d) = d"
  by (simp add: digit_val_def)

lemma fmt_nat_small [simp]: "n < 10 \<Longrightarrow> fmt_nat n = [digit_char n]"
  by (simp add: fmt_nat.simps)

lemma fmt_nat_large: "10 \<le> n \<Longrightarrow> fmt_nat n = fmt_nat (n div 10) @ [digit_char (n mod 10)]"
  by (simp add: fmt_nat.simps [of n])

lemma fmt_nat_digits: "c \<in> set (fmt_nat n) \<Longrightarrow> is_digit c"
proof (induction n rule: fmt_nat.induct)
  case (1 n)
  then show ?case by (cases "n < 10") (auto simp: fmt_nat_large)
qed

lemma fmt_nat_ne [simp]: "fmt_nat n \<noteq> []"
  by (cases "n < 10") (auto simp: fmt_nat_large)

lemma not_digit [simp]:
  "\<not> is_digit (CHR ''-'')" "\<not> is_digit (CHR ''+'')" "\<not> is_digit (CHR 0x0A)" "\<not> is_digit (CHR 0x0D)"
  by (simp_all add: is_digit_def)

lemma fmt_nat_first: "fmt_nat n = c # cs \<Longrightarrow> is_digit c"
  using fmt_nat_digits [of c n] by simp

section \<open>Round trips\<close>

lemma parse_digits_append:
  "n \<le> mx \<Longrightarrow> parse_digits mx (xs @ [c]) n =
     (case parse_digits mx xs n of (m, good) \<Rightarrow> if good then parse_digits mx [c] m else (m, good))"
  by (induction xs arbitrary: n) (auto simp: Let_def)

lemma parse_digits_fmt: "n \<le> mx \<Longrightarrow> parse_digits mx (fmt_nat n) 0 = (n, True)"
proof (induction n rule: fmt_nat.induct)
  case (1 n)
  show ?case
  proof (cases "n < 10")
    case True
    then show ?thesis using 1 by simp
  next
    case False
    then have "parse_digits mx (fmt_nat (n div 10)) 0 = (n div 10, True)" using 1 by simp
    then show ?thesis using False 1 by (simp add: fmt_nat_large parse_digits_append Let_def)
  qed
qed

lemma fmt_nat_inject: "fmt_nat m = fmt_nat n \<Longrightarrow> m = n"
  by (metis max.cobounded1 max.cobounded2 parse_digits_fmt prod.inject)

lemma fmt_int_inject: "fmt_int a = fmt_int b \<Longrightarrow> a = b"
  using fmt_nat_first [of "nat a" "CHR ''-''" "fmt_nat (nat (- b))"] fmt_nat_first [of "nat b" "CHR ''-''" "fmt_nat (nat (- a))"]
  by (auto simp: fmt_int_def dest: fmt_nat_inject split: if_splits)

lemma ParseUint_fmt: "n < 2 ^ bits \<Longrightarrow> ParseUint bits (fmt_nat n) = (n, True)"
  by (simp add: ParseUint_def parse_digits_fmt)

lemma parse_signed_fmt:
  assumes "0 < bits" and "if neg then n \<le> 2 ^ (bits - 1) else n < 2 ^ (bits - 1)"
  shows "parse_signed bits neg (fmt_nat n) = (if neg then - int n else int n, True)"
proof -
  have "(2 :: nat) ^ (bits - 1) < 2 ^ bits" using assms(1) by (intro power_strict_increasing) auto
  moreover have "n \<le> 2 ^ (bits - 1)" using assms(2) by (cases neg) auto
  ultimately have "n < 2 ^ bits" by linarith
  then show ?thesis using assms(2) by (auto simp: parse_signed_def ParseUint_fmt split: if_splits)
qed

lemma ParseInt_fmt:
  assumes "0 < bits" and "- (2 ^ (bits - 1)) \<le> n" and "n < 2 ^ (bits - 1)"
  shows "ParseInt bits (fmt_int n) = (n, True)"
proof (cases "n < 0")
  case True
  have "nat (- n) \<le> nat (2 ^ (bits - 1))" using assms by (intro nat_mono) simp
  then have "nat (- n) \<le> 2 ^ (bits - 1)" by (simp add: nat_power_eq)
  then show ?thesis using True assms(1) by (simp add: ParseInt_def fmt_int_def parse_signed_fmt)
next
  case False
  obtain c cs where c: "fmt_nat (nat n) = c # cs" by (cases "fmt_nat (nat n)") auto
  then have "c \<noteq> CHR ''+'' \<and> c \<noteq> CHR ''-''" using fmt_nat_first [OF c] by auto
  moreover have "nat n < nat (2 ^ (bits - 1))" using False assms(3) by (simp add: nat_less_iff)
  then have "nat n < 2 ^ (bits - 1)" by (simp add: nat_power_eq)
  ultimately show ?thesis using False assms(1) parse_signed_fmt [of bits False "nat n"]
    by (simp add: ParseInt_def fmt_int_def c)
qed

text \<open>Every result is in the range of the type, whatever the text.\<close>

lemma parse_digits_bound: "n \<le> mx \<Longrightarrow> fst (parse_digits mx s n) \<le> mx"
  by (induction s arbitrary: n) (auto simp: Let_def)

lemma ParseUint_bound: "fst (ParseUint bits s) < 2 ^ bits"
proof -
  have "fst (ParseUint bits s) \<le> 2 ^ bits - 1" by (simp add: ParseUint_def parse_digits_bound)
  moreover have "(0 :: nat) < 2 ^ bits" by simp
  ultimately show ?thesis by linarith
qed

lemma ParseInt_bound:
  assumes "0 < bits"
  shows "- (2 ^ (bits - 1)) \<le> fst (ParseInt bits s) \<and> fst (ParseInt bits s) < 2 ^ (bits - 1)"
proof -
  have "- (2 ^ (bits - 1)) \<le> fst (parse_signed bits neg t) \<and> fst (parse_signed bits neg t) < 2 ^ (bits - 1)" for neg t
  proof -
    obtain un good where u: "ParseUint bits t = (un, good)" by fastforce
    have clamp: "- int H \<le> fst (if g then (0, False) else if \<not> neg \<and> un \<ge> H then (int H - 1, False)
          else if neg \<and> un > H then (- int H, False) else (if neg then - int un else int un, True)) \<and>
        fst (if g then (0, False) else if \<not> neg \<and> un \<ge> H then (int H - 1, False)
          else if neg \<and> un > H then (- int H, False) else (if neg then - int un else int un, True)) < int H"
      if "0 < H" for H g using that by auto
    have pow: "int (2 ^ (bits - 1)) = (2 ^ (bits - 1) :: int)" by simp
    have "(0 :: nat) < 2 ^ (bits - 1)" by simp
    from clamp [OF this, unfolded pow] show ?thesis unfolding parse_signed_def u prod.case .
  qed
  then show ?thesis by (cases s) (auto simp: ParseInt_def)
qed

end
