(* ===== verification/Utf8.thy ===== *)
theory Utf8
  imports Strconv
begin

text \<open>
  The conversions between Go strings and rune slices, \<open>[]rune(s)\<close> and \<open>string(rs)\<close>, and
  \<open>utf8.ValidString\<close>, as the language defines them: every byte that does not start a well-formed
  sequence becomes the replacement character, and every number that is not a Unicode scalar value is
  written as it.  Bytes and runes are natural numbers here.
\<close>

definition go_bytes :: "string \<Rightarrow> nat list" where
  "go_bytes s = map of_char s"

definition of_bytes :: "nat list \<Rightarrow> string" where
  "of_bytes bs = map char_of bs"

definition cont :: "nat \<Rightarrow> bool" where
  "cont b \<longleftrightarrow> 0x80 \<le> b \<and> b \<le> 0xBF"

text \<open>The rune that starts with byte \<open>b\<close> and the number of bytes that follow it.\<close>

definition utf8_first :: "nat \<Rightarrow> nat list \<Rightarrow> (nat \<times> nat) option" where
  "utf8_first b bs =
     (if b < 0x80 then Some (b, 0)
      else if 0xC2 \<le> b \<and> b \<le> 0xDF then
        (case bs of c1 # _ \<Rightarrow> if cont c1 then Some ((b - 0xC0) * 64 + (c1 - 0x80), 1) else None | _ \<Rightarrow> None)
      else if 0xE0 \<le> b \<and> b \<le> 0xEF then
        (case bs of c1 # c2 # _ \<Rightarrow>
           if cont c1 \<and> cont c2 \<and> (b = 0xE0 \<longrightarrow> 0xA0 \<le> c1) \<and> (b = 0xED \<longrightarrow> c1 \<le> 0x9F)
           then Some (((b - 0xE0) * 64 + (c1 - 0x80)) * 64 + (c2 - 0x80), 2) else None | _ \<Rightarrow> None)
      else if 0xF0 \<le> b \<and> b \<le> 0xF4 then
        (case bs of c1 # c2 # c3 # _ \<Rightarrow>
           if cont c1 \<and> cont c2 \<and> cont c3 \<and> (b = 0xF0 \<longrightarrow> 0x90 \<le> c1) \<and> (b = 0xF4 \<longrightarrow> c1 \<le> 0x8F)
           then Some ((((b - 0xF0) * 64 + (c1 - 0x80)) * 64 + (c2 - 0x80)) * 64 + (c3 - 0x80), 3) else None | _ \<Rightarrow> None)
      else None)"

fun decode_runes :: "nat list \<Rightarrow> nat list" where
  "decode_runes [] = []"
| "decode_runes (b # bs) =
     (case utf8_first b bs of
        Some (r, k) \<Rightarrow> r # decode_runes (drop k bs)
      | None \<Rightarrow> 0xFFFD # decode_runes bs)"

fun valid_utf8 :: "nat list \<Rightarrow> bool" where
  "valid_utf8 [] = True"
| "valid_utf8 (b # bs) = (case utf8_first b bs of Some (r, k) \<Rightarrow> valid_utf8 (drop k bs) | None \<Rightarrow> False)"

definition scalar :: "nat \<Rightarrow> bool" where
  "scalar r \<longleftrightarrow> r \<le> 0x10FFFF \<and> \<not> (0xD800 \<le> r \<and> r \<le> 0xDFFF)"

definition encode_rune :: "nat \<Rightarrow> nat list" where
  "encode_rune r =
     (if \<not> scalar r then [0xEF, 0xBF, 0xBD]
      else if r < 0x80 then [r]
      else if r < 0x800 then [0xC0 + r div 64, 0x80 + r mod 64]
      else if r < 0x10000 then [0xE0 + r div 4096, 0x80 + r div 64 mod 64, 0x80 + r mod 64]
      else [0xF0 + r div 262144, 0x80 + r div 4096 mod 64, 0x80 + r div 64 mod 64, 0x80 + r mod 64])"

definition go_runes :: "string \<Rightarrow> nat list" where
  "go_runes s = decode_runes (go_bytes s)"

definition of_runes :: "nat list \<Rightarrow> string" where
  "of_runes rs = of_bytes (concat (map encode_rune rs))"

definition ValidString :: "string \<Rightarrow> bool" where
  "ValidString s = valid_utf8 (go_bytes s)"

section \<open>Round trip\<close>

lemma cont_low [simp]: "cont (0x80 + n mod 64)"
  using mod_less_divisor [of 64 n] by (simp add: cont_def del: mod_less_divisor)

lemma utf8_first_encode:
  assumes "scalar r"
  shows "\<exists>b cs. encode_rune r = b # cs \<and> utf8_first b (cs @ bs) = Some (r, length cs)"
proof -
  have r: "r \<le> 0x10FFFF" "\<not> (0xD800 \<le> r \<and> r \<le> 0xDFFF)" using assms by (auto simp: scalar_def)
  consider "r < 0x80" | "0x80 \<le> r" "r < 0x800" | "0x800 \<le> r" "r < 0x10000" | "0x10000 \<le> r" by linarith
  then show ?thesis
  proof cases
    case 1
    then show ?thesis using assms by (simp add: encode_rune_def utf8_first_def)
  next
    case 2
    have "2 \<le> r div 64" "r div 64 \<le> 0x1F" using 2 by auto
    then have "utf8_first (0xC0 + r div 64) ((0x80 + r mod 64) # bs) = Some (r div 64 * 64 + r mod 64, 1)"
      by (simp add: utf8_first_def)
    with 2 assms show ?thesis by (simp add: encode_rune_def)
  next
    case 3
    let ?h = "r div 4096" and ?m = "r div 64 mod 64"
    have q: "r div 64 div 64 = ?h" by (simp add: div_mult2_eq [symmetric])
    have d: "r div 64 = 64 * ?h + ?m" "?m < 64" using q div_mult_mod_eq [of "r div 64" 64] by auto
    have "0x20 \<le> r div 64" "r div 64 \<le> 0x3FF" using 3 by auto
    moreover have "r div 64 < 0x360 \<or> 0x37F < r div 64" using r(2) by linarith
    ultimately have h: "?h \<le> 0xF" "?h = 0 \<Longrightarrow> 0x20 \<le> ?m" "?h = 0xD \<Longrightarrow> ?m \<le> 0x1F" using d by linarith+
    have "(?h * 64 + ?m) * 64 + r mod 64 = r" using q by (metis div_mult_mod_eq)
    with h have "utf8_first (0xE0 + ?h) ((0x80 + ?m) # (0x80 + r mod 64) # bs) = Some (r, 2)"
      by (simp add: utf8_first_def)
    with 3 assms show ?thesis by (simp add: encode_rune_def)
  next
    case 4
    let ?h = "r div 262144" and ?m1 = "r div 4096 mod 64" and ?m = "r div 64 mod 64"
    have q: "r div 4096 div 64 = ?h" "r div 64 div 64 = r div 4096" by (simp_all add: div_mult2_eq [symmetric])
    have d: "r div 4096 = 64 * ?h + ?m1" "?m1 < 64" using q(1) div_mult_mod_eq [of "r div 4096" 64] by auto
    have "0x10 \<le> r div 4096" "r div 4096 \<le> 0x10F" using 4 r(1) by auto
    then have h: "?h \<le> 4" "?h = 0 \<Longrightarrow> 0x10 \<le> ?m1" "?h = 4 \<Longrightarrow> ?m1 \<le> 0xF" using d by linarith+
    have "((?h * 64 + ?m1) * 64 + ?m) * 64 + r mod 64 = r" using q by (metis div_mult_mod_eq)
    with h have "utf8_first (0xF0 + ?h) ((0x80 + ?m1) # (0x80 + ?m) # (0x80 + r mod 64) # bs) = Some (r, 3)"
      by (simp add: utf8_first_def)
    with 4 assms show ?thesis by (simp add: encode_rune_def)
  qed
qed

lemma decode_encode_rune: "scalar r \<Longrightarrow> decode_runes (encode_rune r @ bs) = r # decode_runes bs"
  using utf8_first_encode [of r bs] by auto

lemma valid_encode_rune: "scalar r \<Longrightarrow> valid_utf8 (encode_rune r @ bs) = valid_utf8 bs"
  using utf8_first_encode [of r bs] by auto

lemma encode_rune_bytes: "b \<in> set (encode_rune r) \<Longrightarrow> b < 256"
  by (auto simp: encode_rune_def scalar_def split: if_splits)

lemma go_bytes_of_bytes: "(\<And>b. b \<in> set bs \<Longrightarrow> b < 256) \<Longrightarrow> go_bytes (of_bytes bs) = bs"
  by (auto simp: go_bytes_def of_bytes_def of_char_of take_bit_eq_mod intro!: map_idI)

lemma go_bytes_of_runes: "go_bytes (of_runes rs) = concat (map encode_rune rs)"
  unfolding of_runes_def by (intro go_bytes_of_bytes) (auto dest: encode_rune_bytes)

lemma runes_round_trip: "(\<And>r. r \<in> set rs \<Longrightarrow> scalar r) \<Longrightarrow> go_runes (of_runes rs) = rs"
  unfolding go_runes_def go_bytes_of_runes by (induction rs) (simp_all add: decode_encode_rune)

lemma ValidString_of_runes: "(\<And>r. r \<in> set rs \<Longrightarrow> scalar r) \<Longrightarrow> ValidString (of_runes rs)"
  unfolding ValidString_def go_bytes_of_runes by (induction rs) (simp_all add: valid_encode_rune)

text \<open>Text of single-byte characters is its own sequence of runes.\<close>

lemma go_runes_ascii: "(\<And>c. c \<in> set s \<Longrightarrow> (of_char c :: nat) < 128) \<Longrightarrow> go_runes s = map of_char s"
  unfolding go_runes_def go_bytes_def by (induction s) (simp_all add: utf8_first_def)

lemma encode_ascii: "r < 128 \<Longrightarrow> encode_rune r = [r]"
  by (simp add: encode_rune_def scalar_def)

lemma of_runes_ascii: "(\<And>r. r \<in> set rs \<Longrightarrow> r < 128) \<Longrightarrow> of_runes rs = map char_of rs"
  unfolding of_runes_def of_bytes_def by (induction rs) (simp_all add: encode_ascii)

end
