(* ===== verification/Encodings.thy ===== *)
theory Encodings
  imports Utf8
begin

text \<open>
  Encodings of numbers in \<^verbatim>\<open>src/basic/utils/utils.go\<close>: base 62 text, IPv4 addresses as numbers and dotted
  text, and big-endian bytes.  A panic is \<open>None\<close>; Go's \<open>int\<close> has 64 bits.
\<close>

unbundle bit_operations_syntax

section \<open>Base 62\<close>

definition base :: string where
  "base = ''abcdefghijklmnopqrstuvwxyzABCDEFGHIJKLMNOPQRSTUVWXYZ1234567890''"

definition flip :: "string \<Rightarrow> char \<rightharpoonup> u64" where
  "flip s = map_of (rev (zip s (map of_nat [0..<length s])))"

definition flipbase :: "char \<Rightarrow> u64" where
  "flipbase c = (case flip base c of Some v \<Rightarrow> v | None \<Rightarrow> 0)"

lemma quot62: "(num - num mod 62) div 62 = num div 62" for num :: u64
proof -
  have "unat (num mod 62) = unat num mod 62" by (simp add: unat_mod)
  moreover have "num mod 62 \<le> num" by (simp add: word_le_nat_alt unat_mod)
  ultimately have "unat (num - num mod 62) = unat num - unat num mod 62" by (simp add: unat_sub)
  then have "unat ((num - num mod 62) div 62) = unat (num div 62)"
    by (simp add: unat_div minus_mod_eq_mult_div [of "unat num" 62])
  then show ?thesis by (simp only: word_unat_eq_iff)
qed

lemma quot62_less: "num \<noteq> 0 \<Longrightarrow> unat (num div 62) < unat num" for num :: u64
  by (simp add: unat_div unat_gt_0)

function Base62encode :: "u64 \<Rightarrow> string" where
  "Base62encode num =
     (if num = 0 then []
      else (let i = num mod 62 in base ! unat i # Base62encode ((num - i) div 62)))"
  by pat_completeness auto
termination
  by (relation "measure unat") (auto simp: quot62 quot62_less)

declare Base62encode.simps [simp del]

text \<open>
  The powers are computed with \<open>math.Pow\<close> on floats and converted: exact up to the tenth, whose odd part
  fits the mantissa; the conversion of the later ones, which exceed 64 bits, is left to the platform and
  is the parameter \<open>fpow\<close>.
\<close>

definition pow62 :: "(nat \<Rightarrow> u64) \<Rightarrow> nat \<Rightarrow> u64" where
  "pow62 fpow i = (if i \<le> 10 then 62 ^ i else fpow i)"

definition Base62decode :: "(nat \<Rightarrow> u64) \<Rightarrow> string \<Rightarrow> u64" where
  "Base62decode fpow s = fold (\<lambda>i rs. rs + flipbase (s ! i) * pow62 fpow i) [0..<length s] 0"

lemma length_base: "length base = 62"
  by (simp add: base_def)

lemma flipbase_base: "i < 62 \<Longrightarrow> flipbase (base ! i) = of_nat i"
proof -
  assume i: "i < 62"
  have "distinct base" by (simp add: base_def)
  then have "distinct (map fst (rev (zip base (map of_nat [0..<length base] :: u64 list))))"
    by (simp add: rev_map [symmetric])
  moreover have "(base ! i, of_nat i) \<in> set (rev (zip base (map of_nat [0..<length base] :: u64 list)))"
    using i by (auto simp: in_set_zip length_base)
  ultimately have "flip base (base ! i) = Some (of_nat i)" by (simp add: flip_def)
  then show ?thesis by (simp add: flipbase_def)
qed

fun value62 :: "string \<Rightarrow> u64" where
  "value62 [] = 0"
| "value62 (c # cs) = flipbase c + 62 * value62 cs"

lemma value62_snoc: "value62 (cs @ [c]) = value62 cs + flipbase c * 62 ^ length cs"
  by (induction cs) (simp_all add: algebra_simps)

lemma decode_value: "length s \<le> 11 \<Longrightarrow> Base62decode fpow s = value62 s"
proof -
  assume len: "length s \<le> 11"
  have "m \<le> length s \<Longrightarrow> fold (\<lambda>i rs. rs + flipbase (s ! i) * pow62 fpow i) [0..<m] 0 = value62 (take m s)" for m
  proof (induction m)
    case (Suc m)
    then have "take (Suc m) s = take m s @ [s ! m]" by (simp add: take_Suc_conv_app_nth)
    moreover have "length (take m s) = m" "m \<le> 10" using Suc.prems len by auto
    ultimately show ?case using Suc by (simp add: value62_snoc pow62_def)
  qed simp
  from this [of "length s"] show ?thesis by (simp add: Base62decode_def)
qed

lemma encode_step:
  "num \<noteq> 0 \<Longrightarrow> Base62encode num = base ! unat (num mod 62) # Base62encode (num div 62)"
  by (subst Base62encode.simps) (simp add: quot62)

lemma value_encode: "value62 (Base62encode num) = num"
proof (induction "unat num" arbitrary: num rule: less_induct)
  case less
  show ?case
  proof (cases "num = 0")
    case True
    then show ?thesis by (simp add: Base62encode.simps)
  next
    case False
    then have IH: "value62 (Base62encode (num div 62)) = num div 62" using less quot62_less by blast
    have "unat (num mod 62) < 62" by (simp add: unat_mod)
    then have "flipbase (base ! unat (num mod 62)) = num mod 62" by (simp add: flipbase_base)
    moreover have "num mod 62 + 62 * (num div 62) = num" by (rule mod_mult_div_eq)
    ultimately show ?thesis using False IH by (simp add: encode_step)
  qed
qed

lemma length_encode: "unat num < 62 ^ k \<Longrightarrow> length (Base62encode num) \<le> k"
proof (induction k arbitrary: num)
  case 0
  then show ?case by (simp add: Base62encode.simps unat_eq_0)
next
  case (Suc k)
  then have "unat (num div 62) < 62 ^ k" by (simp add: unat_div less_mult_imp_div_less mult.commute)
  then show ?case using Suc.IH [of "num div 62"] by (cases "num = 0") (simp_all add: encode_step Base62encode.simps [of 0])
qed

text \<open>
  C27.  \<open>Base62decode\<close> undoes \<open>Base62encode\<close> on all of \<open>uint64\<close>: an encoded number has at most eleven
  characters, so no inexact power is ever used.
\<close>

theorem Base62_roundtrip: "Base62decode fpow (Base62encode num) = num \<and> length (Base62encode num) \<le> 11"
proof -
  have "unat num < 2 ^ 64" using unsigned_less [of num, where ?'a = nat] by simp
  also have "(2 :: nat) ^ 64 \<le> 62 ^ 11" by simp
  finally have "length (Base62encode num) \<le> 11" by (rule length_encode)
  then show ?thesis by (simp add: decode_value value_encode)
qed

section \<open>IPv4 addresses\<close>

text \<open>An IPv4 address \<open>net.IP\<close> is its four bytes, printed in dotted form; \<open>strings.Split\<close> cuts at every dot.\<close>

type_synonym ipv4 = "u8 \<times> u8 \<times> u8 \<times> u8"

definition ip_String :: "ipv4 \<Rightarrow> string" where
  "ip_String = (\<lambda>(a, b, c, d).
     fmt_nat (unat a) @ ''.'' @ fmt_nat (unat b) @ ''.'' @ fmt_nat (unat c) @ ''.'' @ fmt_nat (unat d))"

fun split_dots :: "string \<Rightarrow> string list" where
  "split_dots [] = [[]]"
| "split_dots (c # cs) =
     (if c = CHR ''.'' then [] # split_dots cs
      else (case split_dots cs of w # ws \<Rightarrow> (c # w) # ws | [] \<Rightarrow> [[c]]))"

definition InetTontoa :: "u32 \<Rightarrow> ipv4" where
  "InetTontoa ipnr =
     (let b0 = ucast (ipnr AND 0xFF);
          b1 = ucast (drop_bit 8 ipnr AND 0xFF);
          b2 = ucast (drop_bit 16 ipnr AND 0xFF);
          b3 = ucast (drop_bit 24 ipnr AND 0xFF)
      in (b3, b2, b1, b0))"

definition InetToaton :: "string \<Rightarrow> u32 option" where
  "InetToaton ipnr =
     (let bits = split_dots ipnr
      in if length bits < 4 then None
         else Some (push_bit 24 (of_int (fst (Atoi (bits ! 0)))) + push_bit 16 (of_int (fst (Atoi (bits ! 1))))
           + push_bit 8 (of_int (fst (Atoi (bits ! 2)))) + of_int (fst (Atoi (bits ! 3)))))"

definition InetTobton :: "ipv4 \<Rightarrow> u32 option" where
  "InetTobton ipnr =
     (let bits = split_dots (ip_String ipnr)
      in if length bits < 4 then None
         else Some (push_bit 24 (of_int (fst (Atoi (bits ! 0)))) + push_bit 16 (of_int (fst (Atoi (bits ! 1))))
           + push_bit 8 (of_int (fst (Atoi (bits ! 2)))) + of_int (fst (Atoi (bits ! 3)))))"

lemma split_dots_word: "CHR ''.'' \<notin> set w \<Longrightarrow> split_dots (w @ CHR ''.'' # s) = w # split_dots s"
  by (induction w) auto

lemma split_dots_last: "CHR ''.'' \<notin> set w \<Longrightarrow> split_dots w = [w]"
  by (induction w) auto

lemma fmt_nat_no_dot: "CHR ''.'' \<notin> set (fmt_nat n)"
  using fmt_nat_digits [of "CHR ''.''" n] by (auto simp: is_digit_def)

lemma split_ip: "split_dots (ip_String (a, b, c, d)) = map (\<lambda>x. fmt_nat (unat x)) [a, b, c, d]"
  by (simp add: ip_String_def split_dots_word split_dots_last fmt_nat_no_dot)

lemma Atoi_small: "n < 256 \<Longrightarrow> Atoi (fmt_nat n) = (int n, True)"
  using ParseInt_fmt [of 64 "int n"] by (simp add: Atoi_def fmt_int_def)

lemma Atoi_byte: "Atoi (fmt_nat (unat x)) = (int (unat x), True)" for x :: u8
  using unsigned_less [of x, where ?'a = nat] by (intro Atoi_small) simp

text \<open>Four bytes, most significant first, as one number.\<close>

definition join4 :: "u8 \<Rightarrow> u8 \<Rightarrow> u8 \<Rightarrow> u8 \<Rightarrow> u32" where
  "join4 a b c d = push_bit 24 (ucast a) OR push_bit 16 (ucast b) OR push_bit 8 (ucast c) OR ucast d"

definition byte_of :: "nat \<Rightarrow> u32 \<Rightarrow> u8" where
  "byte_of k n = ucast (drop_bit k n)"

lemma bit_join4: "k < 32 \<Longrightarrow> bit (join4 a b c d) k =
    bit (if k < 8 then d else if k < 16 then c else if k < 24 then b else a) (k mod 8)"
proof -
  assume "k < 32"
  then consider "k < 8" | "8 \<le> k" "k < 16" | "16 \<le> k" "k < 24" | "24 \<le> k" "k < 32" by linarith
  then show ?thesis
  proof cases
    case 1
    then show ?thesis by (simp add: join4_def bit_simps)
  next
    case 2
    then have "k - 8 = k mod 8" by (simp add: mod_if)
    with 2 show ?thesis by (auto simp: join4_def bit_simps dest: bit_imp_le_length)
  next
    case 3
    then have "k - 16 = k mod 8" by (simp add: mod_if)
    with 3 show ?thesis by (auto simp: join4_def bit_simps dest: bit_imp_le_length)
  next
    case 4
    then have "k - 24 = k mod 8" by (simp add: mod_if)
    with 4 show ?thesis by (auto simp: join4_def bit_simps dest: bit_imp_le_length)
  qed
qed

lemma bytes_sum: "push_bit 24 (ucast a) + push_bit 16 (ucast b) + push_bit 8 (ucast c) + ucast d = join4 a b c d"
proof -
  let ?a = "push_bit 24 (ucast a) :: u32" and ?b = "push_bit 16 (ucast b) :: u32" and ?c = "push_bit 8 (ucast c) :: u32"
  have "?a AND ?b = 0" "(?a OR ?b) AND ?c = 0" "(?a OR ?b OR ?c) AND ucast d = 0"
    by (rule bit_word_eqI, auto simp: bit_simps dest: bit_imp_le_length)+
  then show ?thesis by (simp add: disjunctive_add_eq_or join4_def or.assoc)
qed

lemma join4_bytes: "join4 (byte_of 24 n) (byte_of 16 n) (byte_of 8 n) (byte_of 0 n) = n"
proof (rule bit_word_eqI)
  fix k assume "k < LENGTH(32)"
  then have k: "k < 32" by simp
  have "(if k < 8 then 0 else if k < 16 then 8 else if k < 24 then 16 else 24) + k mod 8 = k"
    using k by (auto simp: mod_if)
  then show "bit (join4 (byte_of 24 n) (byte_of 16 n) (byte_of 8 n) (byte_of 0 n)) k = bit n k"
    unfolding bit_join4 [OF k] by (simp add: byte_of_def bit_simps split: if_splits)
qed

lemma low_byte: "ucast (n AND 0xFF) = (ucast n :: u8)" for n :: u32
proof -
  have "ucast (n AND mask 8) = (ucast n :: u8)" by (rule bit_word_eqI) (simp add: bit_simps)
  then show ?thesis by (simp add: mask_eq_exp_minus_1)
qed

lemma InetToaton_ip_String: "InetToaton (ip_String (a, b, c, d)) = Some (join4 a b c d)"
  by (simp add: InetToaton_def Let_def split_ip Atoi_byte bytes_sum)

lemma InetTontoa_bytes: "InetTontoa n = (byte_of 24 n, byte_of 16 n, byte_of 8 n, byte_of 0 n)"
  by (simp add: InetTontoa_def low_byte byte_of_def)

text \<open>
  An IPv4 address survives as a number: the dotted text of \<open>InetTontoa n\<close> is read back as \<open>n\<close> by
  \<open>InetToaton\<close>, and its bytes by \<open>InetTobton\<close>, for every 32-bit number; text with fewer than three dots
  makes \<open>InetToaton\<close> panic.
\<close>

theorem Inet_roundtrip:
  "InetToaton (ip_String (InetTontoa n)) = Some n \<and> InetTobton (InetTontoa n) = Some n \<and>
   (InetToaton s = None \<longleftrightarrow> length (filter (\<lambda>c. c = CHR ''.'') s) < 3)"
proof -
  have "InetTobton ip = InetToaton (ip_String ip)" for ip by (simp add: InetTobton_def InetToaton_def)
  moreover have "length (split_dots s) = Suc (length (filter (\<lambda>c. c = CHR ''.'') s))"
    by (induction s) (auto split: list.splits)
  ultimately show ?thesis
    by (simp add: InetTontoa_bytes InetToaton_ip_String join4_bytes) (simp add: InetToaton_def Let_def)
qed

section \<open>Big-endian bytes\<close>

text \<open>What \<open>binary.Write\<close> and \<open>binary.Read\<close> do with a fixed-size integer in big-endian order.\<close>

definition be_bytes :: "nat \<Rightarrow> 'a::len word \<Rightarrow> u8 list" where
  "be_bytes n w = map (\<lambda>i. ucast (drop_bit (8 * i) w)) (rev [0..<n])"

definition be_read :: "u8 list \<Rightarrow> 'a::len word" where
  "be_read bs = foldl (\<lambda>acc b. push_bit 8 acc OR ucast b) 0 bs"

definition IntToBytes :: "u64 \<Rightarrow> u8 list" where
  "IntToBytes n = be_bytes 4 (ucast n :: u32)"

definition BytesToInt :: "u8 list \<Rightarrow> u64" where
  "BytesToInt b = (if length b < 4 then 0 else scast (be_read (take 4 b) :: u32))"

definition Int64ToBytes :: "u64 \<Rightarrow> u8 list" where
  "Int64ToBytes n = be_bytes 8 n"

definition BytesToInt64 :: "u8 list \<Rightarrow> u64" where
  "BytesToInt64 b = (if length b < 8 then 0 else be_read (take 8 b))"

lemma be_step: "push_bit 8 (drop_bit (8 * Suc n) w) OR ucast (ucast (drop_bit (8 * n) w) :: u8) = drop_bit (8 * n) w"
  for w :: "'a::len word"
proof (rule bit_word_eqI)
  fix k assume "k < LENGTH('a)"
  then show "bit (push_bit 8 (drop_bit (8 * Suc n) w) OR ucast (ucast (drop_bit (8 * n) w) :: u8)) k = bit (drop_bit (8 * n) w) k"
    by (cases "k < 8") (auto simp: bit_simps)
qed

lemma be_foldl: "foldl (\<lambda>acc b. push_bit 8 acc OR ucast b) (drop_bit (8 * n) w) (be_bytes n w) = w" for w :: "'a::len word"
proof (induction n)
  case (Suc n)
  have "be_bytes (Suc n) w = ucast (drop_bit (8 * n) w) # be_bytes n w" by (simp add: be_bytes_def)
  with Suc show ?case by (simp only: foldl_Cons be_step)
qed (simp add: be_bytes_def)

lemma be_roundtrip: "LENGTH('a) \<le> 8 * n \<Longrightarrow> be_read (be_bytes n w) = w" for w :: "'a::len word"
proof -
  assume "LENGTH('a) \<le> 8 * n"
  then have "drop_bit (8 * n) w = 0" by (intro bit_word_eqI) (auto simp: bit_simps dest: bit_imp_le_length)
  with be_foldl [of n w] show ?thesis by (simp add: be_read_def)
qed

lemma length_be_bytes [simp]: "length (be_bytes n w) = n"
  by (simp add: be_bytes_def)

text \<open>
  \<open>Int64ToBytes\<close> loses nothing.  \<open>IntToBytes\<close> keeps only the low 32 bits: \<open>BytesToInt\<close> gives the
  number back exactly when it is in the range of \<open>int32\<close>.  A buffer that is too short reads as 0.
\<close>

theorem bytes_roundtrip:
  "BytesToInt64 (Int64ToBytes n) = n \<and>
   (BytesToInt (IntToBytes n) = n \<longleftrightarrow> - (2 ^ 31) \<le> sint n \<and> sint n < 2 ^ 31) \<and>
   (length b < 4 \<longrightarrow> BytesToInt b = 0)"
proof -
  have "BytesToInt64 (Int64ToBytes n) = n"
    using be_roundtrip [where w = n and n = 8] by (simp add: BytesToInt64_def Int64ToBytes_def)
  moreover have "BytesToInt (IntToBytes n) = scast (ucast n :: u32)"
    using be_roundtrip [where w = "ucast n :: u32" and n = 4] by (simp add: BytesToInt_def IntToBytes_def)
  moreover have "scast (ucast n :: u32) = n \<longleftrightarrow> - (2 ^ 31) \<le> sint n \<and> sint n < 2 ^ 31"
  proof -
    have "sint (scast (ucast n :: u32) :: u64) = signed_take_bit 31 (sint n)" 
      by (rule bit_eqI) (simp add: bit_simps min_def)
    then have "scast (ucast n :: u32) = n \<longleftrightarrow> signed_take_bit 31 (sint n) = sint n"
      by (simp add: word_eq_iff_signed [where ?'a = int])
    then show ?thesis by (simp add: signed_take_bit_int_eq_self_iff)
  qed
  ultimately show ?thesis by (simp add: BytesToInt_def)
qed

lemma bytes_roundtrip_witness: "BytesToInt [1, 2] = 0"
  using bytes_roundtrip [of 0 "[1, 2]"] by simp

end
