(* ===== verification/TextRules.thy ===== *)
theory TextRules
  imports Utf8
begin

text \<open>
  Checks and cuts of text in \<^verbatim>\<open>src/basic/utils/utils.go\<close>: the regular expressions for accounts, passwords,
  telephone numbers and mail addresses, \<open>LegalName\<close>, \<open>SubStr\<close>, the searches and removals on slices of
  strings, and \<open>MonthDays\<close>.
\<close>

section \<open>Regular expressions\<close>

text \<open>The constructs the sources use of \<^verbatim>\<open>regexp\<close>, anchored at both ends, and a matcher by derivatives.\<close>

datatype rx = Nope | Eps | Cls "char \<Rightarrow> bool" | Seq rx rx | Alt rx rx | Star rx

fun nullable :: "rx \<Rightarrow> bool" where
  "nullable Nope = False"
| "nullable Eps = True"
| "nullable (Cls p) = False"
| "nullable (Seq r s) = (nullable r \<and> nullable s)"
| "nullable (Alt r s) = (nullable r \<or> nullable s)"
| "nullable (Star r) = True"

fun deriv :: "char \<Rightarrow> rx \<Rightarrow> rx" where
  "deriv c Nope = Nope"
| "deriv c Eps = Nope"
| "deriv c (Cls p) = (if p c then Eps else Nope)"
| "deriv c (Seq r s) = (if nullable r then Alt (Seq (deriv c r) s) (deriv c s) else Seq (deriv c r) s)"
| "deriv c (Alt r s) = Alt (deriv c r) (deriv c s)"
| "deriv c (Star r) = Seq (deriv c r) (Star r)"

definition matches :: "rx \<Rightarrow> string \<Rightarrow> bool" where
  "matches r s = nullable (fold deriv s r)"

definition Plus :: "rx \<Rightarrow> rx" where
  "Plus r = Seq r (Star r)"

fun Rep :: "rx \<Rightarrow> nat \<Rightarrow> nat \<Rightarrow> rx" where
  "Rep r 0 0 = Eps"
| "Rep r 0 (Suc k) = Alt Eps (Seq r (Rep r 0 k))"
| "Rep r (Suc m) k = Seq r (Rep r m k)"

definition lit :: "char \<Rightarrow> rx" where
  "lit c = Cls (\<lambda>d. d = c)"

definition upto_char :: "char \<Rightarrow> char \<Rightarrow> char \<Rightarrow> bool" where
  "upto_char a b c \<longleftrightarrow> (of_char a :: nat) \<le> of_char c \<and> (of_char c :: nat) \<le> of_char b"

definition letter :: "char \<Rightarrow> bool" where
  "letter c \<longleftrightarrow> upto_char (CHR ''a'') (CHR ''z'') c \<or> upto_char (CHR ''A'') (CHR ''Z'') c"

definition alnum :: "char \<Rightarrow> bool" where
  "alnum c \<longleftrightarrow> letter c \<or> is_digit c"

definition word_char :: "char \<Rightarrow> bool" where
  "word_char c \<longleftrightarrow> alnum c \<or> c = CHR ''_''"

definition mail_char :: "char \<Rightarrow> bool" where
  "mail_char c \<longleftrightarrow> word_char c \<or> c = CHR ''-''"

definition EmailRegexp :: "string \<Rightarrow> bool" where
  "EmailRegexp mail \<longleftrightarrow> mail \<noteq> [] \<and>
     matches (Seq (Plus (Cls mail_char)) (Seq (lit (CHR ''@'')) (Seq (Plus (Cls mail_char))
       (Seq (lit (CHR ''.'')) (Plus (Cls mail_char)))))) mail"

definition PhoneRegexp :: "string \<Rightarrow> bool" where
  "PhoneRegexp phone \<longleftrightarrow> phone \<noteq> [] \<and>
     matches (Seq (Star (Seq (lit (CHR ''8'')) (lit (CHR ''6'')))) (Seq (Star (lit (CHR ''0'')))
       (Seq (lit (CHR ''1'')) (Rep (Cls is_digit) 10 0)))) phone"

definition AccountRegexp :: "string \<Rightarrow> bool" where
  "AccountRegexp account \<longleftrightarrow> account \<noteq> [] \<and> matches (Rep (Cls alnum) 6 2) account"

definition AalidataPwd :: "string \<Rightarrow> bool" where
  "AalidataPwd name \<longleftrightarrow> name \<noteq> [] \<and>
     matches (Seq (Cls (\<lambda>c. letter c \<or> c = CHR ''_'')) (Rep (Cls word_char) 5 12)) name"

section \<open>What the expressions accept\<close>

inductive_set starl :: "string set \<Rightarrow> string set" for A :: "string set" where
  nil: "[] \<in> starl A"
| step: "u \<in> A \<Longrightarrow> v \<in> starl A \<Longrightarrow> u @ v \<in> starl A"

fun lang :: "rx \<Rightarrow> string set" where
  "lang Nope = {}"
| "lang Eps = {[]}"
| "lang (Cls p) = {[c] | c. p c}"
| "lang (Seq r s) = {u @ v | u v. u \<in> lang r \<and> v \<in> lang s}"
| "lang (Alt r s) = lang r \<union> lang s"
| "lang (Star r) = starl (lang r)"

lemma nullable_lang: "nullable r \<longleftrightarrow> [] \<in> lang r"
  by (induction r) (auto intro: starl.nil)

lemma starl_Cons: "c # s \<in> starl A \<Longrightarrow> \<exists>u v. s = u @ v \<and> c # u \<in> A \<and> v \<in> starl A"
proof (induction "c # s" rule: starl.induct)
  case (step u v)
  then show ?case by (cases u) auto
qed

lemma deriv_lang: "s \<in> lang (deriv c r) \<longleftrightarrow> c # s \<in> lang r"
proof (induction r arbitrary: s)
  case (Seq r1 r2)
  have "c # s \<in> lang (Seq r1 r2) \<longleftrightarrow>
      (\<exists>u v. s = u @ v \<and> c # u \<in> lang r1 \<and> v \<in> lang r2) \<or> ([] \<in> lang r1 \<and> c # s \<in> lang r2)"
    by (auto simp: Cons_eq_append_conv)
  then show ?case using Seq by (auto simp: nullable_lang)
next
  case (Star r)
  show ?case
  proof
    assume "s \<in> lang (deriv c (Star r))"
    then obtain u v where "s = u @ v" "c # u \<in> lang r" "v \<in> starl (lang r)" using Star by auto
    then show "c # s \<in> lang (Star r)" using starl.step [of "c # u" "lang r" v] by simp
  next
    assume "c # s \<in> lang (Star r)"
    then show "s \<in> lang (deriv c (Star r))" using starl_Cons Star by fastforce
  qed
qed auto

lemma matches_lang: "matches r s \<longleftrightarrow> s \<in> lang r"
proof -
  have "nullable (fold deriv s r) \<longleftrightarrow> s \<in> lang r"
    by (induction s arbitrary: r) (simp_all add: nullable_lang deriv_lang)
  then show ?thesis by (simp add: matches_def)
qed

lemma starl_Cls: "s \<in> starl {[c] | c. p c} \<longleftrightarrow> list_all p s"
proof
  show "s \<in> starl {[c] | c. p c} \<Longrightarrow> list_all p s" by (induction rule: starl.induct) auto
  show "list_all p s \<Longrightarrow> s \<in> starl {[c] | c. p c}"
  proof (induction s)
    case (Cons c s)
    then show ?case using starl.step [of "[c]" "{[c] | c. p c}" s] by auto
  qed (rule starl.nil)
qed

lemma starl_single: "s \<in> starl {w} \<longleftrightarrow> (\<exists>k. s = concat (replicate k w))"
proof
  show "s \<in> starl {w} \<Longrightarrow> \<exists>k. s = concat (replicate k w)"
  proof (induction rule: starl.induct)
    case nil
    then show ?case by (intro exI [of _ 0]) simp
  next
    case (step u v)
    then obtain k where "v = concat (replicate k w)" by blast
    with step(1) show ?case by (intro exI [of _ "Suc k"]) simp
  qed
  have "concat (replicate k w) \<in> starl {w}" for k by (induction k) (auto intro: starl.intros)
  then show "\<exists>k. s = concat (replicate k w) \<Longrightarrow> s \<in> starl {w}" by blast
qed

lemma lang_Seq_Cls: "s \<in> lang (Seq (Cls p) r) \<longleftrightarrow> (\<exists>c cs. s = c # cs \<and> p c \<and> cs \<in> lang r)"
  by (fastforce intro: exI [of _ "[_]"])

lemma lang_Plus_Cls: "s \<in> lang (Plus (Cls p)) \<longleftrightarrow> s \<noteq> [] \<and> list_all p s"
  unfolding Plus_def lang_Seq_Cls by (cases s) (auto simp: starl_Cls)

lemma lang_Rep: "s \<in> lang (Rep (Cls p) m k) \<longleftrightarrow> m \<le> length s \<and> length s \<le> m + k \<and> list_all p s"
proof (induction "Cls p" m k arbitrary: s rule: Rep.induct)
  case 1
  then show ?case by auto
next
  case (2 k)
  then show ?case unfolding Rep.simps lang.simps(5) Un_iff lang_Seq_Cls by (cases s) auto
next
  case (3 m k)
  then show ?case unfolding Rep.simps lang_Seq_Cls by (cases s) auto
qed

text \<open>
  The checks accept exactly this: an account is 6 to 8 letters and digits; a password is a letter or
  underscore followed by 5 to 17 letters, digits and underscores, so 6 to 18 characters in all; a mail
  address is a name, an at sign, a host and one suffix after a single dot; a telephone number is any
  number of prefixes 86, any number of zeros, a 1 and ten digits.
\<close>

theorem regexp_checks:
  "(AccountRegexp s \<longleftrightarrow> 6 \<le> length s \<and> length s \<le> 8 \<and> list_all alnum s) \<and>
   (AalidataPwd s \<longleftrightarrow>
     (\<exists>c cs. s = c # cs \<and> (letter c \<or> c = CHR ''_'') \<and> 5 \<le> length cs \<and> length cs \<le> 17 \<and> list_all word_char cs)) \<and>
   (EmailRegexp s \<longleftrightarrow> (\<exists>u h t. s = u @ ''@'' @ h @ ''.'' @ t \<and> u \<noteq> [] \<and> h \<noteq> [] \<and> t \<noteq> [] \<and>
     list_all mail_char u \<and> list_all mail_char h \<and> list_all mail_char t)) \<and>
   (PhoneRegexp s \<longleftrightarrow> (\<exists>a b ds. s = concat (replicate a ''86'') @ replicate b (CHR ''0'') @ ''1'' @ ds \<and>
     length ds = 10 \<and> list_all is_digit ds))"
proof (intro conjI)
  have lit: "lang (lit c) = {[c]}" for c by (auto simp: lit_def)
  show "AccountRegexp s \<longleftrightarrow> 6 \<le> length s \<and> length s \<le> 8 \<and> list_all alnum s"
    unfolding AccountRegexp_def matches_lang lang_Rep by auto
  show "AalidataPwd s \<longleftrightarrow>
      (\<exists>c cs. s = c # cs \<and> (letter c \<or> c = CHR ''_'') \<and> 5 \<le> length cs \<and> length cs \<le> 17 \<and> list_all word_char cs)"
    unfolding AalidataPwd_def matches_lang lang_Seq_Cls lang_Rep by auto
  show "EmailRegexp s \<longleftrightarrow> (\<exists>u h t. s = u @ ''@'' @ h @ ''.'' @ t \<and> u \<noteq> [] \<and> h \<noteq> [] \<and> t \<noteq> [] \<and>
      list_all mail_char u \<and> list_all mail_char h \<and> list_all mail_char t)"
    unfolding EmailRegexp_def matches_lang lang.simps(4) lang_Plus_Cls lit by fastforce
  have z: "concat (replicate b [c]) = replicate b c" for b and c :: char by (induction b) simp_all
  have ps: "lang (Seq (lit (CHR ''8'')) (lit (CHR ''6''))) = {''86''}" by (auto simp: lit)
  show "PhoneRegexp s \<longleftrightarrow> (\<exists>a b ds. s = concat (replicate a ''86'') @ replicate b (CHR ''0'') @ ''1'' @ ds \<and>
      length ds = 10 \<and> list_all is_digit ds)"
    unfolding PhoneRegexp_def matches_lang lang.simps(4) lang.simps(6) lang_Rep lit
    unfolding ps [unfolded lang.simps(4) lit] starl_single z by fastforce
qed

section \<open>Names and substrings\<close>

definition IllegalNameRune :: "nat list" where
  "IllegalNameRune = [0x00, 0x09, 0x5f, 0x20, 0x22, 0x60, 0x1a, 0x0a, 0x0d, 0x27, 0x25, 0x5c, 0x2c]"

definition hasIllegalNameRune :: "nat \<Rightarrow> bool" where
  "hasIllegalNameRune c \<longleftrightarrow> c \<in> set IllegalNameRune"

text \<open>
  The float \<open>num / 4.0 + 0.99\<close>, truncated: \<open>num / 4\<close> is exact and at least a hundredth away from the
  next integer after the addition, so the rounding of the float does not show.
\<close>

definition LegalName :: "string \<Rightarrow> int \<Rightarrow> bool" where
  "LegalName name maxcount =
     (if \<not> ValidString name then False
      else (let num = length (go_runes name) + length (go_bytes name);
                total = (25 * num + 99) div 100
            in if int total > maxcount * 2 then False
               else \<not> list_ex hasIllegalNameRune (go_runes name)))"

definition SubStr :: "string \<Rightarrow> int \<Rightarrow> int \<Rightarrow> string option" where
  "SubStr str begin len =
     (let rs = go_runes str;
          lth = int (length rs);
          begin = (if begin < 0 then 0 else begin);
          begin = (if begin \<ge> lth then lth else begin);
          stop = add64 begin len;
          stop = (if stop > lth then lth else stop)
      in if begin \<le> stop then Some (of_runes (take (nat stop - nat begin) (drop (nat begin) rs))) else None)"

lemma round_up: "(25 * n + 99) div 100 \<le> k \<longleftrightarrow> n \<le> 4 * k" for n k :: nat
  by linarith

lemma length_encode_low: "r < 128 \<Longrightarrow> length (encode_rune r) = 1"
  by (simp add: encode_ascii)

lemma length_encode_three: "scalar r \<Longrightarrow> 0x800 \<le> r \<Longrightarrow> r < 0x10000 \<Longrightarrow> length (encode_rune r) = 3"
  by (simp add: encode_rune_def)

lemma length_of_runes: "(\<And>r. r \<in> set rs \<Longrightarrow> length (encode_rune r) = k) \<Longrightarrow> length (go_bytes (of_runes rs)) = k * length rs"
  unfolding go_bytes_of_runes by (induction rs) simp_all

text \<open>
  A well-formed text without forbidden characters is a legal name exactly if its characters and
  bytes together are at most eight times the limit: \<open>n\<close> plain characters up to four times the limit,
  \<open>n\<close> characters of three bytes each, as Chinese text is written, up to twice the limit.
\<close>

theorem LegalName_limits:
  assumes "list_all (\<lambda>r. scalar r \<and> \<not> hasIllegalNameRune r) rs"
  shows "(LegalName (of_runes rs) (int m) \<longleftrightarrow> length rs + length (of_runes rs) \<le> 8 * m) \<and>
    (list_all (\<lambda>r. r < 128) rs \<longrightarrow> (LegalName (of_runes rs) (int m) \<longleftrightarrow> length rs \<le> 4 * m)) \<and>
    (list_all (\<lambda>r. 0x800 \<le> r \<and> r < 0x10000) rs \<longrightarrow> (LegalName (of_runes rs) (int m) \<longleftrightarrow> length rs \<le> 2 * m))"
proof -
  have len: "length (go_bytes (of_runes rs)) = length (of_runes rs)" by (simp add: go_bytes_def)
  have ill: "\<not> list_ex hasIllegalNameRune rs" using assms by (auto simp: list_ex_iff list_all_iff)
  have sc: "scalar r" if "r \<in> set rs" for r using that assms by (auto simp: list_all_iff)
  have legal: "LegalName (of_runes rs) (int m) \<longleftrightarrow> length rs + length (go_bytes (of_runes rs)) \<le> 8 * m"
    using ValidString_of_runes [OF sc] runes_round_trip [OF sc] ill
      round_up [of "length rs + length (go_bytes (of_runes rs))" "2 * m"]
    by (auto simp: LegalName_def Let_def not_less simp flip: of_nat_le_iff)
  moreover have "length (go_bytes (of_runes rs)) = 1 * length rs" if "list_all (\<lambda>r. r < 128) rs"
    using that by (intro length_of_runes) (simp add: list_all_iff length_encode_low)
  moreover have "length (go_bytes (of_runes rs)) = 3 * length rs" if "list_all (\<lambda>r. 0x800 \<le> r \<and> r < 0x10000) rs"
    using that sc by (intro length_of_runes length_encode_three) (auto simp: list_all_iff)
  ultimately show ?thesis using len by auto
qed

lemma LegalName_limits_witness: "\<not> LegalName (of_runes [0x4E2D, 0x6587, 0x5B57]) 1 \<and> LegalName (of_runes [0x4E2D, 0x6587]) 1"
  using LegalName_limits [of "[0x4E2D, 0x6587, 0x5B57]" 1] LegalName_limits [of "[0x4E2D, 0x6587]" 1]
  by (auto simp: scalar_def hasIllegalNameRune_def IllegalNameRune_def)

text \<open>
  \<open>SubStr\<close> cuts characters, not bytes: on well-formed text it returns the \<open>l\<close> characters from position
  \<open>b\<close> on, or as many as there are; a negative length makes it panic, wherever it starts inside the text.
\<close>

theorem SubStr_cuts:
  assumes "list_all scalar rs" and "length rs + l < 2 ^ 63"
  shows "SubStr (of_runes rs) (int b) (int l) = Some (of_runes (take l (drop b rs))) \<and>
    (0 < l \<and> l \<le> 2 ^ 63 \<longrightarrow> SubStr (of_runes rs) (int b) (- int l) = None)"
proof -
  let ?n = "length rs" and ?b = "min b (length rs)"
  have rs: "go_runes (of_runes rs) = rs" using assms(1) by (intro runes_round_trip) (simp add: list_all_iff)
  have neg: "(if int b < 0 then 0 else int b) = int b" by simp
  have b: "(if int b \<ge> int ?n then int ?n else int b) = int ?b" by auto
  have "int (?b + l) < int (2 ^ 63)" using assms(2) by (simp only: of_nat_less_iff)
  then have "int ?b + int l < 2 ^ 63" by simp
  then have add: "add64 (int ?b) (int l) = int ?b + int l" by (intro add64_small) auto
  have stop: "(if int ?b + int l > int ?n then int ?n else int ?b + int l) = int (min (?b + l) ?n)" by auto
  have "take (min (?b + l) ?n - ?b) (drop ?b rs) = take l (drop b rs)"
    by (cases "b \<le> ?n") (auto simp: min_def)
  then have 1: "SubStr (of_runes rs) (int b) (int l) = Some (of_runes (take l (drop b rs)))"
    unfolding SubStr_def Let_def rs neg b add stop nat_int by simp
  have 2: "SubStr (of_runes rs) (int b) (- int l) = None" if l: "0 < l" "l \<le> 2 ^ 63"
  proof -
    have "int ?b \<le> 2 ^ 63 - 1" using \<open>int ?b + int l < 2 ^ 63\<close> by linarith
    moreover have "int l \<le> 2 ^ 63" using l(2) by (metis of_nat_le_iff of_nat_numeral of_nat_power)
    ultimately have "add64 (int ?b) (- int l) = int ?b - int l" by (subst add64_small) auto
    then show ?thesis unfolding SubStr_def Let_def rs neg b using l(1) by auto
  qed
  from 1 2 show ?thesis by blast
qed

lemma SubStr_cuts_witness: "SubStr (of_runes [0x4E2D, 0x6587, 0x5B57]) 1 1 = Some (of_runes [0x6587])"
  using SubStr_cuts [of "[0x4E2D, 0x6587, 0x5B57]" 1 1] by (auto simp: scalar_def)

section \<open>Slices of strings\<close>

fun index_loop :: "string list \<Rightarrow> string \<Rightarrow> int \<Rightarrow> int" where
  "index_loop [] str i = - 1"
| "index_loop (a # arr) str i = (if a = str then i else index_loop arr str (i + 1))"

definition SliceIndexOf :: "string list \<Rightarrow> string \<Rightarrow> int" where
  "SliceIndexOf arr str = index_loop arr str 0"

fun last_loop :: "string list \<Rightarrow> string \<Rightarrow> nat \<Rightarrow> int" where
  "last_loop arr str 0 = - 1"
| "last_loop arr str (Suc i) = (if arr ! i = str then int i else last_loop arr str i)"

definition SliceLastIndexOf :: "string list \<Rightarrow> string \<Rightarrow> int" where
  "SliceLastIndexOf arr str = last_loop arr str (length arr)"

text \<open>
  \<open>append(endArr[:i], endArr[i+1:]...)\<close> moves the tail down inside the array the slice shares with its
  caller: the state is that array and the length of \<open>endArr\<close>.
\<close>

definition slice_del :: "nat \<Rightarrow> string list \<times> nat \<Rightarrow> string list \<times> nat" where
  "slice_del i = (\<lambda>(arr, n). (take i arr @ drop (i + 1) (take n arr) @ drop (n - 1) arr, n - 1))"

fun remove_loop :: "string list \<Rightarrow> string list \<times> nat \<Rightarrow> string list \<times> nat" where
  "remove_loop [] s = s"
| "remove_loop (v # vs) s =
     (let index = SliceIndexOf (take (snd s) (fst s)) v
      in remove_loop vs (if index \<noteq> - 1 then slice_del (nat index) s else s))"

text \<open>The result, and what the caller's slice holds afterwards.\<close>

definition SliceRemoveFormSlice :: "string list \<Rightarrow> string list \<Rightarrow> string list \<times> string list" where
  "SliceRemoveFormSlice oriArr removeArr =
     (case remove_loop removeArr (oriArr, length oriArr) of (arr, n) \<Rightarrow> (take n arr, arr))"

lemma index_loop_absent: "str \<notin> set arr \<Longrightarrow> index_loop arr str i = - 1"
  by (induction arr arbitrary: i) auto

lemma SliceIndexOf_split:
  "str \<notin> set xs \<Longrightarrow> SliceIndexOf (xs @ str # ys) str = int (length xs)"
proof -
  have "str \<notin> set xs \<Longrightarrow> index_loop (xs @ str # ys) str i = i + int (length xs)" for i
    by (induction xs arbitrary: i) auto
  then show "str \<notin> set xs \<Longrightarrow> ?thesis" by (simp add: SliceIndexOf_def)
qed

lemma remove_step:
  assumes "n \<le> length arr"
  shows "(let i = SliceIndexOf (take n arr) v; s = (if i \<noteq> - 1 then slice_del (nat i) (arr, n) else (arr, n))
    in length (fst s) = length arr \<and> snd s \<le> length arr \<and> take (snd s) (fst s) = remove1 v (take n arr))"
proof (cases "v \<in> set (take n arr)")
  case True
  then obtain xs ys where sp: "take n arr = xs @ v # ys" "v \<notin> set xs" by (meson split_list_first)
  have i: "SliceIndexOf (take n arr) v = int (length xs)" unfolding sp(1) by (rule SliceIndexOf_split [OF sp(2)])
  have n: "n = Suc (length xs + length ys)" using arg_cong [OF sp(1), of length] assms by simp
  have "take (length xs) arr = xs" "drop (length xs + 1) (take n arr) = ys"
    using sp(1) n by (metis append_eq_conv_conj min.absorb1 le_add1 less_imp_le_nat lessI order_trans plus_nat.simps(2) take_take add_leD1 le_SucI) (simp add: sp(1))
  then have del: "slice_del (length xs) (arr, n) = (xs @ ys @ drop (n - 1) arr, n - 1)" by (simp add: slice_del_def)
  show ?thesis using i del sp n assms by (simp add: remove1_append Let_def)
next
  case False
  then show ?thesis using assms by (simp add: SliceIndexOf_def index_loop_absent remove1_idem Let_def)
qed

text \<open>
  \<open>SliceRemoveFormSlice\<close> returns the original with, for every given value, its first occurrence
  removed; but it works inside the caller's array: the caller's slice keeps its length and its leading
  part becomes the result.  \<open>SliceIndexOf\<close> and \<open>SliceLastIndexOf\<close> are -1 exactly for absent values.
\<close>

theorem SliceRemoveFormSlice_aliases:
  "(let (res, ori) = SliceRemoveFormSlice oriArr removeArr
    in res = fold remove1 removeArr oriArr \<and> length ori = length oriArr \<and> take (length res) ori = res) \<and>
   (SliceIndexOf oriArr v = - 1 \<longleftrightarrow> v \<notin> set oriArr) \<and> (SliceLastIndexOf oriArr v = - 1 \<longleftrightarrow> v \<notin> set oriArr)"
proof (intro conjI)
  have loop: "n \<le> length arr \<Longrightarrow> (let (a, m) = remove_loop vs (arr, n) in
      length a = length arr \<and> m \<le> length arr \<and> take m a = fold remove1 vs (take n arr))" for vs arr n
  proof (induction vs arbitrary: arr n)
    case (Cons v vs)
    let ?i = "SliceIndexOf (take n arr) v"
    obtain a m where s: "(if ?i \<noteq> - 1 then slice_del (nat ?i) (arr, n) else (arr, n)) = (a, m)" by fastforce
    from remove_step [OF Cons.prems, of v, unfolded Let_def s fst_conv snd_conv]
    have st: "length a = length arr" "m \<le> length a" "take m a = remove1 v (take n arr)" by auto
    have "remove_loop (v # vs) (arr, n) = remove_loop vs (a, m)" by (simp only: remove_loop.simps Let_def fst_conv snd_conv s)
    with Cons.IH [OF st(2)] st show ?case by simp
  qed simp
  from loop [OF order_refl, of removeArr oriArr]
  show "let (res, ori) = SliceRemoveFormSlice oriArr removeArr
    in res = fold remove1 removeArr oriArr \<and> length ori = length oriArr \<and> take (length res) ori = res"
    by (auto simp: SliceRemoveFormSlice_def min_def split: prod.splits)
  show "SliceIndexOf oriArr v = - 1 \<longleftrightarrow> v \<notin> set oriArr"
  proof (cases "v \<in> set oriArr")
    case True
    then obtain xs ys where "oriArr = xs @ v # ys" "v \<notin> set xs" by (meson split_list_first)
    then show ?thesis using SliceIndexOf_split [of v xs ys] True by simp
  qed (simp add: SliceIndexOf_def index_loop_absent)
  have "last_loop arr v n = - 1 \<longleftrightarrow> (\<forall>i < n. arr ! i \<noteq> v)" for arr n by (induction n) (auto simp: less_Suc_eq)
  then show "SliceLastIndexOf oriArr v = - 1 \<longleftrightarrow> v \<notin> set oriArr"
    by (auto simp: SliceLastIndexOf_def in_set_conv_nth)
qed

section \<open>Months\<close>

definition MonthDays :: "int \<Rightarrow> int \<Rightarrow> int" where
  "MonthDays year month =
     (if month \<noteq> 2 then
        (if month = 4 \<or> month = 6 \<or> month = 9 \<or> month = 11 then 30 else 31)
      else if (year mod 4 = 0 \<and> year mod 100 \<noteq> 0) \<or> year mod 400 = 0 then 29 else 28)"

end
