(* ===== verification/To.thy ===== *)
theory To
  imports Strconv
begin

text \<open>
  The conversions of \<^verbatim>\<open>src/basic/ssdb/to/to.go\<close> between Go values and their textual form.  A value held
  in an \<open>interface{}\<close> is a \<open>gval\<close>, one constructor per dynamic type; machine integers are words of
  their width.  A float is given by the text \<open>strconv.AppendFloat(_, 'g', -1, _)\<close> has for it, which
  determines it.  A slice and a value of a type without a case of its own are given by their \<open>%v\<close> text
  and the outcome of \<open>json.Marshal\<close> on them.  Complex numbers, times and durations are left out.
\<close>

section \<open>Values\<close>

datatype gval =
    GNil
  | GBool bool
  | GInt u64 | GInt8 u8 | GInt16 u16 | GInt32 u32 | GInt64 u64
  | GUint u64 | GUint8 u8 | GUint16 u16 | GUint32 u32 | GUint64 u64
  | GFloat32 string | GFloat64 string
  | GStr string | GBytes string
  | GSlice string "string option"
  | GOther string "string option"

section \<open>Integers to text\<close>

definition digits :: string where
  "digits = ''0123456789''"

definition uintbuflen :: nat where
  "uintbuflen = 20"

text \<open>The loop \<open>for v >= 10\<close>, writing from the end of the buffer.\<close>

function u64_loop :: "u64 \<Rightarrow> int \<Rightarrow> string \<Rightarrow> (u64 \<times> int \<times> string) option" where
  "u64_loop v i buf =
     (if v \<ge> 10 then do {
        c \<leftarrow> go_nth digits (uint (v mod 10));
        buf \<leftarrow> go_upd buf (i - 1) c;
        u64_loop (v div 10) (i - 1) buf
      } else Some (v, i, buf))"
  by pat_completeness auto
termination
proof (relation "measure (\<lambda>(v, i, buf). unat v)")
  fix v :: u64 and i :: int
  assume "v \<ge> 10"
  then have "unat v \<ge> 10" by (simp add: word_le_nat_alt)
  then show "\<And>x buf. ((v div 10, i - 1, x), v, i, buf) \<in> measure (\<lambda>(v, i, buf). unat v)"
    by (simp add: unat_div)
qed simp

declare u64_loop.simps [simp del]

definition uint64ToBytes :: "u64 \<Rightarrow> string option" where
  "uint64ToBytes v = do {
     (v, i, buf) \<leftarrow> u64_loop v (int uintbuflen) (replicate uintbuflen (CHR 0x00));
     c \<leftarrow> go_nth digits (uint (v mod 10));
     buf \<leftarrow> go_upd buf (i - 1) c;
     Some (drop (nat (i - 1)) buf)
   }"

definition int64ToBytes :: "u64 \<Rightarrow> string option" where
  "int64ToBytes v =
     (let negative = (sint v < 0);
          v = (if negative then - v else v)
      in do {
        buf \<leftarrow> uint64ToBytes v;
        Some (if negative then CHR ''-'' # buf else buf)
      })"

definition to_String :: "gval \<Rightarrow> string option" where
  "to_String val = (case val of
     GNil \<Rightarrow> Some ''''
   | GInt t \<Rightarrow> int64ToBytes t
   | GInt8 t \<Rightarrow> int64ToBytes (scast t)
   | GInt16 t \<Rightarrow> int64ToBytes (scast t)
   | GInt32 t \<Rightarrow> int64ToBytes (scast t)
   | GInt64 t \<Rightarrow> int64ToBytes t
   | GUint t \<Rightarrow> uint64ToBytes t
   | GUint8 t \<Rightarrow> uint64ToBytes (ucast t)
   | GUint16 t \<Rightarrow> uint64ToBytes (ucast t)
   | GUint32 t \<Rightarrow> uint64ToBytes (ucast t)
   | GUint64 t \<Rightarrow> uint64ToBytes t
   | GFloat32 s \<Rightarrow> Some s
   | GFloat64 s \<Rightarrow> Some s
   | GBool b \<Rightarrow> Some (if b then ''true'' else ''false'')
   | GStr s \<Rightarrow> Some s
   | GBytes s \<Rightarrow> Some s
   | GSlice s j \<Rightarrow> Some s
   | GOther s j \<Rightarrow> Some s)"

definition to_Bytes :: "gval \<Rightarrow> string option" where
  "to_Bytes val = (case val of
     GNil \<Rightarrow> Some ''''
   | GInt t \<Rightarrow> int64ToBytes t
   | GInt8 t \<Rightarrow> int64ToBytes (scast t)
   | GInt16 t \<Rightarrow> int64ToBytes (scast t)
   | GInt32 t \<Rightarrow> int64ToBytes (scast t)
   | GInt64 t \<Rightarrow> int64ToBytes t
   | GUint t \<Rightarrow> uint64ToBytes t
   | GUint8 t \<Rightarrow> uint64ToBytes (ucast t)
   | GUint16 t \<Rightarrow> uint64ToBytes (ucast t)
   | GUint32 t \<Rightarrow> uint64ToBytes (ucast t)
   | GUint64 t \<Rightarrow> uint64ToBytes t
   | GFloat32 s \<Rightarrow> Some s
   | GFloat64 s \<Rightarrow> Some s
   | GBool b \<Rightarrow> Some (if b then ''true'' else ''false'')
   | GStr s \<Rightarrow> Some s
   | GBytes s \<Rightarrow> Some s
   | GSlice s j \<Rightarrow> Some s
   | GOther s j \<Rightarrow> Some s)"

section \<open>Text to integers\<close>

text \<open>
  \<open>f2i\<close> and \<open>f2u\<close> stand for the conversions of a float to \<open>int64\<close> and \<open>uint64\<close>, whose result the
  language leaves to the implementation when the value does not fit.
\<close>

definition to_Int64 :: "(string \<Rightarrow> u64) \<Rightarrow> gval \<Rightarrow> u64 option" where
  "to_Int64 f2i val = (case val of
     GInt t \<Rightarrow> Some t
   | GInt8 t \<Rightarrow> Some (scast t)
   | GInt16 t \<Rightarrow> Some (scast t)
   | GInt32 t \<Rightarrow> Some (scast t)
   | GInt64 t \<Rightarrow> Some t
   | GUint t \<Rightarrow> Some t
   | GUint8 t \<Rightarrow> Some (ucast t)
   | GUint16 t \<Rightarrow> Some (ucast t)
   | GUint32 t \<Rightarrow> Some (ucast t)
   | GUint64 t \<Rightarrow> Some t
   | GBool b \<Rightarrow> Some (if b then 1 else 0)
   | GFloat32 s \<Rightarrow> Some (f2i s)
   | GFloat64 s \<Rightarrow> Some (f2i s)
   | _ \<Rightarrow> do { s \<leftarrow> to_String val; Some (word_of_int (fst (ParseInt 64 s))) })"

definition to_Uint64 :: "(string \<Rightarrow> u64) \<Rightarrow> gval \<Rightarrow> u64 option" where
  "to_Uint64 f2u val = (case val of
     GInt t \<Rightarrow> Some t
   | GInt8 t \<Rightarrow> Some (scast t)
   | GInt16 t \<Rightarrow> Some (scast t)
   | GInt32 t \<Rightarrow> Some (scast t)
   | GInt64 t \<Rightarrow> Some t
   | GUint t \<Rightarrow> Some t
   | GUint8 t \<Rightarrow> Some (ucast t)
   | GUint16 t \<Rightarrow> Some (ucast t)
   | GUint32 t \<Rightarrow> Some (ucast t)
   | GUint64 t \<Rightarrow> Some t
   | GFloat32 s \<Rightarrow> Some (f2u s)
   | GFloat64 s \<Rightarrow> Some (f2u s)
   | GBool b \<Rightarrow> Some (if b then 1 else 0)
   | _ \<Rightarrow> do { s \<leftarrow> to_String val; Some (of_nat (fst (ParseUint 64 s))) })"

text \<open>\<open>strconv.ParseBool\<close> accepts six spellings of each truth value; an error gives \<open>false\<close>.\<close>

definition ParseBool :: "string \<Rightarrow> bool \<times> bool" where
  "ParseBool s =
     (if s \<in> {''1'', ''t'', ''T'', ''true'', ''TRUE'', ''True''} then (True, True)
      else (False, s \<in> {''0'', ''f'', ''F'', ''false'', ''FALSE'', ''False''}))"

definition to_Bool :: "gval \<Rightarrow> bool option" where
  "to_Bool val = do { s \<leftarrow> to_String val; Some (fst (ParseBool s)) }"

section \<open>The printed text is the decimal text\<close>

lemma digits_map: "digits = map digit_char [0..<10]"
  by code_simp

lemma digits_nth: "d < 10 \<Longrightarrow> digits ! d = digit_char d"
  by (simp add: digits_map)

lemma digit_of_mod: "go_nth digits (uint (v mod 10)) = Some (digit_char (unat v mod 10))" for v :: u64
proof -
  have "unat (v mod 10) = unat v mod 10" by (simp add: unat_mod)
  then have "nat (uint (v mod 10)) = unat v mod 10" "uint (v mod 10) < 10"
    by (metis unat_eq_nat_uint, metis of_nat_less_iff of_nat_numeral mod_less_divisor uint_nat zero_less_numeral)
  then show ?thesis by (simp add: go_nth_def digits_nth, simp add: digits_def)
qed

text \<open>
  The loop started with room for the digits: it has written all but the leading digit of \<open>v\<close> in front
  of what the buffer held behind \<open>i\<close>.
\<close>

lemma u64_loop_ok:
  "unat v < 10 ^ n \<Longrightarrow> int n \<le> i \<Longrightarrow> 0 < n \<Longrightarrow> i \<le> int (length buf) \<Longrightarrow>
     \<exists>v' i' buf'. u64_loop v i buf = Some (v', i', buf') \<and> v' < 10 \<and> 0 < i' \<and> i' \<le> i \<and> length buf' = length buf \<and>
       digit_char (unat v') # drop (nat i') buf' = fmt_nat (unat v) @ drop (nat i) buf"
proof (induction v i buf arbitrary: n rule: u64_loop.induct)
  case (1 v i buf)
  show ?case
  proof (cases "v \<ge> 10")
    case False
    then have "unat v < 10" by (simp add: word_le_nat_alt)
    with False 1(2-) show ?thesis by (subst u64_loop.simps) auto
  next
    case True
    let ?c = "digit_char (unat v mod 10)"
    let ?buf = "buf[nat (i - 1) := ?c]"
    have ge: "unat v \<ge> 10" using True by (simp add: word_le_nat_alt)
    obtain m where n: "n = Suc m" using 1(4) by (cases n) auto
    have m: "0 < m" using ge 1(2) n by (cases m) auto
    have i: "0 < i" "i - 1 < int (length buf)" using 1(3-5) by auto
    have upd: "go_upd buf (i - 1) ?c = Some ?buf" using i by (simp add: go_upd_def)
    have step: "u64_loop v i buf = u64_loop (v div 10) (i - 1) ?buf"
      using True upd by (subst u64_loop.simps) (simp add: digit_of_mod)
    have div: "unat (v div 10) = unat v div 10" by (simp add: unat_div)
    have "unat (v div 10) < 10 ^ m" using 1(2) n div by (simp add: less_mult_imp_div_less mult.commute)
    then obtain v' i' buf' where IH: "u64_loop (v div 10) (i - 1) ?buf = Some (v', i', buf')" "v' < 10" "0 < i'"
      "i' \<le> i - 1" "length buf' = length buf"
      "digit_char (unat v') # drop (nat i') buf' = fmt_nat (unat v div 10) @ drop (nat (i - 1)) ?buf"
      using 1(1) [OF True digit_of_mod upd, of m] 1(3,5) m n i div by auto
    have "nat i = Suc (nat (i - 1))" using i by simp
    then have "drop (nat (i - 1)) ?buf = ?c # drop (nat i) buf"
      using i by (simp add: Cons_nth_drop_Suc [symmetric])
    with IH ge step show ?thesis by (auto simp: fmt_nat_large)
  qed
qed

lemma uint64ToBytes_eq [simp]: "uint64ToBytes v = Some (fmt_nat (unat v))"
proof -
  have "unat v < 2 ^ 64" using unsigned_less [of v, where ?'a = nat] by simp
  then have "unat v < 10 ^ 20" by simp
  then obtain v' i' buf' where l: "u64_loop v (int 20) (replicate 20 (CHR 0x00)) = Some (v', i', buf')"
    "v' < 10" "0 < i'" "i' \<le> 20" "length buf' = 20" "digit_char (unat v') # drop (nat i') buf' = fmt_nat (unat v)"
    using u64_loop_ok [of v 20 20 "replicate 20 (CHR 0x00)"] by auto
  have "nat i' = Suc (nat (i' - 1))" using l(3) by simp
  moreover have "unat v' < 10" using l(2) by (simp add: word_less_nat_alt)
  ultimately have "drop (nat (i' - 1)) (buf'[nat (i' - 1) := digit_char (unat v' mod 10)]) = fmt_nat (unat v)"
    using l(3-6) by (simp add: Cons_nth_drop_Suc [symmetric])
  then show ?thesis using l(1,3-5)
    by (simp add: uint64ToBytes_def uintbuflen_def digit_of_mod go_upd_def)
qed

text \<open>
  The most negative number is its own negation; read back as unsigned it is \<open>2 ^ 63\<close>, so its text is
  right as well.
\<close>

lemma uint_of_sint: "uint v = sint v mod 2 ^ 64" for v :: u64
proof -
  have "uint (word_of_int (sint v) :: u64) = sint v mod 2 ^ 64" by (subst uint_word_of_int) simp
  then show ?thesis by simp
qed

lemma unat_uminus_neg: "sint v < 0 \<Longrightarrow> unat (- v) = nat (- sint v)" for v :: u64
proof -
  assume neg: "sint v < 0"
  have rng: "- (2 ^ 63) \<le> sint v" using sint_ge [of v] by simp
  have "uint (word_of_int (- sint v) :: u64) = (- sint v) mod 2 ^ 64" by (subst uint_word_of_int) simp
  also have "\<dots> = - sint v" using neg rng by (intro mod_pos_pos_trivial) auto
  finally have "uint (- v) = - sint v" by simp
  then show ?thesis by (simp add: unat_eq_nat_uint)
qed

lemma unat_nonneg: "0 \<le> sint v \<Longrightarrow> unat v = nat (sint v)" for v :: u64
proof -
  assume "0 \<le> sint v"
  moreover have "sint v < 2 ^ 63" using sint_lt [of v] by simp
  ultimately have "uint v = sint v" unfolding uint_of_sint by (intro mod_pos_pos_trivial) auto
  then show ?thesis by (simp add: unat_eq_nat_uint)
qed

lemma int64ToBytes_eq [simp]: "int64ToBytes v = Some (fmt_int (sint v))"
  by (simp add: int64ToBytes_def Let_def fmt_int_def unat_uminus_neg unat_nonneg)

text \<open>The text of a value, as a total function; \<open>to_String\<close> and \<open>to_Bytes\<close> never panic.\<close>

fun gtext :: "gval \<Rightarrow> string" where
  "gtext GNil = ''''"
| "gtext (GBool b) = (if b then ''true'' else ''false'')"
| "gtext (GInt t) = fmt_int (sint t)"
| "gtext (GInt8 t) = fmt_int (sint t)"
| "gtext (GInt16 t) = fmt_int (sint t)"
| "gtext (GInt32 t) = fmt_int (sint t)"
| "gtext (GInt64 t) = fmt_int (sint t)"
| "gtext (GUint t) = fmt_nat (unat t)"
| "gtext (GUint8 t) = fmt_nat (unat t)"
| "gtext (GUint16 t) = fmt_nat (unat t)"
| "gtext (GUint32 t) = fmt_nat (unat t)"
| "gtext (GUint64 t) = fmt_nat (unat t)"
| "gtext (GFloat32 s) = s"
| "gtext (GFloat64 s) = s"
| "gtext (GStr s) = s"
| "gtext (GBytes s) = s"
| "gtext (GSlice s j) = s"
| "gtext (GOther s j) = s"

lemma sint_scast_u64:
  "sint (scast (a :: u8) :: u64) = sint a" "sint (scast (b :: u16) :: u64) = sint b" "sint (scast (c :: u32) :: u64) = sint c"
  using sint_ge [of a] sint_lt [of a] sint_ge [of b] sint_lt [of b] sint_ge [of c] sint_lt [of c]
  by (simp_all add: signed_scast_eq signed_take_bit_int_eq_self)

lemma unat_ucast_u64:
  "unat (ucast (a :: u8) :: u64) = unat a" "unat (ucast (b :: u16) :: u64) = unat b" "unat (ucast (c :: u32) :: u64) = unat c"
  using unsigned_less [of a, where ?'a = nat] unsigned_less [of b, where ?'a = nat] unsigned_less [of c, where ?'a = nat]
  by (simp_all add: unsigned_ucast_eq take_bit_nat_eq_self)

lemma to_String_eq [simp]: "to_String v = Some (gtext v)"
  by (cases v) (simp_all add: to_String_def sint_scast_u64 unat_ucast_u64)

lemma to_Bytes_eq [simp]: "to_Bytes v = Some (gtext v)"
  by (cases v) (simp_all add: to_Bytes_def sint_scast_u64 unat_ucast_u64)

lemma ParseInt_sint: "fst (ParseInt 64 (fmt_int (sint v))) = sint v" for v :: u64
  using ParseInt_fmt [of 64 "sint v"] sint_ge [of v] sint_lt [of v] by simp

lemma ParseUint_unat: "fst (ParseUint 64 (fmt_nat (unat v))) = unat v" for v :: u64
  using ParseUint_fmt [of "unat v" 64] unsigned_less [of v, where ?'a = nat] by simp

text \<open>
  C12.  Integers survive the trip through their text, at every value of the type: converting an
  \<open>int64\<close> (the most negative one included) or a \<open>uint64\<close> to its text and back gives the same word, and
  no write of the twenty-byte buffer is out of range.
\<close>

theorem to_roundtrip:
  "do { s \<leftarrow> to_String (GInt64 v); to_Int64 f2i (GBytes s) } = Some v \<and>
   do { s \<leftarrow> to_Bytes (GUint64 u); to_Uint64 f2u (GStr s) } = Some u"
  by (simp add: to_Int64_def to_Uint64_def ParseInt_sint ParseUint_unat)

end
