(* ===== verification/Wire.thy ===== *)
theory Wire
  imports Strconv
begin

text \<open>
  The SSDB wire protocol of \<^verbatim>\<open>src/basic/ssdb/gossdb/ssdb.go\<close>: a message is a sequence of blocks, each the
  decimal length of its data, a newline, the data and a newline, and ends with an empty line.  The
  receive buffer and the segments that the socket still delivers are explicit; a read from an exhausted
  socket is an error.  \<open>None\<close> is a panic.
\<close>

abbreviation nl :: char where "nl \<equiv> CHR 0x0A"

section \<open>Sending\<close>

text \<open>
  The arguments of \<open>Do\<close>, by dynamic type.  A \<open>float64\<close> is given by its \<open>%f\<close> text; \<open>ABad\<close> is a value of
  a type \<open>Send\<close> has no case for.
\<close>

datatype arg =
    AStr string | ABytes string | ABytesList "string list" | AStrList "string list" | AU32List "u32 list"
  | AInt u64 | AInt32 u32 | AInt64 u64 | AUint32 u32 | AUint64 u64
  | AFloat64 string | ABool bool | ANil | ABad

definition put :: "string \<Rightarrow> string" where
  "put s = fmt_nat (length s) @ [nl] @ s @ [nl]"

fun arg_put :: "arg \<Rightarrow> string option" where
  "arg_put (AStr s) = Some (put s)"
| "arg_put (ABytes s) = Some (put s)"
| "arg_put (ABytesList ss) = Some (concat (map put ss))"
| "arg_put (AStrList ss) = Some (concat (map put ss))"
| "arg_put (AU32List ns) = Some (concat (map (\<lambda>n. put (fmt_nat (unat n))) ns))"
| "arg_put (AInt n) = Some (put (fmt_int (sint n)))"
| "arg_put (AInt32 n) = Some (put (fmt_int (sint n)))"
| "arg_put (AInt64 n) = Some (put (fmt_int (sint n)))"
| "arg_put (AUint32 n) = Some (put (fmt_nat (unat n)))"
| "arg_put (AUint64 n) = Some (put (fmt_nat (unat n)))"
| "arg_put (AFloat64 s) = Some (put s)"
| "arg_put (ABool b) = Some (put (if b then ''1'' else ''0''))"
| "arg_put ANil = Some (put '''')"
| "arg_put ABad = None"

text \<open>The content of \<open>send_buf\<close> that \<open>Send\<close> writes to the socket, or the \<open>bad arguments\<close> error.\<close>

fun send_loop :: "arg list \<Rightarrow> string \<Rightarrow> string option" where
  "send_loop [] buf = Some (buf @ [nl])"
| "send_loop (a # as) buf = do { b \<leftarrow> arg_put a; send_loop as (buf @ b) }"

definition Send :: "arg list \<Rightarrow> string option" where
  "Send args = send_loop args ''''"

section \<open>Receiving\<close>

fun IndexByte :: "string \<Rightarrow> char \<Rightarrow> nat option" where
  "IndexByte [] b = None"
| "IndexByte (c # cs) b = (if c = b then Some 0 else map_option Suc (IndexByte cs b))"

lemma IndexByte_less: "IndexByte s b = Some i \<Longrightarrow> i < length s"
  by (induction s arbitrary: i) (auto split: if_splits)

text \<open>
  The loop of \<open>parse\<close>.  It returns the response (\<open>None\<close> for \<open>nil\<close>) and what is left of the receive
  buffer, which is consumed only at the empty line that ends a response.
\<close>

function parse_loop :: "string \<Rightarrow> nat \<Rightarrow> string list \<Rightarrow> (string list option \<times> string) option" where
  "parse_loop buf offset resp =
     (case IndexByte (drop offset buf) nl of
        None \<Rightarrow> Some (Some resp, buf)
      | Some idx \<Rightarrow>
          (let p = take idx (drop offset buf); offset' = offset + idx + 1
           in if p = '''' \<or> p = [CHR 0x0D] then
                (if resp = [] then parse_loop buf offset' resp
                 else Some (Some resp, drop offset' buf))
              else (case Atoi p of (sz, good) \<Rightarrow>
                if \<not> good \<or> sz < 0 then Some (None, buf)
                else if add64 (int offset') sz \<ge> int (length buf) then Some (Some resp, buf)
                else if add64 (int offset') sz < int offset' then None
                else parse_loop buf (offset' + nat sz + 1)
                       (resp @ [take (nat sz) (drop offset' buf)]))))"
  by pat_completeness auto
termination
  by (relation "measure (\<lambda>(buf, offset, resp). length buf - offset)") (auto dest!: IndexByte_less)

declare parse_loop.simps [simp del]

definition parse :: "string \<Rightarrow> (string list option \<times> string) option" where
  "parse recv_buf = parse_loop recv_buf 0 []"

text \<open>
  The socket holds what has arrived as a list of segments; one \<open>Read\<close> into the array \<open>tmp\<close> of 32 KB takes at most that
  much of the first segment and leaves the rest.  Where the segments end is up to the network, so every way in which the
  bytes may arrive is a list of segments.
\<close>

definition read_size :: nat where
  "read_size = 1024 * 32"

definition sock_Read :: "string list \<Rightarrow> (string \<times> string list) option" where
  "sock_Read inbox =
     (case inbox of
        [] \<Rightarrow> None
      | seg # rest \<Rightarrow> Some (take read_size seg, if length seg \<le> read_size then rest else drop read_size seg # rest))"

text \<open>
  \<open>Recv\<close>: what a read delivers is appended to the buffer.  The result is the response (empty for \<open>nil\<close>) or the read
  error, with the new buffer and the segments not yet read.
\<close>

datatype neterr = BadArguments | ReadError

definition unread :: "string list \<Rightarrow> nat" where
  "unread inbox = (\<Sum>seg\<leftarrow>inbox. Suc (length seg))"

lemma sock_Read_less: "sock_Read inbox = Some (tmp, rest) \<Longrightarrow> unread rest < unread inbox"
  by (auto simp: sock_Read_def unread_def read_size_def split: list.splits if_splits)

function Recv :: "string \<Rightarrow> string list \<Rightarrow> ((neterr + string list) \<times> string \<times> string list) option" where
  "Recv buf inbox =
     (case sock_Read inbox of
        None \<Rightarrow> Some (Inl ReadError, buf, [])
      | Some (tmp, inbox) \<Rightarrow> do {
          (resp, buf) \<leftarrow> parse (buf @ tmp);
          (case resp of
             None \<Rightarrow> Some (Inr [], buf, inbox)
           | Some resp \<Rightarrow> if resp \<noteq> [] then Some (Inr resp, buf, inbox) else Recv buf inbox)
        })"
  by pat_completeness auto
termination
  by (relation "measure (\<lambda>(buf, inbox). unread inbox)") (auto intro: sock_Read_less)

declare Recv.simps [simp del]

lemma Recv_empty [simp]: "Recv buf [] = Some (Inl ReadError, buf, [])"
  by (simp add: Recv.simps [of buf] sock_Read_def)

lemma sock_Read_small: "length seg \<le> read_size \<Longrightarrow> sock_Read (seg # inbox) = Some (seg, inbox)"
  by (simp add: sock_Read_def)

lemma Recv_small:
  assumes "length seg \<le> read_size" and "parse (buf @ seg) = Some (Some resp, buf')"
  shows "Recv buf (seg # inbox) = (if resp = [] then Recv buf' inbox else Some (Inr resp, buf', inbox))"
  using assms by (simp add: Recv.simps [of buf "seg # inbox"] sock_Read_small)

section \<open>A request and its reply\<close>

text \<open>
  The connection: the receive buffer and the segments on the way.  The peer is a parameter \<open>serve\<close>: what
  it does with the bytes written to it, and the segments in which its reply arrives.
\<close>

record ssdb_client =
  recv_buf :: string
  inbox :: "string list"

definition SSDBClient_Do ::
  "('s \<Rightarrow> string \<Rightarrow> string list \<times> 's) \<Rightarrow> ssdb_client \<Rightarrow> 's \<Rightarrow> arg list \<Rightarrow>
     ((neterr + string list) \<times> ssdb_client \<times> 's) option" where
  "SSDBClient_Do serve c s args =
     (case Send args of
        None \<Rightarrow> Some (Inl BadArguments, c, s)
      | Some bytes \<Rightarrow>
          (case serve s bytes of (segs, s) \<Rightarrow> do {
             (r, buf, rest) \<leftarrow> Recv (recv_buf c) (inbox c @ segs);
             Some (r, \<lparr>recv_buf = buf, inbox = rest\<rparr>, s)
           }))"

section \<open>Blocks are read back\<close>

definition message :: "string list \<Rightarrow> string" where
  "message vs = concat (map put vs) @ [nl]"

lemma IndexByte_append: "b \<notin> set xs \<Longrightarrow> IndexByte (xs @ b # ys) b = Some (length xs)"
  by (induction xs) auto

lemma nl_notin_fmt: "nl \<notin> set (fmt_nat n)"
  using fmt_nat_digits not_digit(3) by blast

lemma cr_notin_fmt: "fmt_nat n \<noteq> [CHR 0x0D]"
  using fmt_nat_digits [of "CHR 0x0D" n] not_digit(4) by (metis list.set_intros(1))

lemma Atoi_fmt_nat: "n < 2 ^ 63 \<Longrightarrow> Atoi (fmt_nat n) = (int n, True)"
  using ParseInt_fmt [of 64 "int n"] by (simp add: Atoi_def fmt_int_def)

lemma parse_loop_put:
  assumes "buf = pre @ put v @ suf" and "length buf < 2 ^ 63"
  shows "parse_loop buf (length pre) resp = parse_loop buf (length (pre @ put v)) (resp @ [v])"
proof -
  let ?f = "fmt_nat (length v)"
  have rest: "drop (length pre) buf = ?f @ nl # v @ nl # suf" by (simp add: assms(1) put_def)
  have idx: "IndexByte (drop (length pre) buf) nl = Some (length ?f)"
    unfolding rest by (rule IndexByte_append [OF nl_notin_fmt])
  have p: "take (length ?f) (drop (length pre) buf) = ?f" by (simp add: rest)
  have len: "length buf = length pre + length ?f + length v + length suf + 2" by (simp add: assms(1) put_def)
  let ?o = "length pre + length ?f + 1"
  have at: "Atoi ?f = (int (length v), True)" using len assms(2) by (intro Atoi_fmt_nat) linarith
  have sum: "add64 (int ?o) (int (length v)) = int ?o + int (length v)"
  proof (rule add64_small)
    have "int (length buf) < 2 ^ 63" using assms(2) by simp
    then show "int ?o + int (length v) < 2 ^ 63" using len by linarith
    show "- (2 ^ 63) \<le> int ?o + int (length v)" by (rule order_trans [of _ 0]) auto
  qed
  have v: "take (length v) (drop ?o buf) = v" by (simp add: assms(1) put_def)
  show ?thesis
    using p cr_notin_fmt at sum v len
    by (subst parse_loop.simps) (simp add: idx Let_def put_def ac_simps)
qed

lemma parse_loop_blocks:
  "buf = pre @ concat (map put vs) @ suf \<Longrightarrow> length buf < 2 ^ 63 \<Longrightarrow>
     parse_loop buf (length pre) resp = parse_loop buf (length (pre @ concat (map put vs))) (resp @ vs)"
proof (induction vs arbitrary: pre resp)
  case (Cons v vs)
  have "parse_loop buf (length pre) resp = parse_loop buf (length (pre @ put v)) (resp @ [v])"
    using Cons.prems by (intro parse_loop_put [where suf = "concat (map put vs) @ suf"]) auto
  also have "\<dots> = parse_loop buf (length ((pre @ put v) @ concat (map put vs))) ((resp @ [v]) @ vs)"
    using Cons.prems by (intro Cons.IH) auto
  finally show ?case by simp
qed simp

lemma parse_message:
  assumes "vs \<noteq> []" and "length (message vs @ rest) < 2 ^ 63"
  shows "parse (message vs @ rest) = Some (Some vs, rest)"
proof -
  let ?b = "message vs @ rest"
  have "parse ?b = parse_loop ?b (length ([] @ concat (map put vs))) ([] @ vs)"
    unfolding parse_def using assms parse_loop_blocks [of ?b "[]" vs "nl # rest" "[]"] by (simp add: message_def)
  also have "\<dots> = Some (Some vs, rest)"
    using assms(1) by (subst parse_loop.simps) (simp add: message_def)
  finally show ?thesis .
qed

text \<open>
  C13.  What is written as blocks is read back: the bytes of a message with at least one block, whatever
  follows them in the buffer, parse to exactly its blocks and leave exactly what follows.  Data may
  contain newlines, digits or empty blocks.
\<close>

theorem parse_roundtrip:
  assumes "vs \<noteq> []" and "length (message vs @ rest) < 2 ^ 63"
  shows "parse (message vs @ rest) = Some (Some vs, rest)"
  using assms by (rule parse_message)

theorem parse_roundtrip_witness:
  "parse (message [''ok'', '''', [CHR ''5'', nl]] @ ''2'') = Some (Some [''ok'', '''', [CHR ''5'', nl]], ''2'')"
  by (rule parse_roundtrip) (simp_all add: message_def put_def)

section \<open>Exchange with a server\<close>

text \<open>The block texts an argument stands for.\<close>

fun arg_strs :: "arg \<Rightarrow> string list" where
  "arg_strs (AStr s) = [s]"
| "arg_strs (ABytes s) = [s]"
| "arg_strs (ABytesList ss) = ss"
| "arg_strs (AStrList ss) = ss"
| "arg_strs (AU32List ns) = map (\<lambda>n. fmt_nat (unat n)) ns"
| "arg_strs (AInt n) = [fmt_int (sint n)]"
| "arg_strs (AInt32 n) = [fmt_int (sint n)]"
| "arg_strs (AInt64 n) = [fmt_int (sint n)]"
| "arg_strs (AUint32 n) = [fmt_nat (unat n)]"
| "arg_strs (AUint64 n) = [fmt_nat (unat n)]"
| "arg_strs (AFloat64 s) = [s]"
| "arg_strs (ABool b) = [if b then ''1'' else ''0'']"
| "arg_strs ANil = ['''']"
| "arg_strs ABad = []"

abbreviation request :: "arg list \<Rightarrow> string list" where
  "request args \<equiv> concat (map arg_strs args)"

lemma arg_put_strs: "a \<noteq> ABad \<Longrightarrow> arg_put a = Some (concat (map put (arg_strs a)))"
  by (cases a) (simp_all add: comp_def)

lemma send_loop_message:
  "ABad \<notin> set args \<Longrightarrow> send_loop args buf = Some (buf @ concat (map put (request args)) @ [nl])"
proof (induction args arbitrary: buf)
  case (Cons a args)
  then have "arg_put a = Some (concat (map put (arg_strs a)))" by (intro arg_put_strs) auto
  with Cons show ?case by simp
qed simp

lemma Send_message: "ABad \<notin> set args \<Longrightarrow> Send args = Some (message (request args))"
  by (simp add: Send_def message_def send_loop_message)

text \<open>
  A server that reads a request with the same framing and answers it by \<open>f\<close>, whose whole reply has arrived when the client
  reads: one segment.
\<close>

definition serve_with :: "('s \<Rightarrow> string list \<Rightarrow> string list \<times> 's) \<Rightarrow> 's \<Rightarrow> string \<Rightarrow> string list \<times> 's" where
  "serve_with f s bytes =
     (case parse bytes of
        Some (Some req, _) \<Rightarrow> (case f s req of (reply, s') \<Rightarrow> ([message reply], s'))
      | _ \<Rightarrow> ([], s))"

abbreviation idle :: ssdb_client where
  "idle \<equiv> \<lparr>recv_buf = '''', inbox = []\<rparr>"

text \<open>
  C14.  A request and its reply cross the wire unchanged: if the arguments are of supported types, the server sees
  exactly their texts, and if the reply fits the 32 KB of one read and has arrived as a whole when the client reads, the
  caller gets exactly its blocks; the connection is idle again, ready for the next request.  C15 says what happens to
  other replies.
\<close>

theorem Do_exchange:
  assumes "ABad \<notin> set args" and "request args \<noteq> []" and "f s (request args) = (reply, s')"
    and "reply \<noteq> []" and "length (message (request args)) < 2 ^ 63" and "length (message reply) \<le> 32768"
  shows "SSDBClient_Do (serve_with f) idle s args = Some (Inr reply, idle, s')"
  using assms parse_message [of "request args" "[]"] parse_message [of reply "[]"] Recv_small [of "message reply" "[]" reply "[]" "[]"]
  by (simp add: SSDBClient_Do_def Send_message serve_with_def read_size_def)

theorem Do_exchange_witness:
  "SSDBClient_Do (serve_with (\<lambda>n req. (''ok'' # req, Suc n))) idle 0 [AStr ''get'', AInt 5] =
     Some (Inr [''ok'', ''get'', fmt_int 5], idle, Suc 0)"
  by (rule Do_exchange) (simp_all add: message_def put_def fmt_int_def)

section \<open>Replies in two reads\<close>

text \<open>The blocks of a message that lie within its first \<open>k\<close> bytes.\<close>

fun blocks_within :: "string list \<Rightarrow> nat \<Rightarrow> string list" where
  "blocks_within [] k = []"
| "blocks_within (v # vs) k = (if length (put v) \<le> k then v # blocks_within vs (k - length (put v)) else [])"

lemma IndexByte_None: "b \<notin> set s \<Longrightarrow> IndexByte s b = None"
  by (induction s) auto

text \<open>An incomplete block ends the loop of \<open>parse\<close>.\<close>

lemma parse_loop_partial:
  assumes "buf = pre @ take k (put v)" and "k < length (put v)" and "length (pre @ put v) < 2 ^ 63"
  shows "parse_loop buf (length pre) resp = Some (Some resp, buf)"
proof (cases "k \<le> length (fmt_nat (length v))")
  case True
  then have "drop (length pre) buf = take k (fmt_nat (length v))" by (simp add: assms(1) put_def)
  then have "IndexByte (drop (length pre) buf) nl = None" using nl_notin_fmt by (metis IndexByte_None in_set_takeD)
  then show ?thesis by (simp add: parse_loop.simps [of buf])
next
  case False
  let ?f = "fmt_nat (length v)"
  obtain j where j: "k = length ?f + 1 + j" using False by (metis Suc_eq_plus1 add.commute add_Suc_right less_eqE not_le Suc_leI)
  have rest: "drop (length pre) buf = ?f @ nl # take j (v @ [nl])" by (simp add: assms(1) put_def j)
  have idx: "IndexByte (drop (length pre) buf) nl = Some (length ?f)"
    unfolding rest by (rule IndexByte_append [OF nl_notin_fmt])
  have p: "take (length ?f) (drop (length pre) buf) = ?f" by (simp add: rest)
  have jv: "j \<le> length v" using assms(2) by (simp add: put_def j)
  let ?o = "length pre + length ?f + 1"
  have len: "length buf = ?o + j" using jv by (simp add: assms(1) put_def j)
  have all: "length (pre @ put v) = ?o + length v + 1" by (simp add: put_def)
  have at: "Atoi ?f = (int (length v), True)" using all assms(3) by (intro Atoi_fmt_nat) linarith
  have sum: "add64 (int ?o) (int (length v)) = int ?o + int (length v)"
  proof (rule add64_small)
    have "int (length (pre @ put v)) < 2 ^ 63" using assms(3) by simp
    then show "int ?o + int (length v) < 2 ^ 63" using all by linarith
    show "- (2 ^ 63) \<le> int ?o + int (length v)" by (rule order_trans [of _ 0]) auto
  qed
  show ?thesis
    using p cr_notin_fmt at sum len jv
    by (subst parse_loop.simps) (simp add: idx Let_def ac_simps)
qed

lemma parse_loop_prefix:
  "buf = pre @ take k (concat (map put vs)) \<Longrightarrow> k \<le> length (concat (map put vs)) \<Longrightarrow>
     length (pre @ concat (map put vs)) < 2 ^ 63 \<Longrightarrow>
     parse_loop buf (length pre) resp = Some (Some (resp @ blocks_within vs k), buf)"
proof (induction vs arbitrary: pre k resp)
  case Nil
  then show ?case by (subst parse_loop.simps) simp
next
  case (Cons v vs)
  show ?case
  proof (cases "length (put v) \<le> k")
    case True
    let ?k = "k - length (put v)"
    have b: "buf = pre @ put v @ take ?k (concat (map put vs))" using Cons.prems(1) True by simp
    have "parse_loop buf (length pre) resp = parse_loop buf (length (pre @ put v)) (resp @ [v])"
      using b Cons.prems by (intro parse_loop_put) auto
    also have "\<dots> = Some (Some ((resp @ [v]) @ blocks_within vs ?k), buf)"
      using b Cons.prems True by (intro Cons.IH) auto
    finally show ?thesis using True by simp
  next
    case False
    then have "buf = pre @ take k (put v)" using Cons.prems(1) by simp
    then show ?thesis using parse_loop_partial [of buf pre k v resp] False Cons.prems(3) by simp
  qed
qed

lemma parse_prefix:
  assumes "k < length (message vs)" and "length (message vs) < 2 ^ 63"
  shows "parse (take k (message vs)) = Some (Some (blocks_within vs k), take k (message vs))"
  using parse_loop_prefix [of "take k (message vs)" "[]" k vs "[]"] assms
  by (simp add: parse_def message_def)

text \<open>
  C15.  A reply that arrives in two reads of at most 32 KB each, cut at any place \<open>k\<close>: if the first part holds complete blocks,
  \<open>Recv\<close> returns these as the whole reply, because \<open>parse\<close> returns the blocks it has when the buffer runs out; the part stays in
  the buffer, and the next \<open>Recv\<close>, for another request, returns this reply once more and in full.  Only a cut within the first
  block does no harm.  A reply of more than 32 KB (and at most 64 KB) that arrives at once is cut after 32 KB in the same way, since
  no read takes more.
\<close>

theorem Recv_split:
  assumes "vs \<noteq> []" and "k < length (message vs)" and "k \<le> 32768" and "length (message vs) - k \<le> 32768"
  shows "Recv [] [take k (message vs), drop k (message vs)] =
      (if blocks_within vs k = [] then Some (Inr vs, [], [])
       else Some (Inr (blocks_within vs k), take k (message vs), [drop k (message vs)])) \<and>
    Recv (take k (message vs)) [drop k (message vs)] = Some (Inr vs, [], []) \<and>
    (k = 32768 \<longrightarrow> Recv [] [message vs] = Recv [] [take k (message vs), drop k (message vs)])"
proof -
  let ?m = "message vs"
  have "length ?m \<le> 65536" using assms(3,4) by linarith
  then have len: "length ?m < 2 ^ 63" by simp
  have parts: "length (take k ?m) \<le> read_size" "length (drop k ?m) \<le> read_size" using assms(3,4) by (simp_all add: read_size_def)
  have "parse (take k ?m @ drop k ?m) = Some (Some vs, [])" using parse_message [of vs "[]"] assms(1) len by simp
  from Recv_small [OF parts(2) this] have second: "Recv (take k ?m) [drop k ?m] = Some (Inr vs, [], [])" using assms(1) by simp
  have "Recv [] [take k ?m, drop k ?m] = (if blocks_within vs k = [] then Recv (take k ?m) [drop k ?m]
      else Some (Inr (blocks_within vs k), take k ?m, [drop k ?m]))"
    using Recv_small [OF parts(1), of "[]"] parse_prefix [OF assms(2) len] by simp
  moreover have "Recv [] [?m] = Recv [] [take k ?m, drop k ?m]" if "k = 32768"
  proof -
    have "sock_Read [?m] = sock_Read [take k ?m, drop k ?m]" using that assms(2) by (simp add: sock_Read_def read_size_def)
    then show ?thesis by (simp only: Recv.simps [of "[]" "[_]"] Recv.simps [of "[]" "[_, _]"])
  qed
  ultimately show ?thesis using second by simp
qed

theorem Recv_split_witness:
  "Recv [] [take 6 (message [''ok'', ''5'']), drop 6 (message [''ok'', ''5''])] =
     Some (Inr [''ok''], take 6 (message [''ok'', ''5'']), [drop 6 (message [''ok'', ''5''])]) \<and>
   Recv [] [take 3 (message [''ok'', ''5'']), drop 3 (message [''ok'', ''5''])] = Some (Inr [''ok'', ''5''], [], [])"
  using Recv_split [of "[''ok'', ''5'']" 6] Recv_split [of "[''ok'', ''5'']" 3] by (simp add: message_def put_def)

end
