(* ===== verification/Client.thy ===== *)
theory Client
  imports To Wire
begin

text \<open>
  The values and the client core of \<^verbatim>\<open>src/basic/ssdb/gossdb\<close>: the typed readings of a reply
  (\<^verbatim>\<open>value.go\<close>), the encoding of arguments, the error convention and the retrying \<open>Do\<close> (\<^verbatim>\<open>client.go\<close>).
  A method of the client is a function of the network, its arguments and the state of the world \<open>'w\<close>
  (connection and server); \<open>None\<close> is a panic, an error value is \<open>Some e\<close> and \<open>None\<close> for \<open>nil\<close> as in Go.
\<close>

section \<open>Values\<close>

type_synonym val = string

definition Value_Int64 :: "val \<Rightarrow> int" where "Value_Int64 v = fst (ParseInt 64 v)"
definition Value_Int32 :: "val \<Rightarrow> int" where "Value_Int32 v = fst (ParseInt 32 v)"
definition Value_Int16 :: "val \<Rightarrow> int" where "Value_Int16 v = fst (ParseInt 16 v)"
definition Value_Int8 :: "val \<Rightarrow> int" where "Value_Int8 v = fst (ParseInt 8 v)"
definition Value_Int :: "val \<Rightarrow> int" where "Value_Int v = fst (ParseInt 64 v)"
definition Value_UInt64 :: "val \<Rightarrow> nat" where "Value_UInt64 v = fst (ParseUint 64 v)"
definition Value_UInt32 :: "val \<Rightarrow> nat" where "Value_UInt32 v = fst (ParseUint 32 v)"
definition Value_UInt16 :: "val \<Rightarrow> nat" where "Value_UInt16 v = fst (ParseUint 16 v)"
definition Value_UInt8 :: "val \<Rightarrow> nat" where "Value_UInt8 v = fst (ParseUint 8 v)"
definition Value_UInt :: "val \<Rightarrow> nat" where "Value_UInt v = fst (ParseUint 64 v)"
definition Value_String :: "val \<Rightarrow> string" where "Value_String v = v"
definition Value_Bytes :: "val \<Rightarrow> string" where "Value_Bytes v = v"
definition Value_Bool :: "val \<Rightarrow> bool" where "Value_Bool v \<longleftrightarrow> v = ''1''"
definition Value_IsEmpty :: "val \<Rightarrow> bool" where "Value_IsEmpty v \<longleftrightarrow> length v = 0"

text \<open>
  \<open>Conver\<close> by the kind of the target; \<open>None\<close> is its error.  The parse of a float is the parameter
  \<open>parseFloat\<close> (bits and text to the shortest text of the result).
\<close>

datatype kind = KString | KUint64 | KUint32 | KUint16 | KUint8 | KUint | KInt64 | KInt32 | KInt16 | KInt8 | KInt
  | KFloat64 | KFloat32 | KBool | KSlice | KInvalid | KOther

definition Conver :: "(nat \<Rightarrow> string \<Rightarrow> string) \<Rightarrow> kind \<Rightarrow> val \<Rightarrow> gval option" where
  "Conver parseFloat t v = (case t of
     KString \<Rightarrow> Some (GStr v)
   | KUint64 \<Rightarrow> Some (GUint64 (of_nat (Value_UInt64 v)))
   | KUint32 \<Rightarrow> Some (GUint32 (of_nat (Value_UInt32 v)))
   | KUint16 \<Rightarrow> Some (GUint16 (of_nat (Value_UInt16 v)))
   | KUint8 \<Rightarrow> Some (GUint8 (of_nat (Value_UInt8 v)))
   | KUint \<Rightarrow> Some (GUint (of_nat (Value_UInt v)))
   | KInt64 \<Rightarrow> Some (GInt64 (of_int (Value_Int64 v)))
   | KInt32 \<Rightarrow> Some (GInt32 (of_int (Value_Int32 v)))
   | KInt16 \<Rightarrow> Some (GInt16 (of_int (Value_Int16 v)))
   | KInt8 \<Rightarrow> Some (GInt8 (of_int (Value_Int8 v)))
   | KInt \<Rightarrow> Some (GInt (of_int (Value_Int v)))
   | KFloat64 \<Rightarrow> Some (GFloat64 (parseFloat 64 v))
   | KFloat32 \<Rightarrow> Some (GFloat32 (parseFloat 32 v))
   | KBool \<Rightarrow> Some (GBool (Value_Bool v))
   | KSlice \<Rightarrow> Some (GBytes (Value_Bytes v))
   | KInvalid \<Rightarrow> None
   | KOther \<Rightarrow> None)"

section \<open>Encoding and errors\<close>

definition encoding :: "gval \<Rightarrow> string option" where
  "encoding value = (case value of
     GStr t \<Rightarrow> Some t
   | GBytes t \<Rightarrow> Some t
   | GBool t \<Rightarrow> Some (if t then ''1'' else ''0'')
   | GNil \<Rightarrow> Some ''''
   | GSlice _ json \<Rightarrow> Some (case json of Some bs \<Rightarrow> bs
                       | None \<Rightarrow> ''can not support slice,please open the Encoding options'')
   | GOther _ json \<Rightarrow> Some (case json of Some bs \<Rightarrow> bs | None \<Rightarrow> ''not open Encoding options'')
   | _ \<Rightarrow> to_String value)"

text \<open>
  Errors by their origin: a failed exchange wrapped with the name of the operation, an empty reply, a
  reply whose status is not \<open>ok\<close>, a bad argument of \<open>PutObject\<close> or \<open>GetObject\<close>, and a text that is
  not a number.
\<close>

datatype error = EDo string | EResp | EAccess | EType | EAtoi

definition makeError :: "val list \<Rightarrow> error option" where
  "makeError resp =
     (case resp of [] \<Rightarrow> Some EResp
      | r # _ \<Rightarrow> if r = ''not_found'' then None else Some EAccess)"

section \<open>Do\<close>

text \<open>
  The network as the client sees it: \<open>exchange\<close> sends a request and gives the reply or an error,
  \<open>reopen\<close> is the loop that closes the connection and starts it again until that succeeds.
\<close>

record 'w net =
  exchange :: "'w \<Rightarrow> string list \<Rightarrow> val list option \<times> 'w"
  reopen :: "'w \<Rightarrow> 'w"

text \<open>What a method does to the world: its result, its error and the new state, or a panic.\<close>

type_synonym ('a, 'w) act = "'w \<Rightarrow> (('a \<times> error option) \<times> 'w) option"

definition try_Do :: "'w net \<Rightarrow> arg list \<Rightarrow> 'w \<Rightarrow> val list option \<times> 'w" where
  "try_Do N args w = (if ABad \<in> set args then (None, w) else exchange N w (request args))"

definition Client_Do :: "'w net \<Rightarrow> arg list \<Rightarrow> 'w \<Rightarrow> val list option \<times> 'w" where
  "Client_Do N args w =
     (case try_Do N args w of
        (Some resp, w) \<Rightarrow> (Some resp, w)
      | (None, w) \<Rightarrow> try_Do N args (reopen N w))"

text \<open>The test \<open>resp[0][0] == ok[0] && resp[0][1] == ok[1]\<close>, which indexes without a length check.\<close>

definition starts_ok :: "val list \<Rightarrow> bool option" where
  "starts_ok resp = do {
     r \<leftarrow> go_nth resp 0;
     c \<leftarrow> go_nth r 0;
     (if c \<noteq> CHR ''o'' then Some False
      else do { d \<leftarrow> go_nth r 1; Some (d = CHR ''k'') })
   }"

text \<open>
  The shape all methods share: do the request, wrap a failure, accept the reply if it has the length
  the method \<open>want\<close>s and starts with \<open>ok\<close>, otherwise report it by \<open>makeError\<close>.
\<close>

definition ask ::
  "'w net \<Rightarrow> string \<Rightarrow> arg list \<Rightarrow> 'a \<Rightarrow> (val list \<Rightarrow> bool) \<Rightarrow> (val list \<Rightarrow> 'a option) \<Rightarrow> ('a, 'w) act" where
  "ask N op args bad want good w =
     (case Client_Do N args w of
        (None, w) \<Rightarrow> Some ((bad, Some (EDo op)), w)
      | (Some resp, w) \<Rightarrow> do {
          b \<leftarrow> (if want resp then starts_ok resp else Some False);
          (if b then do { r \<leftarrow> good resp; Some ((r, None), w) }
           else Some ((bad, makeError resp), w))
        })"

text \<open>The wanted lengths and the readings of an accepted reply.\<close>

definition some_resp :: "val list \<Rightarrow> bool" where "some_resp resp \<longleftrightarrow> length resp > 0"
definition two_resp :: "val list \<Rightarrow> bool" where "two_resp resp \<longleftrightarrow> length resp = 2"
definition more_resp :: "val list \<Rightarrow> bool" where "more_resp resp \<longleftrightarrow> length resp > 1"

definition unit_of :: "val list \<Rightarrow> unit option" where "unit_of resp = Some ()"
definition value_of :: "val list \<Rightarrow> val option" where "value_of resp = go_nth resp 1"
definition int_of :: "val list \<Rightarrow> int option" where "int_of resp = map_option Value_Int64 (go_nth resp 1)"
definition flag_of :: "val list \<Rightarrow> bool option" where "flag_of resp = map_option (\<lambda>v. v = ''1'') (go_nth resp 1)"
definition rest_of :: "val list \<Rightarrow> val list option" where "rest_of resp = Some (drop 1 resp)"

fun pairs :: "'a list \<Rightarrow> ('a \<times> 'a) list" where
  "pairs (k # v # r) = (k, v) # pairs r"
| "pairs _ = []"

definition assigns :: "('k \<times> 'v) list \<Rightarrow> 'k \<rightharpoonup> 'v" where
  "assigns ps = map_of (rev ps)"

definition table_of :: "val list \<Rightarrow> (val \<rightharpoonup> val) option" where
  "table_of resp = Some (assigns (pairs (drop 1 resp)))"
definition lists_of :: "val list \<Rightarrow> (val list \<times> val list) option" where
  "lists_of resp = Some (map fst (pairs (drop 1 resp)), map snd (pairs (drop 1 resp)))"
definition scores_of :: "val list \<Rightarrow> (val \<rightharpoonup> int) option" where
  "scores_of resp = Some (assigns (map (\<lambda>(k, v). (k, Value_Int64 v)) (pairs (drop 1 resp))))"
definition score_lists_of :: "val list \<Rightarrow> (val list \<times> int list) option" where
  "score_lists_of resp = Some (map fst (pairs (drop 1 resp)), map (Value_Int64 \<circ> snd) (pairs (drop 1 resp)))"

text \<open>The argument slice built from a \<open>map\<close>, given as its entries in iteration order.\<close>

fun kv_args :: "(string \<times> gval) list \<Rightarrow> string list option" where
  "kv_args [] = Some []"
| "kv_args ((k, v) # kvs) = do { s \<leftarrow> encoding v; r \<leftarrow> kv_args kvs; Some (k # s # r) }"

fun encode_all :: "gval list \<Rightarrow> string list option" where
  "encode_all [] = Some []"
| "encode_all (v # vs) = do { s \<leftarrow> encoding v; r \<leftarrow> encode_all vs; Some (s # r) }"

section \<open>Server information\<close>

definition DbSize :: "'w net \<Rightarrow> (int, 'w) act" where
  "DbSize N w =
     (case Client_Do N [AStr ''dbsize''] w of
        (None, w) \<Rightarrow> Some ((- 1, Some (EDo ''dbsize'')), w)
      | (Some resp, w) \<Rightarrow> do {
          b \<leftarrow> (if two_resp resp then starts_ok resp else Some False);
          (if b then do {
             v \<leftarrow> go_nth resp 1;
             Some ((fst (Atoi v), if snd (Atoi v) then None else Some EAtoi), w)
           } else Some ((- 1, makeError resp), w))
        })"

definition Info :: "'w net \<Rightarrow> (val list, 'w) act" where
  "Info N w = ask N ''info'' [AStr ''info''] [] more_resp rest_of w"

definition Ping :: "'w net \<Rightarrow> 'w \<Rightarrow> (bool \<times> 'w) option" where
  "Ping N w = do { ((_, err), w) \<leftarrow> Info N w; Some (err = None, w) }"

section \<open>Facts shared by the methods\<close>

named_theorems reply_simps

lemma starts_ok_ok [reply_simps]: "starts_ok (''ok'' # r) = Some True"
  by (simp add: starts_ok_def go_nth_def)

lemma starts_ok_not_found [reply_simps]: "starts_ok (''not_found'' # r) = Some False"
  by (simp add: starts_ok_def go_nth_def)

lemmas wants [reply_simps] = some_resp_def two_resp_def more_resp_def
lemmas goods [reply_simps] = unit_of_def value_of_def int_of_def flag_of_def rest_of_def table_of_def
  lists_of_def scores_of_def score_lists_of_def go_nth_def

text \<open>The text of an encoded value, as a total function.\<close>

definition etext :: "gval \<Rightarrow> string" where
  "etext v = the (encoding v)"

lemma etext_simps [simp]:
  "etext (GStr s) = s" "etext (GBytes s) = s" "etext (GBool b) = (if b then ''1'' else ''0'')" "etext GNil = ''''"
  "etext (GInt i) = fmt_int (sint i)" "etext (GInt8 i8) = fmt_int (sint i8)" "etext (GInt16 i16) = fmt_int (sint i16)"
  "etext (GInt32 i32) = fmt_int (sint i32)" "etext (GInt64 i) = fmt_int (sint i)"
  "etext (GUint i) = fmt_nat (unat i)" "etext (GUint8 i8) = fmt_nat (unat i8)" "etext (GUint16 i16) = fmt_nat (unat i16)"
  "etext (GUint32 i32) = fmt_nat (unat i32)" "etext (GUint64 i) = fmt_nat (unat i)"
  "etext (GFloat32 s) = s" "etext (GFloat64 s) = s"
  by (simp_all add: etext_def encoding_def)

lemma encoding_total: "\<exists>s. encoding v = Some s"
  by (cases v) (simp_all add: encoding_def)

lemma encoding_etext [simp]: "encoding v = Some (etext v)"
  using encoding_total [of v] by (auto simp: etext_def)

lemma kv_args_eq [simp]: "kv_args kvs = Some (concat (map (\<lambda>(k, v). [k, etext v]) kvs))"
  by (induction kvs rule: kv_args.induct) auto

lemma encode_all_eq [simp]: "encode_all vs = Some (map etext vs)"
  by (induction vs) auto

lemma pairs_flat [simp]: "pairs (concat (map (\<lambda>(k, v). [k, v]) ps)) = ps"
  by (induction ps) auto

lemma assigns_distinct: "distinct (map fst ps) \<Longrightarrow> assigns ps = map_of ps"
  using map_of_inject_set [of "rev ps" ps] by (simp add: assigns_def rev_map [symmetric])

section \<open>Methods that compare the whole status\<close>

text \<open>A few methods test \<open>string(resp[0]) == "ok"\<close>, which cannot panic behind their length check.\<close>

definition ask_eq ::
  "'w net \<Rightarrow> string \<Rightarrow> arg list \<Rightarrow> 'a \<Rightarrow> (val list \<Rightarrow> bool) \<Rightarrow> (val list \<Rightarrow> 'a option) \<Rightarrow> ('a, 'w) act" where
  "ask_eq N op args bad want good w =
     (case Client_Do N args w of
        (None, w) \<Rightarrow> Some ((bad, Some (EDo op)), w)
      | (Some resp, w) \<Rightarrow> do {
          b \<leftarrow> (if want resp then map_option (\<lambda>r. r = ''ok'') (go_nth resp 0) else Some False);
          (if b then do { r \<leftarrow> good resp; Some ((r, None), w) }
           else Some ((bad, makeError resp), w))
        })"

lemmas run_simps = ask_def ask_eq_def Client_Do_def try_Do_def

section \<open>The plain commands of the connection\<close>

text \<open>
  \<open>Set\<close>, \<open>Get\<close> and \<open>Del\<close> of \<open>SSDBClient\<close> work without the retry.  Their result is an \<open>interface{}\<close>: \<open>None\<close>
  for \<open>nil\<close>; a bad response is the error \<open>EAccess\<close>.
\<close>

definition SSDBClient_Set :: "'w net \<Rightarrow> string \<Rightarrow> string \<Rightarrow> (bool option, 'w) act" where
  "SSDBClient_Set N key v w =
     (case try_Do N [AStr ''set'', AStr key, AStr v] w of
        (None, w) \<Rightarrow> Some ((None, Some (EDo ''set'')), w)
      | (Some resp, w) \<Rightarrow> do {
          b \<leftarrow> (if two_resp resp then starts_ok resp else Some False);
          Some (if b then (Some True, None) else (None, Some EAccess), w)
        })"

definition SSDBClient_Get :: "'w net \<Rightarrow> string \<Rightarrow> (val option, 'w) act" where
  "SSDBClient_Get N key w =
     (case try_Do N [AStr ''get'', AStr key] w of
        (None, w) \<Rightarrow> Some ((None, Some (EDo ''get'')), w)
      | (Some resp, w) \<Rightarrow> do {
          b \<leftarrow> (if two_resp resp then starts_ok resp else Some False);
          (if b then do { v \<leftarrow> go_nth resp 1; Some ((Some v, None), w) }
           else do {
             r \<leftarrow> go_nth resp 0;
             Some (if r = ''not_found'' then (None, None) else (None, Some EAccess), w)
           })
        })"

definition SSDBClient_Del :: "'w net \<Rightarrow> string \<Rightarrow> (bool option, 'w) act" where
  "SSDBClient_Del N key w =
     (case try_Do N [AStr ''del'', AStr key] w of
        (None, w) \<Rightarrow> Some ((None, Some (EDo ''del'')), w)
      | (Some resp, w) \<Rightarrow> do {
          b \<leftarrow> (if length resp = 1 then starts_ok resp else Some False);
          Some (if b then (Some True, None) else (None, Some EAccess), w)
        })"

end
