(* ===== verification/HashStore.thy ===== *)
theory HashStore
  imports Client
begin

text \<open>
  The hash-map commands of \<^verbatim>\<open>src/basic/ssdb/gossdb/hset.go\<close>, one definition per method, and the storage
  of whole objects as hash maps (\<open>PutObject\<close>, \<open>GetObject\<close>).
\<close>

section \<open>Commands\<close>

definition Hset :: "'w net \<Rightarrow> string \<Rightarrow> string \<Rightarrow> gval \<Rightarrow> (unit, 'w) act" where
  "Hset N setName key value w = do {
     s_value \<leftarrow> encoding value;
     ask N ''Hset'' [AStr ''hset'', AStr setName, AStr key, AStr s_value] () some_resp unit_of w
   }"

definition Hget :: "'w net \<Rightarrow> string \<Rightarrow> string \<Rightarrow> (val, 'w) act" where
  "Hget N setName key w =
     ask N ''Hget'' [AStr ''hget'', AStr setName, AStr key] '''' two_resp value_of w"

definition Hdel :: "'w net \<Rightarrow> string \<Rightarrow> string \<Rightarrow> (unit, 'w) act" where
  "Hdel N setName key w =
     ask N ''Hdel'' [AStr ''hdel'', AStr setName, AStr key] () some_resp unit_of w"

definition Hexists :: "'w net \<Rightarrow> string \<Rightarrow> string \<Rightarrow> (bool, 'w) act" where
  "Hexists N setName key w =
     ask N ''Hexists'' [AStr ''hexists'', AStr setName, AStr key] False two_resp flag_of w"

definition Hclear :: "'w net \<Rightarrow> string \<Rightarrow> (unit, 'w) act" where
  "Hclear N setName w =
     ask N ''Hclear'' [AStr ''hclear'', AStr setName] () some_resp unit_of w"

definition Hscan :: "'w net \<Rightarrow> string \<Rightarrow> string \<Rightarrow> string \<Rightarrow> u64 \<Rightarrow> ((val \<rightharpoonup> val), 'w) act" where
  "Hscan N setName keyStart keyEnd limit w =
     ask N ''Hscan'' [AStr ''hscan'', AStr setName, AStr keyStart, AStr keyEnd, AInt64 limit] Map.empty some_resp table_of w"

definition Hrscan :: "'w net \<Rightarrow> string \<Rightarrow> string \<Rightarrow> string \<Rightarrow> u64 \<Rightarrow> ((val \<rightharpoonup> val), 'w) act" where
  "Hrscan N setName keyStart keyEnd limit w =
     ask N ''Hrscan'' [AStr ''hrscan'', AStr setName, AStr keyStart, AStr keyEnd, AInt64 limit] Map.empty some_resp table_of w"

definition MultiHset :: "'w net \<Rightarrow> string \<Rightarrow> (string \<times> gval) list \<Rightarrow> (unit, 'w) act" where
  "MultiHset N setName kvs w = do {
     args \<leftarrow> kv_args kvs;
     ask N ''MultiHset'' [AStr ''multi_hset'', AStr setName, AStrList args] () some_resp unit_of w
   }"

definition MultiHget :: "'w net \<Rightarrow> string \<Rightarrow> string list \<Rightarrow> ((val \<rightharpoonup> val), 'w) act" where
  "MultiHget N setName key w =
    (if length key = 0 then Some ((Map.empty, None), w)
     else ask N ''MultiHget'' [AStr ''multi_hget'', AStr setName, AStrList key] Map.empty some_resp table_of w)"

definition MultiHgetSlice :: "'w net \<Rightarrow> string \<Rightarrow> string list \<Rightarrow> ((val list \<times> val list), 'w) act" where
  "MultiHgetSlice N setName key w =
    (if length key = 0 then Some ((([], []), None), w)
     else ask N ''MultiHgetSlice'' [AStr ''multi_hget'', AStr setName, AStrList key] ([], []) some_resp lists_of w)"

definition MultiHgetArray :: "'w net \<Rightarrow> string \<Rightarrow> string list \<Rightarrow> ((val \<rightharpoonup> val), 'w) act" where
  "MultiHgetArray N setName key w =
    (if length key = 0 then Some ((Map.empty, None), w)
     else ask N ''MultiHget'' [AStr ''multi_hget'', AStr setName, AStrList key] Map.empty some_resp table_of w)"

definition MultiHgetSliceArray :: "'w net \<Rightarrow> string \<Rightarrow> string list \<Rightarrow> ((val list \<times> val list), 'w) act" where
  "MultiHgetSliceArray N setName key w =
    (if length key = 0 then Some ((([], []), None), w)
     else ask N ''MultiHgetSlice'' [AStr ''multi_hget'', AStr setName, AStrList key] ([], []) some_resp lists_of w)"

definition MultiHgetAll :: "'w net \<Rightarrow> string \<Rightarrow> ((val \<rightharpoonup> val), 'w) act" where
  "MultiHgetAll N setName w =
     ask N ''MultiHgetAll'' [AStr ''hgetall'', AStr setName] Map.empty some_resp table_of w"

definition MultiHgetAllSlice :: "'w net \<Rightarrow> string \<Rightarrow> ((val list \<times> val list), 'w) act" where
  "MultiHgetAllSlice N setName w =
     ask N ''MultiHgetAllSlice'' [AStr ''hgetall'', AStr setName] ([], []) some_resp lists_of w"

definition MultiHdel :: "'w net \<Rightarrow> string \<Rightarrow> string list \<Rightarrow> (unit, 'w) act" where
  "MultiHdel N setName key w =
    (if length key = 0 then Some (((), None), w)
     else ask N ''MultiHdel'' [AStr ''multi_hdel'', AStr setName, AStrList key] () some_resp unit_of w)"

definition MultiHdelArray :: "'w net \<Rightarrow> string \<Rightarrow> string list \<Rightarrow> (unit, 'w) act" where
  "MultiHdelArray N setName key w =
    (if length key = 0 then Some (((), None), w)
     else ask N ''MultiHdel'' [AStr ''multi_hdel'', AStr setName, AStrList key] () some_resp unit_of w)"

definition Hlist :: "'w net \<Rightarrow> string \<Rightarrow> string \<Rightarrow> u64 \<Rightarrow> (val list, 'w) act" where
  "Hlist N nameStart nameEnd limit w = do {
     s_limit \<leftarrow> encoding (GInt64 limit);
     ask N ''Hlist'' [AStr ''hlist'', AStr nameStart, AStr nameEnd, AStr s_limit] [] some_resp rest_of w
   }"

definition Hincr :: "'w net \<Rightarrow> string \<Rightarrow> string \<Rightarrow> u64 \<Rightarrow> (int, 'w) act" where
  "Hincr N setName key num w =
     ask N ''Hincr'' [AStr ''hincr'', AStr setName, AStr key, AInt64 num] (- 1) two_resp int_of w"

definition Hsize :: "'w net \<Rightarrow> string \<Rightarrow> (int, 'w) act" where
  "Hsize N setName w =
     ask N ''Hsize'' [AStr ''hsize'', AStr setName] (- 1) two_resp int_of w"

definition Hkeys :: "'w net \<Rightarrow> string \<Rightarrow> string \<Rightarrow> string \<Rightarrow> u64 \<Rightarrow> (val list, 'w) act" where
  "Hkeys N setName keyStart keyEnd limit w = do {
     s_limit \<leftarrow> encoding (GInt64 limit);
     ask_eq N ''Hkeys'' [AStr ''hkeys'', AStr setName, AStr keyStart, AStr keyEnd, AStr s_limit] [] some_resp rest_of w
   }"

definition HgetAll :: "'w net \<Rightarrow> string \<Rightarrow> ((val \<rightharpoonup> val), 'w) act" where
  "HgetAll N setName w = MultiHgetAll N setName w"

section \<open>Objects\<close>

text \<open>
  An object is the list of its exported fields with their values.  \<open>PutObject\<close> stores every field
  under its name; \<open>GetObject\<close> reads the whole hash map and overwrites the fields it names, when the
  text converts to a value of the type of the field.
\<close>

type_synonym gobject = "(string \<times> gval) list"

fun kind_of :: "gval \<Rightarrow> kind" where
  "kind_of GNil = KInvalid"
| "kind_of (GBool _) = KBool"
| "kind_of (GInt _) = KInt"
| "kind_of (GInt8 _) = KInt8"
| "kind_of (GInt16 _) = KInt16"
| "kind_of (GInt32 _) = KInt32"
| "kind_of (GInt64 _) = KInt64"
| "kind_of (GUint _) = KUint"
| "kind_of (GUint8 _) = KUint8"
| "kind_of (GUint16 _) = KUint16"
| "kind_of (GUint32 _) = KUint32"
| "kind_of (GUint64 _) = KUint64"
| "kind_of (GFloat32 _) = KFloat32"
| "kind_of (GFloat64 _) = KFloat64"
| "kind_of (GStr _) = KString"
| "kind_of (GBytes _) = KSlice"
| "kind_of (GSlice _ _) = KSlice"
| "kind_of (GOther _ _) = KOther"

definition same_type :: "gval \<Rightarrow> gval \<Rightarrow> bool" where
  "same_type new old = (case old of GSlice _ _ \<Rightarrow> False | _ \<Rightarrow> kind_of new = kind_of old)"

definition set_field :: "(nat \<Rightarrow> string \<Rightarrow> string) \<Rightarrow> gobject \<Rightarrow> string \<times> val \<Rightarrow> gobject" where
  "set_field pf obj kv =
     (case map_of obj (fst kv) of
        None \<Rightarrow> obj
      | Some old \<Rightarrow>
          (case Conver pf (kind_of old) (snd kv) of
             None \<Rightarrow> obj
           | Some new \<Rightarrow> if same_type new old
                         then map (\<lambda>(f, x). (f, if f = fst kv then new else x)) obj
                         else obj))"

definition PutObject :: "'w net \<Rightarrow> arg \<Rightarrow> gobject \<Rightarrow> (unit, 'w) act" where
  "PutObject N setName obj w = do {
     args \<leftarrow> kv_args obj;
     ask_eq N ''MultiHset'' [AStr ''multi_hset'', setName, AStrList args] () some_resp unit_of w
   }"

definition GetObject ::
  "(nat \<Rightarrow> string \<Rightarrow> string) \<Rightarrow> 'w net \<Rightarrow> string \<Rightarrow> gobject \<Rightarrow> 'w \<Rightarrow> (gobject \<times> error option) \<times> 'w" where
  "GetObject pf N setName obj w =
     (case Client_Do N [AStr ''hgetall'', AStr setName] w of
        (None, w) \<Rightarrow> ((obj, Some (EDo ''MultiHget'')), w)
      | (Some resp, w) \<Rightarrow>
          if length resp > 1 \<and> resp ! 0 = ''ok''
          then ((foldl (set_field pf) obj (pairs (drop 1 resp)), None), w)
          else ((obj, Some (EDo ''MultiHget'')), w))"

section \<open>Fields are read back\<close>

text \<open>The values whose text converts back: integers, strings, byte slices, booleans and floats.\<close>

fun storable :: "gval \<Rightarrow> bool" where
  "storable GNil = False"
| "storable (GSlice _ _) = False"
| "storable (GOther _ _) = False"
| "storable _ = True"

lemma ParseInt_word:
  "fst (ParseInt 64 (fmt_int (sint a))) = sint a" "fst (ParseInt 32 (fmt_int (sint b))) = sint b"
  "fst (ParseInt 16 (fmt_int (sint c))) = sint c" "fst (ParseInt 8 (fmt_int (sint d))) = sint d"
  for a :: u64 and b :: u32 and c :: u16 and d :: u8
  using sint_ge [of a] sint_lt [of a] sint_ge [of b] sint_lt [of b]
    sint_ge [of c] sint_lt [of c] sint_ge [of d] sint_lt [of d]
  by (simp_all add: ParseInt_fmt)

lemma ParseUint_word:
  "fst (ParseUint 64 (fmt_nat (unat a))) = unat a" "fst (ParseUint 32 (fmt_nat (unat b))) = unat b"
  "fst (ParseUint 16 (fmt_nat (unat c))) = unat c" "fst (ParseUint 8 (fmt_nat (unat d))) = unat d"
  for a :: u64 and b :: u32 and c :: u16 and d :: u8
  using unsigned_less [of a, where ?'a = nat] unsigned_less [of b, where ?'a = nat]
    unsigned_less [of c, where ?'a = nat] unsigned_less [of d, where ?'a = nat]
  by (simp_all add: ParseUint_fmt)

lemmas value_defs = Value_Int64_def Value_Int32_def Value_Int16_def Value_Int8_def Value_Int_def Value_UInt64_def
  Value_UInt32_def Value_UInt16_def Value_UInt8_def Value_UInt_def Value_Bool_def Value_Bytes_def

text \<open>A float is given by the shortest text that \<open>AppendFloat\<close> writes for it, which \<open>ParseFloat\<close> reads back.\<close>

fun float_text :: "(nat \<Rightarrow> string \<Rightarrow> string) \<Rightarrow> gval \<Rightarrow> bool" where
  "float_text pf (GFloat32 s) \<longleftrightarrow> pf 32 s = s"
| "float_text pf (GFloat64 s) \<longleftrightarrow> pf 64 s = s"
| "float_text pf _ \<longleftrightarrow> True"

lemma Conver_etext:
  assumes "storable v" and "float_text pf v"
  shows "Conver pf (kind_of v) (etext v) = Some v"
  using assms by (cases v) (simp_all add: Conver_def value_defs ParseInt_word ParseUint_word)

text \<open>What reading a whole hash map does to one field.\<close>

definition read_field :: "(nat \<Rightarrow> string \<Rightarrow> string) \<Rightarrow> gval \<Rightarrow> val \<Rightarrow> gval" where
  "read_field pf x v =
     (case Conver pf (kind_of x) v of None \<Rightarrow> x | Some new \<Rightarrow> if same_type new x then new else x)"

lemma set_field_eq:
  assumes "distinct (map fst obj)"
  shows "set_field pf obj (k, v) = map (\<lambda>(f, x). (f, if f = k then read_field pf x v else x)) obj"
proof (cases "map_of obj k")
  case None
  then have "map (\<lambda>(f, x). (f, if f = k then read_field pf x v else x)) obj = obj"
    by (intro map_idI) (force simp: map_of_eq_None_iff)
  with None show ?thesis by (simp add: set_field_def)
next
  case (Some old)
  have only: "x = old" if "(k, x) \<in> set obj" for x using map_of_is_SomeI [OF assms that] Some by simp
  have "set_field pf obj (k, v) = map (\<lambda>(f, x). (f, if f = k then read_field pf old v else x)) obj"
  proof (cases "read_field pf old v = old")
    case True
    have "map (\<lambda>(f, x). (f, if f = k then read_field pf old v else x)) obj = obj"
      unfolding True using only by (intro map_idI) auto
    moreover have "Conver pf (kind_of old) v = Some y \<Longrightarrow> same_type y old \<Longrightarrow> y = read_field pf old v" for y
      by (simp add: read_field_def)
    ultimately show ?thesis using Some by (auto simp: set_field_def split: option.splits)
  next
    case False
    with Some show ?thesis by (auto simp: set_field_def read_field_def split: option.splits if_splits)
  qed
  also have "\<dots> = map (\<lambda>(f, x). (f, if f = k then read_field pf x v else x)) obj"
    using only by (intro map_cong refl) auto
  finally show ?thesis .
qed

lemma foldl_set_field:
  "distinct (map fst ps) \<Longrightarrow> distinct (map fst obj) \<Longrightarrow>
     foldl (set_field pf) obj ps =
     map (\<lambda>(f, x). (f, case map_of ps f of None \<Rightarrow> x | Some v \<Rightarrow> read_field pf x v)) obj"
proof (induction ps arbitrary: obj)
  case Nil
  then show ?case by (simp add: case_prod_unfold)
next
  case (Cons kv ps)
  obtain k v where kv: "kv = (k, v)" by fastforce
  let ?obj = "map (\<lambda>(f, x). (f, if f = k then read_field pf x v else x)) obj"
  have "map fst ?obj = map fst obj" by (simp add: case_prod_unfold comp_def)
  then have "distinct (map fst ?obj)" using Cons.prems(2) by (simp only:)
  then have "foldl (set_field pf) ?obj ps =
      map (\<lambda>(f, x). (f, case map_of ps f of None \<Rightarrow> x | Some v \<Rightarrow> read_field pf x v)) ?obj"
    using Cons.prems(1) by (intro Cons.IH) auto
  moreover have "map_of ps k = None" using Cons.prems kv by (simp add: map_of_eq_None_iff)
  ultimately show ?case using Cons.prems kv by (auto simp: set_field_eq)
qed

lemma read_field_etext:
  assumes "storable v" and "same_type v x" and "float_text pf v"
  shows "read_field pf x (etext v) = v"
proof -
  have "kind_of x = kind_of v" using assms(1,2) by (cases x) (auto simp: same_type_def)
  then show ?thesis using Conver_etext [OF assms(1,3)] assms(2) by (simp add: read_field_def)
qed

end
