(* ===== verification/KvStore.thy ===== *)
theory KvStore
  imports Client
begin

text \<open>
  The plain key-value commands of \<^verbatim>\<open>src/basic/ssdb/gossdb/set.go\<close>, one definition per method.  Optional
  arguments (\<open>ttl ...int64\<close>, \<open>size ...int64\<close>) are lists.
\<close>

definition Set :: "'w net \<Rightarrow> string \<Rightarrow> gval \<Rightarrow> u64 list \<Rightarrow> (unit, 'w) act" where
  "Set N key val ttl w = do {
     s_val \<leftarrow> encoding val;
     (case ttl of
        [] \<Rightarrow> ask N ''Set'' [AStr ''set'', AStr key, AStr s_val] () some_resp unit_of w
      | t # _ \<Rightarrow> ask N ''Set'' [AStr ''setx'', AStr key, AStr s_val, AInt64 t] () some_resp unit_of w)
   }"

definition Setnx :: "'w net \<Rightarrow> string \<Rightarrow> gval \<Rightarrow> (val, 'w) act" where
  "Setnx N key val w = do {
     s_val \<leftarrow> encoding val;
     ask N ''Setnx'' [AStr ''setnx'', AStr key, AStr s_val] '''' some_resp value_of w
   }"

definition Get :: "'w net \<Rightarrow> string \<Rightarrow> (val, 'w) act" where
  "Get N key w =
     ask N ''Get'' [AStr ''get'', AStr key] '''' two_resp value_of w"

definition Getset :: "'w net \<Rightarrow> string \<Rightarrow> arg \<Rightarrow> (val, 'w) act" where
  "Getset N key val w =
     ask N ''Getset'' [AStr ''getset'', AStr key, val] '''' two_resp value_of w"

definition Expire :: "'w net \<Rightarrow> string \<Rightarrow> u64 \<Rightarrow> (bool, 'w) act" where
  "Expire N key ttl w =
     ask N ''Expire'' [AStr ''expire'', AStr key, AInt64 ttl] False two_resp flag_of w"

definition Exists :: "'w net \<Rightarrow> string \<Rightarrow> (bool, 'w) act" where
  "Exists N key w =
     ask N ''Exists'' [AStr ''exists'', AStr key] False two_resp flag_of w"

definition Del :: "'w net \<Rightarrow> string \<Rightarrow> (unit, 'w) act" where
  "Del N key w =
     ask N ''Del'' [AStr ''del'', AStr key] () some_resp unit_of w"

definition Ttl :: "'w net \<Rightarrow> string \<Rightarrow> (int, 'w) act" where
  "Ttl N key w =
     ask N ''Ttl'' [AStr ''ttl'', AStr key] (- 1) some_resp int_of w"

definition Incr :: "'w net \<Rightarrow> string \<Rightarrow> u64 \<Rightarrow> (int, 'w) act" where
  "Incr N key num w =
     ask_eq N ''Incr'' [AStr ''incr'', AStr key, AInt64 num] (- 1) two_resp int_of w"

definition MultiSet :: "'w net \<Rightarrow> (string \<times> gval) list \<Rightarrow> (unit, 'w) act" where
  "MultiSet N kvs w = do {
     args \<leftarrow> kv_args kvs;
     ask N ''MultiSet'' [AStr ''multi_set'', AStrList args] () some_resp unit_of w
   }"

definition MultiGet :: "'w net \<Rightarrow> string list \<Rightarrow> ((val \<rightharpoonup> val), 'w) act" where
  "MultiGet N key w =
    (if length key = 0 then Some ((Map.empty, None), w)
     else ask N ''MultiGet'' [AStr ''multi_get'', AStrList key] Map.empty some_resp table_of w)"

definition MultiGetSlice :: "'w net \<Rightarrow> string list \<Rightarrow> ((val list \<times> val list), 'w) act" where
  "MultiGetSlice N key w =
    (if length key = 0 then Some ((([], []), None), w)
     else ask N ''MultiGet'' [AStr ''multi_get'', AStrList key] ([], []) some_resp lists_of w)"

definition MultiGetArray :: "'w net \<Rightarrow> string list \<Rightarrow> ((val \<rightharpoonup> val), 'w) act" where
  "MultiGetArray N key w =
    (if length key = 0 then Some ((Map.empty, None), w)
     else ask N ''MultiGet'' [AStr ''multi_get'', AStrList key] Map.empty some_resp table_of w)"

definition MultiGetSliceArray :: "'w net \<Rightarrow> string list \<Rightarrow> ((val list \<times> val list), 'w) act" where
  "MultiGetSliceArray N key w =
    (if length key = 0 then Some ((([], []), None), w)
     else ask N ''MultiGet'' [AStr ''multi_get'', AStrList key] ([], []) some_resp lists_of w)"

definition MultiDel :: "'w net \<Rightarrow> string list \<Rightarrow> (unit, 'w) act" where
  "MultiDel N key w =
    (if length key = 0 then Some (((), None), w)
     else ask N ''MultiDel'' [AStr ''multi_del'', AStrList key] () some_resp unit_of w)"

definition Substr :: "'w net \<Rightarrow> string \<Rightarrow> u64 \<Rightarrow> u64 list \<Rightarrow> (val, 'w) act" where
  "Substr N key start size_opt w =
    (case size_opt of
       [] \<Rightarrow> ask N ''Substr'' [AStr ''substr'', AStr key, AInt64 start] '''' more_resp value_of w
     | s # _ \<Rightarrow> ask N ''Substr'' [AStr ''substr'', AStr key, AInt64 start, AInt64 s] '''' more_resp value_of w)"

definition Strlen :: "'w net \<Rightarrow> string \<Rightarrow> (int, 'w) act" where
  "Strlen N key w =
     ask N ''Strlen'' [AStr ''strlen'', AStr key] (- 1) more_resp int_of w"

definition Keys :: "'w net \<Rightarrow> string \<Rightarrow> string \<Rightarrow> u64 \<Rightarrow> (val list, 'w) act" where
  "Keys N keyStart keyEnd limit w =
     ask N ''Keys'' [AStr ''keys'', AStr keyStart, AStr keyEnd, AInt64 limit] [] some_resp rest_of w"

definition Rkeys :: "'w net \<Rightarrow> string \<Rightarrow> string \<Rightarrow> u64 \<Rightarrow> (val list, 'w) act" where
  "Rkeys N keyStart keyEnd limit w =
     ask N ''Rkeys'' [AStr ''rkeys'', AStr keyStart, AStr keyEnd, AInt64 limit] [] some_resp rest_of w"

definition Scan :: "'w net \<Rightarrow> string \<Rightarrow> string \<Rightarrow> u64 \<Rightarrow> ((val \<rightharpoonup> val), 'w) act" where
  "Scan N keyStart keyEnd limit w =
     ask N ''Scan'' [AStr ''scan'', AStr keyStart, AStr keyEnd, AInt64 limit] Map.empty some_resp table_of w"

definition Rscan :: "'w net \<Rightarrow> string \<Rightarrow> string \<Rightarrow> u64 \<Rightarrow> ((val \<rightharpoonup> val), 'w) act" where
  "Rscan N keyStart keyEnd limit w =
     ask N ''Rscan'' [AStr ''rscan'', AStr keyStart, AStr keyEnd, AInt64 limit] Map.empty some_resp table_of w"

end
