(* ===== verification/QueueStore.thy ===== *)
theory QueueStore
  imports Client
begin

text \<open>
  The list commands of \<^verbatim>\<open>src/basic/ssdb/gossdb/queue.go\<close>, one definition per method.  The command of a
  direction is picked from a table by index; an optional \<open>reverse ...bool\<close> is a list.
\<close>

definition qtrim_cmd :: "string list" where "qtrim_cmd = [''qtrim_front'', ''qtrim_back'']"
definition qpush_cmd :: "string list" where "qpush_cmd = [''qpush_front'', ''qpush_back'']"
definition qpop_cmd :: "string list" where "qpop_cmd = [''qpop_front'', ''qpop_back'']"
definition qslice_cmd :: "string list" where "qslice_cmd = [''qslice'', ''qrange'']"

definition Qsize :: "'w net \<Rightarrow> string \<Rightarrow> (int, 'w) act" where
  "Qsize N name w =
     ask N ''Qsize'' [AStr ''qsize'', AStr name] (- 1) two_resp int_of w"

definition Qclear :: "'w net \<Rightarrow> string \<Rightarrow> (unit, 'w) act" where
  "Qclear N name w =
     ask N ''Qclear'' [AStr ''qclear'', AStr name] () some_resp unit_of w"

definition qpush :: "'w net \<Rightarrow> string \<Rightarrow> bool \<Rightarrow> gval list \<Rightarrow> (int, 'w) act" where
  "qpush N name reverse vs w =
    (if length vs = 0 then Some ((- 1, None), w)
     else (let index = (if reverse then 1 else 0) in do {
       args \<leftarrow> encode_all vs;
       cmd \<leftarrow> go_nth qpush_cmd index;
       ask N cmd [AStr cmd, AStrList (name # args)] (- 1) two_resp int_of w
     }))"

definition Qpush_front :: "'w net \<Rightarrow> string \<Rightarrow> gval list \<Rightarrow> (int, 'w) act" where
  "Qpush_front N name vs w = qpush N name False vs w"

definition Qpush :: "'w net \<Rightarrow> string \<Rightarrow> gval list \<Rightarrow> (int, 'w) act" where
  "Qpush N name vs w = qpush N name True vs w"

definition Qpush_back :: "'w net \<Rightarrow> string \<Rightarrow> gval list \<Rightarrow> (int, 'w) act" where
  "Qpush_back N name vs w = qpush N name True vs w"

definition Qpop :: "'w net \<Rightarrow> string \<Rightarrow> bool list \<Rightarrow> (val, 'w) act" where
  "Qpop N name reverse w =
    (let index = (if length reverse > 0 \<and> \<not> reverse ! 0 then 0 else 1) in do {
       cmd \<leftarrow> go_nth qpop_cmd index;
       ask N cmd [AStr cmd, AStr name] '''' two_resp value_of w
     })"

definition Qpop_front :: "'w net \<Rightarrow> string \<Rightarrow> (val, 'w) act" where
  "Qpop_front N name w = Qpop N name [] w"

definition Qpop_back :: "'w net \<Rightarrow> string \<Rightarrow> (val, 'w) act" where
  "Qpop_back N name w = Qpop N name [True] w"

definition QpopArray :: "'w net \<Rightarrow> string \<Rightarrow> u64 \<Rightarrow> bool list \<Rightarrow> (val list, 'w) act" where
  "QpopArray N name sz reverse w =
    (let index = (if length reverse > 0 \<and> \<not> reverse ! 0 then 0 else 1) in do {
       cmd \<leftarrow> go_nth qpop_cmd index;
       ask N cmd [AStr cmd, AStr name, AInt64 sz] [] more_resp rest_of w
     })"

definition Qpop_front_array :: "'w net \<Rightarrow> string \<Rightarrow> u64 \<Rightarrow> (val list, 'w) act" where
  "Qpop_front_array N name sz w = QpopArray N name sz [False] w"

definition Qpop_back_array :: "'w net \<Rightarrow> string \<Rightarrow> u64 \<Rightarrow> (val list, 'w) act" where
  "Qpop_back_array N name sz w = QpopArray N name sz [True] w"

definition slice :: "'w net \<Rightarrow> string \<Rightarrow> u64 list \<Rightarrow> (val list, 'w) act" where
  "slice N name args w =
    (let start = (if length args > 0 then args ! 0 else 0);
         stop = (if length args > 1 then args ! 1 else - 1);
         index = (if length args > 2 then sint (args ! 2) else 0)
     in do {
         cmd \<leftarrow> go_nth qslice_cmd index;
         ask N cmd [AStr cmd, AStr name, AInt start, AInt stop] [] some_resp rest_of w
       })"

definition Qrange :: "'w net \<Rightarrow> string \<Rightarrow> u64 \<Rightarrow> u64 \<Rightarrow> (val list, 'w) act" where
  "Qrange N name offset limit w = slice N name [offset, limit, 1] w"

definition Qslice :: "'w net \<Rightarrow> string \<Rightarrow> u64 \<Rightarrow> u64 \<Rightarrow> (val list, 'w) act" where
  "Qslice N name start stop w = slice N name [start, stop, 0] w"

definition Qtrim :: "'w net \<Rightarrow> string \<Rightarrow> u64 \<Rightarrow> bool list \<Rightarrow> (int, 'w) act" where
  "Qtrim N name sz reverse w =
    (let index = (if length reverse > 0 \<and> reverse ! 0 then 1 else 0) in do {
       cmd \<leftarrow> go_nth qtrim_cmd index;
       ask N cmd [AStr cmd, AStr name, AInt sz] (- 1) two_resp int_of w
     })"

definition Qtrim_front :: "'w net \<Rightarrow> string \<Rightarrow> u64 \<Rightarrow> (int, 'w) act" where
  "Qtrim_front N name sz w = Qtrim N name sz [] w"

definition Qtrim_back :: "'w net \<Rightarrow> string \<Rightarrow> u64 \<Rightarrow> (int, 'w) act" where
  "Qtrim_back N name sz w = Qtrim N name sz [True] w"

definition Qlist :: "'w net \<Rightarrow> string \<Rightarrow> string \<Rightarrow> u64 \<Rightarrow> (val list, 'w) act" where
  "Qlist N nameStart nameEnd limit w = do {
     s_limit \<leftarrow> encoding (GInt64 limit);
     ask N ''Qlist'' [AStr ''qlist'', AStr nameStart, AStr nameEnd, AStr s_limit] [] some_resp rest_of w
   }"

definition Qrlist :: "'w net \<Rightarrow> string \<Rightarrow> string \<Rightarrow> u64 \<Rightarrow> (val list, 'w) act" where
  "Qrlist N nameStart nameEnd limit w = do {
     s_limit \<leftarrow> encoding (GInt64 limit);
     ask N ''Qrlist'' [AStr ''qrlist'', AStr nameStart, AStr nameEnd, AStr s_limit] [] some_resp rest_of w
   }"

definition Qset :: "'w net \<Rightarrow> string \<Rightarrow> u64 \<Rightarrow> gval \<Rightarrow> (unit, 'w) act" where
  "Qset N key index val w = do {
     s_val \<leftarrow> encoding val;
     ask N ''Qset'' [AStr ''qset'', AStr key, AInt64 index, AStr s_val] () some_resp unit_of w
   }"

definition Qget :: "'w net \<Rightarrow> string \<Rightarrow> u64 \<Rightarrow> (val, 'w) act" where
  "Qget N key index w =
     ask N ''Qget'' [AStr ''qget'', AStr key, AInt64 index] '''' two_resp value_of w"

definition Qfront :: "'w net \<Rightarrow> string \<Rightarrow> (val, 'w) act" where
  "Qfront N key w =
     ask N ''Qfront'' [AStr ''qfront'', AStr key] '''' two_resp value_of w"

definition Qback :: "'w net \<Rightarrow> string \<Rightarrow> (val, 'w) act" where
  "Qback N key w =
     ask N ''Qback'' [AStr ''qback'', AStr key] '''' two_resp value_of w"

definition qpush_array :: "'w net \<Rightarrow> string \<Rightarrow> bool \<Rightarrow> gval list \<Rightarrow> (int, 'w) act" where
  "qpush_array N name reverse vs w =
    (if length vs = 0 then Some ((- 1, None), w)
     else (let index = (if reverse then 1 else 0) in do {
       args \<leftarrow> encode_all vs;
       cmd \<leftarrow> go_nth qpush_cmd index;
       ask N cmd [AStr cmd, AStrList (name # args)] (- 1) two_resp int_of w
     }))"

definition Qpush_array :: "'w net \<Rightarrow> string \<Rightarrow> gval list \<Rightarrow> (int, 'w) act" where
  "Qpush_array N name vs w = qpush_array N name True vs w"

definition Qpush_back_array :: "'w net \<Rightarrow> string \<Rightarrow> gval list \<Rightarrow> (int, 'w) act" where
  "Qpush_back_array N name vs w = qpush_array N name True vs w"

definition Qpush_front_array :: "'w net \<Rightarrow> string \<Rightarrow> gval list \<Rightarrow> (int, 'w) act" where
  "Qpush_front_array N name vs w = qpush_array N name False vs w"

end
