(* ===== verification/ZsetStore.thy ===== *)
theory ZsetStore
  imports Client
begin

text \<open>
  The sorted-set commands of \<^verbatim>\<open>src/basic/ssdb/gossdb/zset.go\<close>, one definition per method.
\<close>

text \<open>
  The slices of \<open>MultiZgetSlice\<close> are made with their final length and then appended to, so they start
  with as many blank entries.
\<close>

definition padded_lists_of :: "val list \<Rightarrow> (val list \<times> int list) option" where
  "padded_lists_of resp =
     (let n = (length resp - 1) div 2; ps = pairs (drop 1 resp)
      in Some (replicate n '''' @ map fst ps, replicate n 0 @ map (Value_Int64 \<circ> snd) ps))"

text \<open>The table of \<open>Zrrange\<close> is keyed by the score.\<close>

definition by_score_of :: "val list \<Rightarrow> (int \<rightharpoonup> val) option" where
  "by_score_of resp = Some (assigns (map (\<lambda>(k, v). (Value_Int64 v, k)) (pairs (drop 1 resp))))"

definition Zset :: "'w net \<Rightarrow> string \<Rightarrow> string \<Rightarrow> u64 \<Rightarrow> (unit, 'w) act" where
  "Zset N setName key score w = do {
     s_score \<leftarrow> encoding (GInt64 score);
     ask N ''Zset'' [AStr ''zset'', AStr setName, AStr key, AStr s_score] () some_resp unit_of w
   }"

definition Zget :: "'w net \<Rightarrow> string \<Rightarrow> string \<Rightarrow> (int, 'w) act" where
  "Zget N setName key w =
     ask N ''Zget'' [AStr ''zget'', AStr setName, AStr key] 0 two_resp int_of w"

definition Zdel :: "'w net \<Rightarrow> string \<Rightarrow> string \<Rightarrow> (unit, 'w) act" where
  "Zdel N setName key w =
     ask N ''Zdel'' [AStr ''zdel'', AStr setName, AStr key] () some_resp unit_of w"

definition Zexists :: "'w net \<Rightarrow> string \<Rightarrow> string \<Rightarrow> (bool, 'w) act" where
  "Zexists N setName key w =
     ask N ''Zexists'' [AStr ''zexists'', AStr setName, AStr key] False two_resp flag_of w"

definition Zcount :: "'w net \<Rightarrow> string \<Rightarrow> gval \<Rightarrow> gval \<Rightarrow> (int, 'w) act" where
  "Zcount N setName start stop w = do {
     s_start \<leftarrow> encoding start;
     s_stop \<leftarrow> encoding stop;
     ask N ''Zcount'' [AStr ''zcount'', AStr setName, AStr s_start, AStr s_stop] (- 1) two_resp int_of w
   }"

definition Zclear :: "'w net \<Rightarrow> string \<Rightarrow> (unit, 'w) act" where
  "Zclear N setName w =
     ask N ''Zclear'' [AStr ''zclear'', AStr setName] () some_resp unit_of w"

definition Zscan :: "'w net \<Rightarrow> string \<Rightarrow> string \<Rightarrow> gval \<Rightarrow> gval \<Rightarrow> u64 \<Rightarrow> ((val list \<times> int list), 'w) act" where
  "Zscan N setName keyStart scoreStart scoreEnd limit w = do {
     s_scoreStart \<leftarrow> encoding scoreStart;
     s_scoreEnd \<leftarrow> encoding scoreEnd;
     ask N ''Zscan'' [AStr ''zscan'', AStr setName, AStr keyStart, AStr s_scoreStart, AStr s_scoreEnd, AInt64 limit] ([], []) some_resp score_lists_of w
   }"

definition Zrscan :: "'w net \<Rightarrow> string \<Rightarrow> string \<Rightarrow> gval \<Rightarrow> gval \<Rightarrow> u64 \<Rightarrow> ((val list \<times> int list), 'w) act" where
  "Zrscan N setName keyStart scoreStart scoreEnd limit w = do {
     s_scoreStart \<leftarrow> encoding scoreStart;
     s_scoreEnd \<leftarrow> encoding scoreEnd;
     ask N ''Zrscan'' [AStr ''zrscan'', AStr setName, AStr keyStart, AStr s_scoreStart, AStr s_scoreEnd, AInt64 limit] ([], []) some_resp score_lists_of w
   }"

definition MultiZset :: "'w net \<Rightarrow> string \<Rightarrow> (string \<times> u64) list \<Rightarrow> (unit, 'w) act" where
  "MultiZset N setName kvs w = do {
     args \<leftarrow> kv_args (map (\<lambda>(k, v). (k, GInt64 v)) kvs);
     ask N ''MultiZset'' [AStr ''multi_zset'', AStr setName, AStrList args] () some_resp unit_of w
   }"

definition MultiZget :: "'w net \<Rightarrow> string \<Rightarrow> string list \<Rightarrow> ((val \<rightharpoonup> int), 'w) act" where
  "MultiZget N setName key w =
    (if length key = 0 then Some ((Map.empty, None), w)
     else ask N ''MultiZget'' [AStr ''multi_zget'', AStr setName, AStrList key] Map.empty some_resp scores_of w)"

definition MultiZgetSlice :: "'w net \<Rightarrow> string \<Rightarrow> string list \<Rightarrow> ((val list \<times> int list), 'w) act" where
  "MultiZgetSlice N setName key w =
    (if length key = 0 then Some ((([], []), None), w)
     else ask N ''MultiZget'' [AStr ''multi_zget'', AStr setName, AStrList key] ([], []) some_resp padded_lists_of w)"

definition MultiZgetArray :: "'w net \<Rightarrow> string \<Rightarrow> string list \<Rightarrow> ((val \<rightharpoonup> int), 'w) act" where
  "MultiZgetArray N setName key w =
    (if length key = 0 then Some ((Map.empty, None), w)
     else ask N ''MultiZget'' [AStr ''multi_zget'', AStr setName, AStrList key] Map.empty some_resp scores_of w)"

definition MultiZgetSliceArray :: "'w net \<Rightarrow> string \<Rightarrow> string list \<Rightarrow> ((val list \<times> int list), 'w) act" where
  "MultiZgetSliceArray N setName key w =
    (if length key = 0 then Some ((([], []), None), w)
     else ask N ''MultiZget'' [AStr ''multi_zget'', AStr setName, AStrList key] ([], []) some_resp padded_lists_of w)"

definition MultiZdel :: "'w net \<Rightarrow> string \<Rightarrow> string list \<Rightarrow> (unit, 'w) act" where
  "MultiZdel N setName key w =
    (if length key = 0 then Some (((), None), w)
     else ask N ''MultiZdel'' [AStr ''multi_zdel'', AStrList key] () some_resp unit_of w)"

definition Zincr :: "'w net \<Rightarrow> string \<Rightarrow> string \<Rightarrow> u64 \<Rightarrow> (int, 'w) act" where
  "Zincr N setName key num w =
    (if length key = 0 then Some ((0, None), w)
     else do {
       s_num \<leftarrow> encoding (GInt64 num);
       ask N ''Zincr'' [AStr ''zincr'', AStr setName, AStr key, AStr s_num] 0 more_resp int_of w
     })"

definition Zlist :: "'w net \<Rightarrow> string \<Rightarrow> string \<Rightarrow> u64 \<Rightarrow> (val list, 'w) act" where
  "Zlist N nameStart nameEnd limit w = do {
     s_limit \<leftarrow> encoding (GInt64 limit);
     ask N ''Zlist'' [AStr ''zlist'', AStr nameStart, AStr nameEnd, AStr s_limit] [] some_resp rest_of w
   }"

definition Zsize :: "'w net \<Rightarrow> string \<Rightarrow> (int, 'w) act" where
  "Zsize N name w =
     ask N ''Zsize'' [AStr ''zsize'', AStr name] 0 some_resp int_of w"

definition Zkeys :: "'w net \<Rightarrow> string \<Rightarrow> string \<Rightarrow> gval \<Rightarrow> gval \<Rightarrow> u64 \<Rightarrow> (val list, 'w) act" where
  "Zkeys N setName keyStart scoreStart scoreEnd limit w = do {
     s_scoreStart \<leftarrow> encoding scoreStart;
     s_scoreEnd \<leftarrow> encoding scoreEnd;
     ask N ''Zkeys'' [AStr ''zkeys'', AStr setName, AStr keyStart, AStr s_scoreStart, AStr s_scoreEnd, AInt64 limit] [] some_resp rest_of w
   }"

definition Zsum :: "'w net \<Rightarrow> string \<Rightarrow> gval \<Rightarrow> gval \<Rightarrow> (int, 'w) act" where
  "Zsum N setName scoreStart scoreEnd w = do {
     s_scoreStart \<leftarrow> encoding scoreStart;
     s_scoreEnd \<leftarrow> encoding scoreEnd;
     ask N ''Zsum'' [AStr ''zsum'', AStr setName, AStr s_scoreStart, AStr s_scoreEnd] 0 some_resp int_of w
   }"

definition Zavg :: "'w net \<Rightarrow> string \<Rightarrow> gval \<Rightarrow> gval \<Rightarrow> (int, 'w) act" where
  "Zavg N setName scoreStart scoreEnd w = do {
     s_scoreStart \<leftarrow> encoding scoreStart;
     s_scoreEnd \<leftarrow> encoding scoreEnd;
     ask N ''Zavg'' [AStr ''zavg'', AStr setName, AStr s_scoreStart, AStr s_scoreEnd] 0 some_resp int_of w
   }"

definition Zrank :: "'w net \<Rightarrow> string \<Rightarrow> string \<Rightarrow> (int, 'w) act" where
  "Zrank N setName key w =
     ask N ''Zrank'' [AStr ''zrank'', AStr setName, AStr key] 0 some_resp int_of w"

definition Zrrank :: "'w net \<Rightarrow> string \<Rightarrow> string \<Rightarrow> (int, 'w) act" where
  "Zrrank N setName key w =
     ask N ''Zrrank'' [AStr ''zrrank'', AStr setName, AStr key] 0 some_resp int_of w"

definition Zrange :: "'w net \<Rightarrow> string \<Rightarrow> u64 \<Rightarrow> u64 \<Rightarrow> ((val \<rightharpoonup> int), 'w) act" where
  "Zrange N setName offset limit w = do {
     s_offset \<leftarrow> encoding (GInt64 offset);
     s_limit \<leftarrow> encoding (GInt64 limit);
     ask N ''Zrange'' [AStr ''zrange'', AStr setName, AStr s_offset, AStr s_limit] Map.empty some_resp scores_of w
   }"

definition Zrrange :: "'w net \<Rightarrow> string \<Rightarrow> u64 \<Rightarrow> u64 \<Rightarrow> ((int \<rightharpoonup> val), 'w) act" where
  "Zrrange N setName offset limit w = do {
     s_offset \<leftarrow> encoding (GInt64 offset);
     s_limit \<leftarrow> encoding (GInt64 limit);
     ask N ''Zrrange'' [AStr ''zrrange'', AStr setName, AStr s_offset, AStr s_limit] Map.empty some_resp by_score_of w
   }"

definition Zrrange2 :: "'w net \<Rightarrow> string \<Rightarrow> u64 \<Rightarrow> u64 \<Rightarrow> ((val \<rightharpoonup> int), 'w) act" where
  "Zrrange2 N setName offset limit w = do {
     s_offset \<leftarrow> encoding (GInt64 offset);
     s_limit \<leftarrow> encoding (GInt64 limit);
     ask N ''Zrrange'' [AStr ''zrrange'', AStr setName, AStr s_offset, AStr s_limit] Map.empty some_resp scores_of w
   }"

definition Zremrangebyrank :: "'w net \<Rightarrow> string \<Rightarrow> u64 \<Rightarrow> u64 \<Rightarrow> (unit, 'w) act" where
  "Zremrangebyrank N setName start stop w = do {
     s_start \<leftarrow> encoding (GInt64 start);
     s_stop \<leftarrow> encoding (GInt64 stop);
     ask N ''Zremrangebyrank'' [AStr ''zremrangebyrank'', AStr setName, AStr s_start, AStr s_stop] () some_resp unit_of w
   }"

definition Zremrangebyscore :: "'w net \<Rightarrow> string \<Rightarrow> u64 \<Rightarrow> u64 \<Rightarrow> (unit, 'w) act" where
  "Zremrangebyscore N setName start stop w = do {
     s_start \<leftarrow> encoding (GInt64 start);
     s_stop \<leftarrow> encoding (GInt64 stop);
     ask N ''Zremrangebyscore'' [AStr ''zremrangebyscore'', AStr setName, AStr s_start, AStr s_stop] () some_resp unit_of w
   }"

definition Zpopfront :: "'w net \<Rightarrow> string \<Rightarrow> u64 \<Rightarrow> ((val \<rightharpoonup> int), 'w) act" where
  "Zpopfront N setName limit w = do {
     s_limit \<leftarrow> encoding (GInt64 limit);
     ask N ''Zpopfront'' [AStr ''zpop_front'', AStr setName, AStr s_limit] Map.empty some_resp scores_of w
   }"

definition Zpopback :: "'w net \<Rightarrow> string \<Rightarrow> u64 \<Rightarrow> ((val \<rightharpoonup> int), 'w) act" where
  "Zpopback N setName limit w = do {
     s_limit \<leftarrow> encoding (GInt64 limit);
     ask N ''Zpopback'' [AStr ''zpop_back'', AStr setName, AStr s_limit] Map.empty some_resp scores_of w
   }"

end
