(* ===== verification/SsdbSpec.thy ===== *)
theory SsdbSpec
  imports HashStore KvStore QueueStore ZsetStore "HOL-Library.AList"
begin

text \<open>
  The contract of the SSDB server, as far as the data layer relies on it, as locales: what the documented
  commands answer and do to the tables.  The server is not part of the sources, so the network is a
  parameter; the lemmas of the locales say what the client methods do when the contract holds.  A
  reference server shows that it can hold.
\<close>

section \<open>Hash maps\<close>

abbreviation flat :: "(string \<times> string) list \<Rightarrow> string list" where
  "flat ps \<equiv> concat (map (\<lambda>(k, v). [k, v]) ps)"

abbreviation upd_all :: "(string \<times> string) list \<Rightarrow> (string \<rightharpoonup> string) \<Rightarrow> string \<rightharpoonup> string" where
  "upd_all ps m \<equiv> m ++ assigns ps"

locale ssdb_hash =
  fixes N :: "'w net"
    and tab :: "'w \<Rightarrow> string \<Rightarrow> string \<rightharpoonup> string"
  assumes hset: "\<exists>r w'. exchange N w [''hset'', n, k, v] = (Some [''ok'', r], w') \<and>
        tab w' = (tab w)(n := (tab w n)(k \<mapsto> v))"
    and hget: "exchange N w [''hget'', n, k] =
        (Some (case tab w n k of None \<Rightarrow> [''not_found''] | Some v \<Rightarrow> [''ok'', v]), w)"
    and hdel: "\<exists>r w'. exchange N w [''hdel'', n, k] = (Some [''ok'', r], w') \<and>
        tab w' = (tab w)(n := (tab w n)(k := None))"
    and hexists: "exchange N w [''hexists'', n, k] =
        (Some [''ok'', if tab w n k = None then ''0'' else ''1''], w)"
    and hsize: "exchange N w [''hsize'', n] = (Some [''ok'', fmt_nat (card (dom (tab w n)))], w)"
    and hclear: "\<exists>r w'. exchange N w [''hclear'', n] = (Some [''ok'', r], w') \<and>
        tab w' = (tab w)(n := Map.empty)"
    and hgetall: "\<exists>ps. exchange N w [''hgetall'', n] = (Some (''ok'' # flat ps), w) \<and>
        distinct (map fst ps) \<and> map_of ps = tab w n"
    and multi_hset: "ps \<noteq> [] \<Longrightarrow> \<exists>r w'. exchange N w (''multi_hset'' # n # flat ps) = (Some [''ok'', r], w') \<and>
        tab w' = (tab w)(n := upd_all ps (tab w n))"
    and multi_hget: "ks \<noteq> [] \<Longrightarrow> \<exists>ps. exchange N w (''multi_hget'' # n # ks) = (Some (''ok'' # flat ps), w) \<and>
        distinct (map fst ps) \<and> map_of ps = tab w n |` set ks"
    and multi_hdel: "ks \<noteq> [] \<Longrightarrow> \<exists>r w'. exchange N w (''multi_hdel'' # n # ks) = (Some [''ok'', r], w') \<and>
        tab w' = (tab w)(n := tab w n |` (- set ks))"
begin

lemma finite_tab: "finite (dom (tab w n))"
  using hgetall [of w n] finite_dom_map_of by metis

lemma Hset_run:
  "\<exists>w'. Hset N n k v w = Some (((), None), w') \<and> tab w' = (tab w)(n := (tab w n)(k \<mapsto> etext v))"
  using hset [of w n k "etext v"]
  by (auto simp: Hset_def run_simps reply_simps)

lemma Hget_run: "Hget N n k w = Some ((case tab w n k of None \<Rightarrow> '''' | Some v \<Rightarrow> v, None), w)"
  using hget [of w n k]
  by (auto simp: Hget_def run_simps reply_simps makeError_def split: option.splits)

lemma Hdel_run: "\<exists>w'. Hdel N n k w = Some (((), None), w') \<and> tab w' = (tab w)(n := (tab w n)(k := None))"
  using hdel [of w n k]
  by (auto simp: Hdel_def run_simps reply_simps)

lemma Hexists_run: "Hexists N n k w = Some ((tab w n k \<noteq> None, None), w)"
  using hexists [of w n k]
  by (auto simp: Hexists_def run_simps reply_simps)

lemma Hclear_run: "\<exists>w'. Hclear N n w = Some (((), None), w') \<and> tab w' = (tab w)(n := Map.empty)"
  using hclear [of w n]
  by (auto simp: Hclear_def run_simps reply_simps)

lemma Hsize_run: "card (dom (tab w n)) < 2 ^ 63 \<Longrightarrow> Hsize N n w = Some ((int (card (dom (tab w n))), None), w)"
  using hsize [of w n] Atoi_fmt_nat [of "card (dom (tab w n))"]
  by (simp add: Hsize_def run_simps reply_simps Value_Int64_def Atoi_def)

lemma MultiHgetAll_run: "MultiHgetAll N n w = Some ((tab w n, None), w)"
  using hgetall [of w n]
  by (auto simp: MultiHgetAll_def run_simps reply_simps assigns_distinct)

lemma MultiHget_run: "MultiHget N n ks w = Some ((tab w n |` set ks, None), w)"
proof (cases "ks = []")
  case False
  with multi_hget [OF this, of w n] show ?thesis
    by (auto simp: MultiHget_def run_simps reply_simps assigns_distinct)
qed (simp add: MultiHget_def)

lemma MultiHset_run:
  assumes "kvs \<noteq> []"
  shows "\<exists>w'. MultiHset N n kvs w = Some (((), None), w') \<and>
    tab w' = (tab w)(n := upd_all (map (\<lambda>(k, v). (k, etext v)) kvs) (tab w n))"
proof -
  have "flat (map (\<lambda>(k, v). (k, etext v)) kvs) = concat (map (\<lambda>(k, v). [k, etext v]) kvs)"
    by (induction kvs) auto
  with multi_hset [of "map (\<lambda>(k, v). (k, etext v)) kvs" w n] assms show ?thesis
    by (auto simp: MultiHset_def run_simps reply_simps)
qed

lemma MultiHdel_run:
  "\<exists>w'. MultiHdel N n ks w = Some (((), None), w') \<and> tab w' = (tab w)(n := tab w n |` (- set ks))"
proof (cases "ks = []")
  case False
  with multi_hdel [OF this, of w n] show ?thesis
    by (auto simp: MultiHdel_def run_simps reply_simps)
qed (simp add: MultiHdel_def restrict_map_def)

lemma PutObject_run:
  assumes "obj \<noteq> []"
  shows "\<exists>w'. PutObject N (AStr n) obj w = Some (((), None), w') \<and>
    tab w' = (tab w)(n := upd_all (map (\<lambda>(k, v). (k, etext v)) obj) (tab w n))"
proof -
  have "flat (map (\<lambda>(k, v). (k, etext v)) obj) = concat (map (\<lambda>(k, v). [k, etext v]) obj)"
    by (induction obj) auto
  with multi_hset [of "map (\<lambda>(k, v). (k, etext v)) obj" w n] assms show ?thesis
    by (auto simp: PutObject_def run_simps reply_simps)
qed

lemma GetObject_run:
  assumes "tab w n \<noteq> Map.empty"
  shows "\<exists>ps. GetObject pf N n obj w = ((foldl (set_field pf) obj ps, None), w) \<and>
    distinct (map fst ps) \<and> map_of ps = tab w n"
proof -
  from hgetall [of w n] obtain ps where ps: "exchange N w [''hgetall'', n] = (Some (''ok'' # flat ps), w)"
    "distinct (map fst ps)" "map_of ps = tab w n" by blast
  with assms have "ps \<noteq> []" by auto
  then have "length (flat ps) > 0" by (cases ps) auto
  with ps show ?thesis by (auto simp: GetObject_def run_simps)
qed

end

context ssdb_hash
begin

lemma PutObject_GetObject:
  assumes "obj \<noteq> []" and "distinct (map fst obj)" and "list_all (storable \<circ> snd) obj"
    and "list_all2 (\<lambda>(f, v) (f', x). f = f' \<and> same_type v x) obj blank"
    and pf: "list_all (float_text pf \<circ> snd) obj"
  shows "\<exists>w'. PutObject N (AStr n) obj w = Some (((), None), w') \<and> GetObject pf N n blank w' = ((obj, None), w')"
proof -
  let ?es = "map (\<lambda>(k, v). (k, etext v)) obj"
  from PutObject_run [OF assms(1)] obtain w' where put: "PutObject N (AStr n) obj w = Some (((), None), w')"
    "tab w' = (tab w)(n := upd_all ?es (tab w n))" by blast
  have es: "map fst ?es = map fst obj" by (simp add: case_prod_unfold comp_def)
  have stored: "tab w' n f = Some (etext v)" if "(f, v) \<in> set obj" for f v
  proof -
    have "assigns ?es f = Some (etext v)"
    proof -
      have d: "distinct (map fst ?es)" unfolding es by (rule assms(2))
      have "(f, etext v) \<in> set ?es" using that by force
      with d show ?thesis unfolding assigns_distinct [OF d] by (rule map_of_is_SomeI)
    qed
    then show ?thesis using put(2) by simp
  qed
  obtain f v where "(f, v) \<in> set obj" using assms(1) by (cases obj) auto
  then have "tab w' n \<noteq> Map.empty" using stored by force
  from GetObject_run [OF this, of pf blank] obtain ps where ps:
    "GetObject pf N n blank w' = ((foldl (set_field pf) blank ps, None), w')" "distinct (map fst ps)" "map_of ps = tab w' n"
    by blast
  have keys: "map fst blank = map fst obj"
    using assms(4) by (induction rule: list_all2_induct) auto
  have "map (\<lambda>(f, x). (f, case map_of ps f of None \<Rightarrow> x | Some v \<Rightarrow> read_field pf x v)) blank = obj"
  proof (rule nth_equalityI)
    show "length (map (\<lambda>(f, x). (f, case map_of ps f of None \<Rightarrow> x | Some v \<Rightarrow> read_field pf x v)) blank) = length obj"
      using list_all2_lengthD [OF assms(4)] by simp
    fix i assume "i < length (map (\<lambda>(f, x). (f, case map_of ps f of None \<Rightarrow> x | Some v \<Rightarrow> read_field pf x v)) blank)"
    then have i: "i < length blank" "i < length obj" using list_all2_lengthD [OF assms(4)] by auto
    obtain f v x where fv: "obj ! i = (f, v)" "blank ! i = (f, x)" "same_type v x"
      using list_all2_nthD [OF assms(4) i(2)] by (auto split: prod.splits)
    have "storable v" "float_text pf v" using assms(3) pf i fv(1) by (auto simp: list_all_length)
    moreover have "map_of ps f = Some (etext v)" using stored nth_mem [OF i(2)] fv(1) ps(3) by simp
    ultimately show "map (\<lambda>(f, x). (f, case map_of ps f of None \<Rightarrow> x | Some v \<Rightarrow> read_field pf x v)) blank ! i = obj ! i"
      using fv i read_field_etext [OF _ fv(3)] by simp
  qed
  then have "foldl (set_field pf) blank ps = obj" using foldl_set_field [OF ps(2)] keys assms(2) by simp
  with put(1) ps(1) show ?thesis by auto
qed

end

section \<open>Lists\<close>

lemma sint_of_nat_u64: "k < 2 ^ 63 \<Longrightarrow> sint (of_nat k :: u64) = int k"
  by (simp add: signed_of_nat signed_take_bit_int_eq_self)

locale ssdb_list =
  fixes N :: "'w net"
    and lst :: "'w \<Rightarrow> string \<Rightarrow> string list"
  assumes qsize: "exchange N w [''qsize'', n] = (Some [''ok'', fmt_nat (length (lst w n))], w)"
    and qpush_front: "vs \<noteq> [] \<Longrightarrow> \<exists>w'. exchange N w (''qpush_front'' # n # vs) =
        (Some [''ok'', fmt_nat (length (lst w n) + length vs)], w') \<and> lst w' = (lst w)(n := rev vs @ lst w n)"
    and qpush_back: "vs \<noteq> [] \<Longrightarrow> \<exists>w'. exchange N w (''qpush_back'' # n # vs) =
        (Some [''ok'', fmt_nat (length (lst w n) + length vs)], w') \<and> lst w' = (lst w)(n := lst w n @ vs)"
    and qpop_front: "lst w n = x # xs \<Longrightarrow> \<exists>w'. exchange N w [''qpop_front'', n] = (Some [''ok'', x], w') \<and>
        lst w' = (lst w)(n := xs)"
    and qpop_back: "lst w n = xs @ [x] \<Longrightarrow> \<exists>w'. exchange N w [''qpop_back'', n] = (Some [''ok'', x], w') \<and>
        lst w' = (lst w)(n := xs)"
    and qrange: "off < 2 ^ 63 \<Longrightarrow> lim < 2 ^ 63 \<Longrightarrow> exchange N w [''qrange'', n, fmt_int (int off), fmt_int (int lim)] =
        (Some (''ok'' # take lim (drop off (lst w n))), w)"
    and qslice: "exchange N w [''qslice'', n, ''0'', ''-1''] = (Some (''ok'' # lst w n), w)"
begin

lemma Qsize_run: "length (lst w n) < 2 ^ 63 \<Longrightarrow> Qsize N n w = Some ((int (length (lst w n)), None), w)"
  using qsize [of w n] Atoi_fmt_nat [of "length (lst w n)"]
  by (simp add: Qsize_def run_simps reply_simps Value_Int64_def Atoi_def)

lemma Qpush_front_run:
  assumes "vs \<noteq> []" and "length (lst w n) + length vs < 2 ^ 63"
  shows "\<exists>w'. Qpush_front N n vs w = Some ((int (length (lst w n) + length vs), None), w') \<and>
    lst w' = (lst w)(n := rev (map etext vs) @ lst w n)"
  using qpush_front [of "map etext vs" w n] assms Atoi_fmt_nat [of "length (lst w n) + length vs"]
  by (auto simp: Qpush_front_def qpush_def Let_def qpush_cmd_def run_simps reply_simps Value_Int64_def Atoi_def)

lemma Qpush_back_run:
  assumes "vs \<noteq> []" and "length (lst w n) + length vs < 2 ^ 63"
  shows "\<exists>w'. Qpush_back N n vs w = Some ((int (length (lst w n) + length vs), None), w') \<and>
    lst w' = (lst w)(n := lst w n @ map etext vs)"
  using qpush_back [of "map etext vs" w n] assms Atoi_fmt_nat [of "length (lst w n) + length vs"]
  by (auto simp: Qpush_back_def qpush_def Let_def qpush_cmd_def run_simps reply_simps Value_Int64_def Atoi_def)

lemma Qpop_front_run:
  "lst w n = xs @ [x] \<Longrightarrow> \<exists>w'. Qpop_front N n w = Some ((x, None), w') \<and> lst w' = (lst w)(n := xs)"
  using qpop_back [of w n xs x]
  by (auto simp: Qpop_front_def Qpop_def Let_def qpop_cmd_def run_simps reply_simps)

lemma Qrange_run:
  assumes "off < 2 ^ 63" and "lim < 2 ^ 63"
  shows "Qrange N n (of_nat off) (of_nat lim) w = Some ((take lim (drop off (lst w n)), None), w)"
  using qrange [OF assms, of w n] assms
  by (simp add: Qrange_def slice_def Let_def qslice_cmd_def run_simps reply_simps sint_of_nat_u64)

lemma Qslice_run: "Qslice N n 0 (- 1) w = Some ((lst w n, None), w)"
proof -
  have "fmt_int 0 = ''0''" "fmt_int (- 1) = ''-1''"
    by (simp_all add: fmt_int_def digit_char_def char_of_def bit_0 bit_Suc)
  then show ?thesis
    using qslice [of w n] by (simp add: Qslice_def slice_def Let_def qslice_cmd_def run_simps reply_simps)
qed

end

section \<open>Both together\<close>

text \<open>Hash commands leave the lists alone, and list commands the hash maps.\<close>

locale ssdb = ssdb_hash N tab + ssdb_list N lst
  for N :: "'w net" and tab :: "'w \<Rightarrow> string \<Rightarrow> string \<rightharpoonup> string" and lst :: "'w \<Rightarrow> string \<Rightarrow> string list" +
  assumes hash_frame: "c \<in> {''hset'', ''hdel'', ''hclear'', ''multi_hset'', ''multi_hdel''} \<Longrightarrow>
      lst (snd (exchange N w (c # args))) = lst w"
    and list_frame: "c \<in> {''qpush_front'', ''qpush_back'', ''qpop_front'', ''qpop_back''} \<Longrightarrow>
      tab (snd (exchange N w (c # args))) = tab w"
begin

text \<open>What a write does to both.\<close>

lemma Hset_both: "\<exists>w'. Hset N n k v w = Some (((), None), w') \<and>
    tab w' = (tab w)(n := (tab w n)(k \<mapsto> etext v)) \<and> lst w' = lst w"
proof -
  obtain r w' where x: "exchange N w [''hset'', n, k, etext v] = (Some [''ok'', r], w')"
      "tab w' = (tab w)(n := (tab w n)(k \<mapsto> etext v))" using hset by blast
  have "lst w' = lst w" using hash_frame [of "''hset''" w "[n, k, etext v]"] x(1) by simp
  with x show ?thesis by (simp add: Hset_def run_simps reply_simps)
qed

lemma Hdel_both: "\<exists>w'. Hdel N n k w = Some (((), None), w') \<and>
    tab w' = (tab w)(n := (tab w n)(k := None)) \<and> lst w' = lst w"
proof -
  obtain r w' where x: "exchange N w [''hdel'', n, k] = (Some [''ok'', r], w')"
      "tab w' = (tab w)(n := (tab w n)(k := None))" using hdel by blast
  have "lst w' = lst w" using hash_frame [of "''hdel''" w "[n, k]"] x(1) by simp
  with x show ?thesis by (simp add: Hdel_def run_simps reply_simps)
qed

lemma Qpush_front_both: "\<exists>i w'. Qpush_front N n [v] w = Some ((i, None), w') \<and> tab w' = tab w \<and>
    lst w' = (lst w)(n := etext v # lst w n)"
proof -
  obtain w' where x: "exchange N w [''qpush_front'', n, etext v] = (Some [''ok'', fmt_nat (length (lst w n) + 1)], w')"
      "lst w' = (lst w)(n := etext v # lst w n)"
    using qpush_front [of "[etext v]" w n] by auto
  have "tab w' = tab w" using list_frame [of "''qpush_front''" w "[n, etext v]"] x by simp
  with x show ?thesis by (simp add: Qpush_front_def qpush_def Let_def qpush_cmd_def run_simps reply_simps)
qed

end

section \<open>A reference server\<close>

record rdb =
  rtab :: "string \<Rightarrow> (string \<times> string) list"
  rlst :: "string \<Rightarrow> string list"

definition ref_tab :: "rdb \<Rightarrow> string \<Rightarrow> string \<rightharpoonup> string" where
  "ref_tab w n = map_of (rtab w n)"

abbreviation put_tab :: "rdb \<Rightarrow> string \<Rightarrow> (string \<times> string) list \<Rightarrow> rdb" where
  "put_tab w n t \<equiv> w\<lparr>rtab := (rtab w)(n := t)\<rparr>"

abbreviation put_lst :: "rdb \<Rightarrow> string \<Rightarrow> string list \<Rightarrow> rdb" where
  "put_lst w n l \<equiv> w\<lparr>rlst := (rlst w)(n := l)\<rparr>"

definition ref_hash :: "rdb \<Rightarrow> string \<Rightarrow> string \<Rightarrow> string list \<Rightarrow> val list \<times> rdb" where
  "ref_hash w c n args = (let t = rtab w n in
     if c = ''hset'' \<and> length args = 2 then ([''ok'', ''1''], put_tab w n (AList.update (args ! 0) (args ! 1) t))
     else if c = ''hget'' \<and> length args = 1 then
       ((case map_of t (args ! 0) of None \<Rightarrow> [''not_found''] | Some v \<Rightarrow> [''ok'', v]), w)
     else if c = ''hdel'' \<and> length args = 1 then ([''ok'', ''1''], put_tab w n (AList.delete (args ! 0) t))
     else if c = ''hexists'' \<and> length args = 1 then
       ([''ok'', if map_of t (args ! 0) = None then ''0'' else ''1''], w)
     else if c = ''hsize'' then ([''ok'', fmt_nat (length (AList.clearjunk t))], w)
     else if c = ''hclear'' then ([''ok'', fmt_nat (length (AList.clearjunk t))], put_tab w n [])
     else if c = ''hgetall'' then (''ok'' # flat (AList.clearjunk t), w)
     else if c = ''multi_hset'' then
       ([''ok'', ''1''], put_tab w n (fold (\<lambda>(k, v). AList.update k v) (pairs args) t))
     else if c = ''multi_hget'' then (''ok'' # flat (AList.restrict (set args) (AList.clearjunk t)), w)
     else if c = ''multi_hdel'' then ([''ok'', ''1''], put_tab w n (AList.restrict (- set args) t))
     else ([''client_error''], w))"

definition ref_list :: "rdb \<Rightarrow> string \<Rightarrow> string \<Rightarrow> string list \<Rightarrow> val list \<times> rdb" where
  "ref_list w c n args = (let l = rlst w n in
     if c = ''qsize'' then ([''ok'', fmt_nat (length l)], w)
     else if c = ''qpush_front'' then ([''ok'', fmt_nat (length l + length args)], put_lst w n (rev args @ l))
     else if c = ''qpush_back'' then ([''ok'', fmt_nat (length l + length args)], put_lst w n (l @ args))
     else if c = ''qpop_front'' then (if l = [] then ([''not_found''], w) else ([''ok'', hd l], put_lst w n (tl l)))
     else if c = ''qpop_back'' then (if l = [] then ([''not_found''], w) else ([''ok'', last l], put_lst w n (butlast l)))
     else if c = ''qrange'' \<and> length args = 2 then
       (''ok'' # take (nat (fst (ParseInt 64 (args ! 1)))) (drop (nat (fst (ParseInt 64 (args ! 0)))) l), w)
     else if c = ''qslice'' \<and> args = [''0'', ''-1''] then (''ok'' # l, w)
     else ([''client_error''], w))"

definition ref_exec :: "rdb \<Rightarrow> string list \<Rightarrow> val list option \<times> rdb" where
  "ref_exec w req =
     (case req of
        c # n # args \<Rightarrow> (case (if hd c = CHR ''q'' then ref_list w c n args else ref_hash w c n args) of
                         (r, w) \<Rightarrow> (Some r, w))
      | _ \<Rightarrow> (Some [''client_error''], w))"

definition ref_net :: "rdb net" where
  "ref_net = \<lparr>exchange = ref_exec, reopen = (\<lambda>w. w)\<rparr>"

definition ref_empty :: rdb where
  "ref_empty = \<lparr>rtab = (\<lambda>n. []), rlst = (\<lambda>n. [])\<rparr>"

lemma fold_update: "map_of (fold (\<lambda>(k, v). AList.update k v) ps t) = map_of t ++ assigns ps"
proof (induction ps arbitrary: t)
  case (Cons p ps)
  obtain k v where p: "p = (k, v)" by fastforce
  have "map_of (AList.update k v t) = map_of t ++ [k \<mapsto> v]" by (simp add: fun_eq_iff update_conv)
  with Cons p show ?case by (simp add: assigns_def map_add_assoc) (simp add: fun_upd_def)
qed (simp add: assigns_def)

lemma card_dom_clearjunk: "card (dom (map_of t)) = length (AList.clearjunk t)"
proof -
  have "card (dom (map_of t)) = card (set (map fst (AList.clearjunk t)))"
    by (metis dom_map_of_conv_image_fst image_set map_of_clearjunk)
  also have "\<dots> = length (AList.clearjunk t)" by (subst distinct_card) auto
  finally show ?thesis .
qed

interpretation ref_hashes: ssdb_hash ref_net ref_tab
proof (unfold_locales, goal_cases)
  case (1 w n k v)
  show ?case by (simp add: ref_net_def ref_exec_def ref_hash_def ref_tab_def update_conv' fun_eq_iff)
next
  case (2 w n k)
  show ?case by (simp add: ref_net_def ref_exec_def ref_hash_def ref_tab_def)
next
  case (3 w n k)
  show ?case by (simp add: ref_net_def ref_exec_def ref_hash_def ref_tab_def delete_conv' fun_eq_iff)
next
  case (4 w n k)
  show ?case by (simp add: ref_net_def ref_exec_def ref_hash_def ref_tab_def)
next
  case (5 w n)
  show ?case by (simp add: ref_net_def ref_exec_def ref_hash_def ref_tab_def card_dom_clearjunk)
next
  case (6 w n)
  show ?case by (simp add: ref_net_def ref_exec_def ref_hash_def ref_tab_def fun_eq_iff)
next
  case (7 w n)
  show ?case
    by (rule exI [of _ "AList.clearjunk (rtab w n)"])
       (simp add: ref_net_def ref_exec_def ref_hash_def ref_tab_def map_of_clearjunk)
next
  case (8 ps w n)
  show ?case by (simp add: ref_net_def ref_exec_def ref_hash_def ref_tab_def fold_update fun_eq_iff)
next
  case (9 ks w n)
  show ?case
    by (rule exI [of _ "AList.restrict (set ks) (AList.clearjunk (rtab w n))"])
       (simp add: ref_net_def ref_exec_def ref_hash_def ref_tab_def restr_conv' map_of_clearjunk distinct_restr)
next
  case (10 ks w n)
  show ?case by (simp add: ref_net_def ref_exec_def ref_hash_def ref_tab_def restr_conv' fun_eq_iff)
qed

interpretation ref_lists: ssdb_list ref_net rlst
proof (unfold_locales, goal_cases)
  case (6 off lim w n)
  then show ?case by (simp add: ref_net_def ref_exec_def ref_list_def ParseInt_fmt)
qed (simp_all add: ref_net_def ref_exec_def ref_list_def Let_def)

interpretation ref_server: ssdb ref_net ref_tab rlst
proof (unfold_locales, goal_cases)
  case (1 c w args)
  then show ?case
    by (cases args) (elim insertE emptyE; simp add: ref_net_def ref_exec_def ref_hash_def Let_def)+
next
  case (2 c w args)
  then show ?case
    by (cases args) (elim insertE emptyE; simp add: ref_net_def ref_exec_def ref_list_def Let_def ref_tab_def fun_eq_iff)+
qed

section \<open>What the client promises\<close>

text \<open>
  C16.  A value written with \<open>Hset\<close> is read back by \<open>Hget\<close> as its encoded text, every other entry of
  every hash map is as before, and a key that is not there reads as the empty value without an error.
\<close>

theorem Hset_Hget:
  assumes "ssdb_hash N tab"
  shows "\<exists>w'. Hset N n k v w = Some (((), None), w') \<and>
    Hget N n k w' = Some ((etext v, None), w') \<and>
    ((n', k') \<noteq> (n, k) \<longrightarrow>
      Hget N n' k' w' = Some ((case tab w n' k' of None \<Rightarrow> '''' | Some x \<Rightarrow> x, None), w'))"
  using ssdb_hash.Hset_run [OF assms, of n k v w] ssdb_hash.Hget_run [OF assms] by auto

theorem Hset_Hget_witness:
  "\<exists>w'. Hset ref_net ''user'' ''Pwd'' (GInt 7) ref_empty = Some (((), None), w') \<and>
    Hget ref_net ''user'' ''Pwd'' w' = Some ((etext (GInt 7), None), w') \<and>
    Hget ref_net ''user'' ''Name'' w' = Some (('''', None), w')"
  using Hset_Hget [OF ref_hashes.ssdb_hash_axioms, of "''user''" "''Pwd''" "GInt 7" ref_empty "''user''" "''Name''"]
  by (auto simp: ref_tab_def ref_empty_def)

text \<open>
  C17.  An object stored with \<open>PutObject\<close> is read back by \<open>GetObject\<close> into any object of the same
  shape: every field of an integer, string, byte-slice, boolean or float type has the stored value
  again, whatever other entries the hash map had.  For the floats of the object, and for these only, it relies on the
  documented round trip of the shortest text of a float through \<open>ParseFloat\<close>.
\<close>

theorem object_roundtrip:
  assumes "ssdb_hash N tab" and "obj \<noteq> []" and "distinct (map fst obj)" and "list_all (storable \<circ> snd) obj"
    and "list_all2 (\<lambda>(f, v) (f', x). f = f' \<and> same_type v x) obj blank"
    and "list_all (float_text pf \<circ> snd) obj"
  shows "\<exists>w'. PutObject N (AStr n) obj w = Some (((), None), w') \<and> GetObject pf N n blank w' = ((obj, None), w')"
  using assms by (rule ssdb_hash.PutObject_GetObject)

theorem object_roundtrip_witness:
  "\<exists>w'. PutObject ref_net (AStr ''u:1'') [(''Id'', GUint32 7), (''Name'', GStr ''bob''), (''Rate'', GFloat64 ''0.5'')] ref_empty =
      Some (((), None), w') \<and>
    GetObject (\<lambda>bits s. if s \<in> {''0.5'', ''.5'', ''0.50''} then ''0.5'' else ''0'') ref_net ''u:1''
        [(''Id'', GUint32 0), (''Name'', GStr []), (''Rate'', GFloat64 ''0'')] w' =
      (([(''Id'', GUint32 7), (''Name'', GStr ''bob''), (''Rate'', GFloat64 ''0.5'')], None), w')"
  by (rule object_roundtrip [OF ref_hashes.ssdb_hash_axioms]) (simp_all add: same_type_def)

text \<open>
  \<open>Qpop_front\<close> takes from the wrong end: on a list that is not empty it returns and removes the
  last element, exactly like \<open>Qpop_back\<close>, because \<open>Qpop\<close> without a direction means the back.
\<close>

theorem Qpop_front_pops_back:
  assumes "ssdb_list N lst" and "lst w n = xs @ [x]"
  shows "\<exists>w'. Qpop_front N n w = Some ((x, None), w') \<and> lst w' = (lst w)(n := xs) \<and>
    Qpop_back N n w = Qpop_front N n w"
  using ssdb_list.Qpop_front_run [of N lst, OF assms] by (auto simp: Qpop_front_def Qpop_back_def Qpop_def)

theorem Qpop_front_pops_back_witness:
  "\<exists>w'. Qpop_front ref_net ''q'' (put_lst ref_empty ''q'' [''a'', ''b'']) = Some ((''b'', None), w') \<and>
    rlst w' = (rlst (put_lst ref_empty ''q'' [''a'', ''b'']))(''q'' := [''a'']) \<and>
    Qpop_back ref_net ''q'' (put_lst ref_empty ''q'' [''a'', ''b'']) =
      Qpop_front ref_net ''q'' (put_lst ref_empty ''q'' [''a'', ''b''])"
  by (rule Qpop_front_pops_back [OF ref_lists.ssdb_list_axioms]) simp

text \<open>
  \<open>MultiZdel\<close> does not send the name of the set: whatever set it is called for, the request and
  with it the outcome is the same, and the server takes the first key for the name.
\<close>

theorem MultiZdel_ignores_set: "MultiZdel N s ks w = MultiZdel N s' ks w"
  by (simp add: MultiZdel_def)

text \<open>
  A network on which the first reply gets lost after the server has executed the request; the retry of
  \<open>Do\<close> goes through.
\<close>

definition lossy :: "'w net \<Rightarrow> (bool \<times> 'w) net" where
  "lossy N = \<lparr>exchange = (\<lambda>(lost, w) req. case exchange N w req of (r, w') \<Rightarrow>
                  (if lost then r else None, (True, w'))),
              reopen = (\<lambda>w. w)\<rparr>"

text \<open>
  C20.  The retry of \<open>Do\<close> is not idempotent: when the reply to a push is lost after the server has
  executed it, the values end up in the list twice, and the caller sees success.
\<close>

theorem Qpush_retry_duplicates:
  assumes "ssdb_list N lst" and "vs \<noteq> []" and "length (lst w n) + length vs + length vs < 2 ^ 63"
  shows "\<exists>w'. Qpush_back (lossy N) n vs (False, w) =
      Some ((int (length (lst w n) + length vs + length vs), None), (True, w')) \<and>
    lst w' = (lst w)(n := lst w n @ map etext vs @ map etext vs)"
proof -
  from ssdb_list.qpush_back [OF assms(1), of "map etext vs" w n] assms(2) obtain w1 r1 where
    1: "exchange N w (''qpush_back'' # n # map etext vs) = (Some r1, w1)"
       "lst w1 = (lst w)(n := lst w n @ map etext vs)" by auto
  from ssdb_list.qpush_back [OF assms(1), of "map etext vs" w1 n] assms(2) 1(2) obtain w2 where
    2: "exchange N w1 (''qpush_back'' # n # map etext vs) =
         (Some [''ok'', fmt_nat (length (lst w n) + length vs + length vs)], w2)"
       "lst w2 = (lst w)(n := lst w n @ map etext vs @ map etext vs)" by auto
  show ?thesis
    using 1 2 assms(2) Atoi_fmt_nat [OF assms(3)]
    by (simp add: Qpush_back_def qpush_def qpush_cmd_def run_simps reply_simps lossy_def Value_Int64_def Atoi_def)
qed

theorem Qpush_retry_duplicates_witness:
  "\<exists>w'. Qpush_back (lossy ref_net) ''q'' [GStr ''a''] (False, ref_empty) =
      Some ((int (length (rlst ref_empty ''q'') + length [GStr ''a''] + length [GStr ''a'']), None), (True, w')) \<and>
    rlst w' = (rlst ref_empty)(''q'' := rlst ref_empty ''q'' @ map etext [GStr ''a''] @ map etext [GStr ''a''])"
  by (rule Qpush_retry_duplicates [OF ref_lists.ssdb_list_axioms]) (simp_all add: ref_empty_def)

end
