(* ===== verification/AdminData.thy ===== *)
theory AdminData
  imports SsdbSpec Utf8
begin

text \<open>
  The data the administration keeps, from \<^verbatim>\<open>src/data\<close>: administrators and their groups
  (\<^verbatim>\<open>data_admin.go\<close>), the log of their operations (\<^verbatim>\<open>data_admin_record.go\<close>), failed logins by address
  (\<^verbatim>\<open>data_limit_login.go\<close>) and login sessions (\<^verbatim>\<open>session.go\<close>), on top of the commands of the SSDB client.
  A method that may panic returns an \<open>option\<close>.  Time is an argument: the reading of the clock in seconds.
  Structures are stored as JSON text; the text of a structure and its reading are the parameters of a
  \<open>codec\<close>, and the order in which Go walks through a map is the parameter \<open>iter\<close>.
\<close>

section \<open>Parameters\<close>

text \<open>\<open>dec s x\<close> is \<open>json.Unmarshal\<close> of \<open>s\<close> into \<open>x\<close>: the new content and whether the error is nil.\<close>

record 'a codec =
  enc :: "'a \<Rightarrow> string"
  dec :: "string \<Rightarrow> 'a \<Rightarrow> 'a \<times> bool"

text \<open>An error of the data layer: one of the client, or of reading JSON.\<close>

datatype derr = EClient error | EJson

definition as_json :: "'a codec \<Rightarrow> val \<Rightarrow> 'a \<Rightarrow> 'a \<times> derr option" where
  "as_json c v x = (case dec c v x of (x, good) \<Rightarrow> (x, if good then None else Some EJson))"

definition json_val :: "'a codec \<Rightarrow> 'a \<Rightarrow> gval" where
  "json_val c x = GOther '''' (Some (enc c x))"

lemma etext_json [simp]: "etext (json_val c x) = enc c x"
  by (simp add: json_val_def etext_def encoding_def del: encoding_etext)

section \<open>Structures\<close>

record group =
  gid :: int
  gname :: string
  gdesc :: string
  power :: int

record admin =
  aid :: string
  status :: u32
  passwd :: string
  aname :: string
  description :: string
  last_visit :: u32
  last_ip :: u32
  login_times :: u32
  group_id :: int
  ip_limit :: string
  error_ip :: string
  error_time :: int
  error_num :: u32
  members :: string
  platforms :: string
  create_time :: u32

record admin_record =
  timestamp :: int
  adminID :: string
  rkind :: u32
  windgetID :: u32
  rcount :: int
  pre :: string
  after :: string
  target :: string
  rdesc :: string

record limit_ip =
  lip :: string
  userids :: "string list"
  lastLoginTime :: int
  lcount :: u32

record session =
  username :: string
  password :: string
  expire :: u32

definition empty_group :: group where
  "empty_group = \<lparr>gid = 0, gname = [], gdesc = [], power = 0\<rparr>"

definition empty_admin :: admin where
  "empty_admin = \<lparr>aid = [], status = 0, passwd = [], aname = [], description = [], last_visit = 0, last_ip = 0,
     login_times = 0, group_id = 0, ip_limit = [], error_ip = [], error_time = 0, error_num = 0, members = [],
     platforms = [], create_time = 0\<rparr>"

definition empty_record :: admin_record where
  "empty_record = \<lparr>timestamp = 0, adminID = [], rkind = 0, windgetID = 0, rcount = 0, pre = [], after = [],
     target = [], rdesc = []\<rparr>"

definition empty_limit :: limit_ip where
  "empty_limit = \<lparr>lip = [], userids = [], lastLoginTime = 0, lcount = 0\<rparr>"

text \<open>What the data layer runs on.\<close>

record 'w env =
  net :: "'w net"
  md5 :: "string \<Rightarrow> string"
  jgroup :: "group codec"
  jadmin :: "admin codec"
  jrecord :: "admin_record codec"
  jlimit :: "limit_ip codec"
  iter :: "(string \<rightharpoonup> val) \<Rightarrow> (string \<times> val) list"
  iter_limits :: "(string \<rightharpoonup> limit_ip) \<Rightarrow> (string \<times> limit_ip) list"

definition USERS :: string where "USERS = ''admins_users:''"
definition USER_GROUP :: string where "USER_GROUP = ''admins_user_group''"
definition USER_GROUP_INDEX :: string where "USER_GROUP_INDEX = ''admins_user_group_index''"
definition ADMIN_RECORD :: string where "ADMIN_RECORD = ''admins_admin_record:''"
definition ADMIN_LOGIN_IP_LIMIT :: string where "ADMIN_LOGIN_IP_LIMIT = ''admins_login_ip_limit''"

lemmas key_defs = USERS_def USER_GROUP_def USER_GROUP_INDEX_def ADMIN_RECORD_def ADMIN_LOGIN_IP_LIMIT_def

definition OPERATE_KIND_DEL_ADMIN :: u32 where "OPERATE_KIND_DEL_ADMIN = 1"
definition OPERATE_KIND_ADD_ADMIN :: u32 where "OPERATE_KIND_ADD_ADMIN = 2"
definition OPERATE_KIND_MODIFY_ADMIN :: u32 where "OPERATE_KIND_MODIFY_ADMIN = 3"
definition OPERATE_KIND_DEL_GROUP :: u32 where "OPERATE_KIND_DEL_GROUP = 6"
definition OPERATE_KIND_ADD_GROUP :: u32 where "OPERATE_KIND_ADD_GROUP = 7"
definition OPERATE_KIND_MODIFY_GROUP :: u32 where "OPERATE_KIND_MODIFY_GROUP = 8"

section \<open>Groups\<close>

definition Group_Get :: "'w env \<Rightarrow> group \<Rightarrow> 'w \<Rightarrow> ((group \<times> derr option) \<times> 'w) option" where
  "Group_Get E g w = do {
     ((v, err), w) \<leftarrow> Hget (net E) USER_GROUP (fmt_int (gid g)) w;
     Some (if err = None then as_json (jgroup E) v g else (g, map_option EClient err), w)
   }"

definition Group_Save :: "'w env \<Rightarrow> group \<Rightarrow> 'w \<Rightarrow> ((group \<times> error option) \<times> 'w) option" where
  "Group_Save E g w = do {
     ((size, _), w) \<leftarrow> Hsize (net E) USER_GROUP w;
     let g = g\<lparr>gid := size + 1\<rparr>;
     (_, w) \<leftarrow> Hset (net E) USER_GROUP_INDEX (gname g) (GInt64 (of_int (gid g))) w;
     ((_, err), w) \<leftarrow> Hset (net E) USER_GROUP (fmt_int (gid g)) (json_val (jgroup E) g) w;
     Some ((g, err), w)
   }"

text \<open>The loops that read every value of a reply and keep what can be read.\<close>

definition keep_json :: "'a codec \<Rightarrow> 'a \<Rightarrow> val list \<Rightarrow> 'a list" where
  "keep_json c x vs = [y. v \<leftarrow> vs, (y, err) \<leftarrow> [as_json c v x], err = None]"

definition ListGroup :: "'w env \<Rightarrow> 'w \<Rightarrow> (group list \<times> 'w) option" where
  "ListGroup E w = do {
     ((value, err), w) \<leftarrow> Hscan (net E) USER_GROUP '''' '''' 50 w;
     Some (if err = None then keep_json (jgroup E) empty_group (map snd (iter E value)) else [], w)
   }"

definition Group_Del :: "'w env \<Rightarrow> group \<Rightarrow> 'w \<Rightarrow> (error option \<times> 'w) option" where
  "Group_Del E g w = do {
     ((_, err), w) \<leftarrow> Hdel (net E) USER_GROUP (fmt_int (gid g)) w;
     Some (err, w)
   }"

section \<open>Administrators\<close>

definition ADMIN :: string where
  "ADMIN = ''yisen@qq.com''"

definition root_admin :: "'w env \<Rightarrow> admin" where
  "root_admin E = empty_admin\<lparr>aid := ADMIN, passwd := md5 E ''yisen2016'',
     aname := of_runes [0x8D85, 0x7EA7, 0x7BA1, 0x7406, 0x5458], group_id := 1\<rparr>"

definition groupList :: "group list" where
  "groupList =
     [\<lparr>gid = 1, gname = of_runes [0x8D85, 0x7EA7, 0x7BA1, 0x7406, 0x5458],
       gdesc = of_runes [0x62E5, 0x6709, 0x6700, 0x9AD8, 0x7EA7, 0x6743, 0x9650], power = 1\<rparr>,
      \<lparr>gid = 2, gname = of_runes [0x7BA1, 0x7406, 0x5458],
       gdesc = of_runes [0x62E5, 0x6709, 0x7BA1, 0x7406, 0x73A9, 0x5BB6, 0x6743, 0x9650], power = 2\<rparr>]"

definition Admin_Get :: "'w env \<Rightarrow> admin \<Rightarrow> 'w \<Rightarrow> ((admin \<times> derr option) \<times> 'w) option" where
  "Admin_Get E u w = do {
     ((v, err), w) \<leftarrow> Hget (net E) USERS (aid u) w;
     Some (if err \<noteq> None then (u, map_option EClient err) else as_json (jadmin E) v u, w)
   }"

definition Admin_Exist :: "'w env \<Rightarrow> admin \<Rightarrow> 'w \<Rightarrow> (bool \<times> 'w) option" where
  "Admin_Exist E u w = do {
     ((b, _), w) \<leftarrow> Hexists (net E) USERS (aid u) w;
     Some (b, w)
   }"

definition Admin_Save :: "'w env \<Rightarrow> int \<Rightarrow> admin \<Rightarrow> 'w \<Rightarrow> (error option \<times> 'w) option" where
  "Admin_Save E now u w = do {
     let u = u\<lparr>create_time := of_int now\<rparr>;
     ((_, err), w) \<leftarrow> Hset (net E) USERS (aid u) (json_val (jadmin E) u) w;
     Some (err, w)
   }"

definition Admin_Del :: "'w env \<Rightarrow> admin \<Rightarrow> 'w \<Rightarrow> (error option \<times> 'w) option" where
  "Admin_Del E u w = do {
     ((_, err), w) \<leftarrow> Hdel (net E) USERS (aid u) w;
     Some (err, w)
   }"

definition UserList :: "'w env \<Rightarrow> 'w \<Rightarrow> ((admin list \<times> error option) \<times> 'w) option" where
  "UserList E w = do {
     ((value, err), w) \<leftarrow> MultiHgetAll (net E) USERS w;
     Some (if err \<noteq> None then ([], err)
           else (filter (\<lambda>a. aid a \<noteq> ADMIN) (keep_json (jadmin E) empty_admin (map snd (iter E value))), None), w)
   }"

fun init_groups :: "'w env \<Rightarrow> group list \<Rightarrow> 'w \<Rightarrow> 'w option" where
  "init_groups E [] w = Some w"
| "init_groups E (g # gs) w = do {
     ((b, _), w) \<leftarrow> Hexists (net E) USER_GROUP (fmt_int (gid g)) w;
     w \<leftarrow> (if \<not> b then do { (_, w) \<leftarrow> Group_Save E g w; Some w } else Some w);
     init_groups E gs w
   }"

definition InitAdmin :: "'w env \<Rightarrow> int \<Rightarrow> 'w \<Rightarrow> 'w option" where
  "InitAdmin E now w = do {
     w \<leftarrow> init_groups E groupList w;
     (b, w) \<leftarrow> Admin_Exist E (root_admin E) w;
     (if \<not> b then do { (_, w) \<leftarrow> Admin_Save E now (root_admin E) w; Some w } else Some w)
   }"

section \<open>Operation records\<close>

definition AdminRecord_Save :: "'w env \<Rightarrow> int \<Rightarrow> admin_record \<Rightarrow> 'w \<Rightarrow> (error option \<times> 'w) option" where
  "AdminRecord_Save E now r w = do {
     let r = r\<lparr>timestamp := now\<rparr>;
     ((_, err), w) \<leftarrow> Qpush_front (net E) (ADMIN_RECORD @ adminID r) [json_val (jrecord E) r] w;
     Some (err, w)
   }"

definition GetAdminRecord ::
  "'w env \<Rightarrow> string \<Rightarrow> int \<Rightarrow> int \<Rightarrow> 'w \<Rightarrow> ((admin_record list \<times> int \<times> error option) \<times> 'w) option" where
  "GetAdminRecord E who start limit w = do {
     ((size, err), w) \<leftarrow> Qsize (net E) (ADMIN_RECORD @ who) w;
     (if err \<noteq> None then Some (([], 0, err), w)
      else do {
        ((value, err), w) \<leftarrow> Qrange (net E) (ADMIN_RECORD @ who) (of_int start) (of_int limit) w;
        Some (if err \<noteq> None then ([], 0, err)
              else (keep_json (jrecord E) empty_record value, size, None), w)
      })
   }"

section \<open>Failed logins\<close>

type_synonym limits = "string \<rightharpoonup> limit_ip"

definition GetLimitIPHash :: "'w env \<Rightarrow> limits \<Rightarrow> limit_ip list" where
  "GetLimitIPHash E h = map snd (iter_limits E h)"

definition DelLimitIPInDb :: "'w env \<Rightarrow> string \<Rightarrow> limits \<times> 'w \<Rightarrow> (error option \<times> limits \<times> 'w) option" where
  "DelLimitIPInDb E ip = (\<lambda>(h, w). do {
     ((_, err), w) \<leftarrow> Hdel (net E) ADMIN_LOGIN_IP_LIMIT ip w;
     Some (err, h(ip := None), w)
   })"

definition load_limits :: "'w env \<Rightarrow> (string \<times> val) list \<Rightarrow> limits" where
  "load_limits E kvs = fold (\<lambda>(k, v) h. case as_json (jlimit E) v empty_limit of
      (d, err) \<Rightarrow> if err = None then h(k \<mapsto> d) else h) kvs Map.empty"

definition LoadLimitIPs :: "'w env \<Rightarrow> 'w \<Rightarrow> (limits \<times> 'w) option" where
  "LoadLimitIPs E w = do {
     ((m, err), w) \<leftarrow> MultiHgetAll (net E) ADMIN_LOGIN_IP_LIMIT w;
     Some (if err = None then load_limits E (iter E m) else Map.empty, w)
   }"

definition GetLimitCount :: "string \<Rightarrow> limits \<Rightarrow> limit_ip option" where
  "GetLimitCount ip h = h ip"

definition AddLimitCount :: "'w env \<Rightarrow> int \<Rightarrow> string \<Rightarrow> string \<Rightarrow> limits \<times> 'w \<Rightarrow> (limits \<times> 'w) option" where
  "AddLimitCount E now ip userid = (\<lambda>(h, w).
     let d = (case h ip of Some d \<Rightarrow> d | None \<Rightarrow> empty_limit\<lparr>lip := ip\<rparr>);
         d = d\<lparr>lcount := lcount d + 1, lastLoginTime := now, userids := userids d @ [userid]\<rparr>;
         h = h(ip \<mapsto> d)
     in if lcount d \<ge> 5
        then do { (_, w) \<leftarrow> Hset (net E) ADMIN_LOGIN_IP_LIMIT ip (json_val (jlimit E) d) w; Some (h, w) }
        else Some (h, w))"

definition DelLimitLogin :: "string \<Rightarrow> limits \<Rightarrow> limits" where
  "DelLimitLogin ip h = h(ip := None)"

section \<open>Sessions\<close>

type_synonym sessions = "string \<rightharpoonup> session"

definition Sessions_Del :: "string \<Rightarrow> sessions \<Rightarrow> sessions" where
  "Sessions_Del key h = h(key := None)"

definition Sessions_Get :: "int \<Rightarrow> string \<Rightarrow> sessions \<Rightarrow> session option" where
  "Sessions_Get now key h =
     (case h key of
        Some ses \<Rightarrow> if expire ses < of_int now then None else Some ses
      | None \<Rightarrow> None)"

definition Sessions_Add :: "'w env \<Rightarrow> int \<Rightarrow> session \<Rightarrow> sessions \<Rightarrow> string \<times> sessions" where
  "Sessions_Add E now ses h =
     (let ses = ses\<lparr>expire := of_int (now + 86400)\<rparr>;
          key = md5 E (username ses @ '':'' @ password ses @ '':'' @ fmt_nat (unat (expire ses)))
      in (key, h(key \<mapsto> ses)))"

end
