(* ===== verification/AdminHandlers.thy ===== *)
theory AdminHandlers
  imports AdminData
begin

text \<open>
  The request handlers for administrators and groups, from \<^verbatim>\<open>src/user\<close>, the session helpers of
  \<^verbatim>\<open>src/data/global.go\<close>, and how \<^verbatim>\<open>src/admin.go\<close> puts them behind its middleware.  A request is its form,
  its address and its login cookie; a handler returns what it writes as JSON and the cookies it sets.
  Every handler reads the clock as the argument \<open>now\<close>.
\<close>

section \<open>Requests, replies and the state of the server\<close>

record request =
  form :: "string \<Rightarrow> string"
  realIP :: string
  login_cookie :: "string option"

datatype msg = TooMany | Blank | Wrong | LoggedOut | NoId | NoName | NoPasswd | PasswdDiffers | IdTaken | CreateFailed
  | Created | NoUser | EditFailed | Edited | Deleted | DeleteFailed | NoCookie | NoGroup | GroupTaken | GroupFailed | NoData

datatype reply = Fail msg | Ok | OkMsg msg | Admins "admin list" | TheAdmin admin | Limits "limit_ip list"
  | GroupsAre "group list" nat | Records "admin_record list" int

type_synonym cookies = "(string \<times> string) list"

record 'w app =
  sess :: sessions
  lims :: limits
  db :: 'w

type_synonym 'w handler = "'w env \<Rightarrow> int \<Rightarrow> request \<Rightarrow> 'w app \<Rightarrow> ((reply \<times> cookies) \<times> 'w app) option"

definition answer :: "reply \<Rightarrow> 'w app \<Rightarrow> ((reply \<times> cookies) \<times> 'w app) option" where
  "answer r s = Some ((r, []), s)"

section \<open>The current user\<close>

definition GetCurrentSession :: "int \<Rightarrow> request \<Rightarrow> 'w app \<Rightarrow> session option" where
  "GetCurrentSession now c s =
     (case login_cookie c of
        Some v \<Rightarrow> if length v > 0 then Sessions_Get now v (sess s) else None
      | None \<Rightarrow> None)"

definition GetCurrentUserID :: "int \<Rightarrow> request \<Rightarrow> 'w app \<Rightarrow> string" where
  "GetCurrentUserID now c s =
     (case GetCurrentSession now c s of Some se \<Rightarrow> username se | None \<Rightarrow> '''')"

definition GetCurrentUser :: "'w env \<Rightarrow> int \<Rightarrow> request \<Rightarrow> 'w app \<Rightarrow> (admin option \<times> 'w app) option" where
  "GetCurrentUser E now c s =
     (let who = GetCurrentUserID now c s
      in if who = '''' then Some (None, s)
         else do {
           ((u, err), w) \<leftarrow> Admin_Get E (empty_admin\<lparr>aid := who\<rparr>) (db s);
           Some (if err \<noteq> None then None else Some u, s\<lparr>db := w\<rparr>)
         })"

text \<open>Writing an operation record; the handlers ignore whether that succeeds.\<close>

definition log_op :: "'w env \<Rightarrow> int \<Rightarrow> admin_record \<Rightarrow> 'w app \<Rightarrow> 'w app option" where
  "log_op E now r s = do { (_, w) \<leftarrow> AdminRecord_Save E now r (db s); Some (s\<lparr>db := w\<rparr>) }"

definition op_record :: "int \<Rightarrow> request \<Rightarrow> 'w app \<Rightarrow> u32 \<Rightarrow> string \<Rightarrow> admin_record" where
  "op_record now c s kind tgt = empty_record\<lparr>adminID := GetCurrentUserID now c s, rkind := kind, target := tgt\<rparr>"

section \<open>Logging in and out\<close>

definition Version :: string where
  "Version = ''v0.0.1''"

definition locked :: "int \<Rightarrow> limit_ip option \<Rightarrow> bool" where
  "locked now l = (case l of Some d \<Rightarrow> lcount d \<ge> 5 \<and> now - lastLoginTime d < 300 | None \<Rightarrow> False)"

definition Login :: "'w handler" where
  "Login E now c s =
     (let user = form c ''username''; pass = form c ''password'' in
      if locked now (GetLimitCount (realIP c) (lims s)) then answer (Fail TooMany) s
      else if length user = 0 \<or> length pass = 0 then answer (Fail Blank) s
      else do {
        ((u, err), w) \<leftarrow> Admin_Get E (empty_admin\<lparr>aid := user\<rparr>) (db s);
        let s = s\<lparr>db := w\<rparr>;
        (if err \<noteq> None \<or> pass \<noteq> passwd u then do {
           (h, w) \<leftarrow> AddLimitCount E now (realIP c) user (lims s, db s);
           answer (Fail Wrong) (s\<lparr>lims := h, db := w\<rparr>)
         } else
           (let (key, h) = Sessions_Add E now \<lparr>username = user, password = pass, expire = 0\<rparr> (sess s);
                s = s\<lparr>sess := h, lims := DelLimitLogin (realIP c) (lims s)\<rparr>
            in Some ((Ok, [(''login'', key), (''version'', Version)]), s)))
      })"

definition Logout :: "'w handler" where
  "Logout E now c s =
     (let s = (case login_cookie c of Some key \<Rightarrow> s\<lparr>sess := Sessions_Del key (sess s)\<rparr> | None \<Rightarrow> s)
      in Some ((OkMsg LoggedOut, [(''login'', '''')]), s))"

section \<open>Administrators\<close>

definition Create :: "'w handler" where
  "Create E now c s =
     (if form c ''Id'' = '''' then answer (Fail NoId) s
      else if form c ''Name'' = '''' then answer (Fail NoName) s
      else if form c ''Passwd'' = '''' then answer (Fail NoPasswd) s
      else if form c ''Passwd'' \<noteq> form c ''Passwd1'' then answer (Fail PasswdDiffers) s
      else do {
        let u = empty_admin\<lparr>aid := form c ''Id'', aname := form c ''Name'', passwd := form c ''Passwd'',
                  ip_limit := form c ''Ip_limit'', group_id := fst (ParseInt 64 (form c ''Group_id'')),
                  description := form c ''Description''\<rparr>;
        (b, w) \<leftarrow> Admin_Exist E u (db s);
        let s = s\<lparr>db := w\<rparr>;
        (if b then answer (Fail IdTaken) s
         else do {
           s \<leftarrow> log_op E now (op_record now c s OPERATE_KIND_ADD_ADMIN (aid u)) s;
           (err, w) \<leftarrow> Admin_Save E now u (db s);
           answer (if err \<noteq> None then Fail CreateFailed else OkMsg Created) (s\<lparr>db := w\<rparr>)
         })
      })"

definition ListAdmins :: "'w handler" where
  "ListAdmins E now c s = do {
     ((lists, _), w) \<leftarrow> UserList E (db s);
     answer (Admins lists) (s\<lparr>db := w\<rparr>)
   }"

definition GetSelfDetail :: "'w handler" where
  "GetSelfDetail E now c s = do {
     (user, s) \<leftarrow> GetCurrentUser E now c s;
     answer (case user of Some u \<Rightarrow> TheAdmin u | None \<Rightarrow> Fail NoCookie) s
   }"

text \<open>One optional change of \<open>Edit\<close>: log it, then change the structure.\<close>

definition change :: "'w env \<Rightarrow> int \<Rightarrow> bool \<Rightarrow> ('w app \<Rightarrow> admin_record) \<Rightarrow> ('a \<Rightarrow> 'a) \<Rightarrow> 'a \<times> 'w app \<Rightarrow> ('a \<times> 'w app) option" where
  "change E now b r f = (\<lambda>(u, s). if b then do { s \<leftarrow> log_op E now (r s) s; Some (f u, s) } else Some (u, s))"

definition Edit :: "'w handler" where
  "Edit E now c s =
     (if form c ''Id'' = '''' then answer (Fail NoId) s
      else if form c ''Name'' = '''' then answer (Fail NoName) s
      else if form c ''Passwd'' \<noteq> '''' \<and> form c ''Passwd'' \<noteq> form c ''Passwd1'' then answer (Fail PasswdDiffers) s
      else do {
        ((u, err), w) \<leftarrow> Admin_Get E (empty_admin\<lparr>aid := form c ''Id''\<rparr>) (db s);
        let s = s\<lparr>db := w\<rparr>;
        (if err \<noteq> None then answer (Fail NoUser) s
         else do {
           let r = (\<lambda>s. op_record now c s OPERATE_KIND_MODIFY_ADMIN (aid u));
           (u, s) \<leftarrow> change E now (form c ''Name'' \<noteq> '''')
             (\<lambda>s. (r s)\<lparr>rdesc := of_runes [0x540D, 0x5B57], after := form c ''Name'', pre := aname u\<rparr>)
             (\<lambda>u. u\<lparr>aname := form c ''Name''\<rparr>) (u, s);
           (u, s) \<leftarrow> change E now (form c ''Passwd'' \<noteq> '''')
             (\<lambda>s. (r s)\<lparr>rdesc := of_runes [0x5BC6, 0x7801]\<rparr>)
             (\<lambda>u. u\<lparr>passwd := form c ''Passwd''\<rparr>) (u, s);
           (u, s) \<leftarrow> change E now (form c ''Ip_limit'' \<noteq> '''')
             (\<lambda>s. (r s)\<lparr>pre := ip_limit u, after := form c ''Ip_limit'', rdesc := ''IP'' @ of_runes [0x9650, 0x5236]\<rparr>)
             (\<lambda>u. u\<lparr>ip_limit := form c ''Ip_limit''\<rparr>) (u, s);
           (u, s) \<leftarrow> change E now (form c ''Group_id'' \<noteq> '''')
             (\<lambda>s. (r s)\<lparr>pre := fmt_int (group_id u), after := form c ''Group_id'', rdesc := of_runes [0x6240, 0x5C5E, 0x7EC4]\<rparr>)
             (\<lambda>u. u\<lparr>group_id := fst (ParseInt 64 (form c ''Group_id''))\<rparr>) (u, s);
           (u, s) \<leftarrow> change E now (form c ''Description'' \<noteq> '''')
             (\<lambda>s. (r s)\<lparr>rdesc := of_runes [0x63CF, 0x8FF0]\<rparr>)
             (\<lambda>u. u\<lparr>description := form c ''Description''\<rparr>) (u, s);
           (err, w) \<leftarrow> Admin_Save E now u (db s);
           answer (if err \<noteq> None then Fail EditFailed else OkMsg Edited) (s\<lparr>db := w\<rparr>)
         })
      })"

definition Delete :: "'w handler" where
  "Delete E now c s =
     (let u = empty_admin\<lparr>aid := form c ''Id''\<rparr> in
      if aid u \<noteq> '''' \<and> ADMIN \<noteq> aid u then do {
        (err, w) \<leftarrow> Admin_Del E u (db s);
        let s = s\<lparr>db := w\<rparr>;
        (if err = None then do {
           s \<leftarrow> log_op E now (op_record now c s OPERATE_KIND_DEL_ADMIN (aid u)) s;
           answer (OkMsg Deleted) s
         } else answer (Fail DeleteFailed) s)
      } else answer (Fail NoId) s)"

definition GetLoginLimit :: "'w handler" where
  "GetLoginLimit E now c s = answer (Limits (GetLimitIPHash E (lims s))) s"

definition DelLoginLimit :: "'w handler" where
  "DelLoginLimit E now c s = do {
     (_, h, w) \<leftarrow> DelLimitIPInDb E (form c ''IP'') (lims s, db s);
     answer Ok (s\<lparr>lims := h, db := w\<rparr>)
   }"

section \<open>Groups\<close>

definition DeleteGroup :: "'w handler" where
  "DeleteGroup E now c s = do {
     let g = empty_group\<lparr>gid := fst (ParseInt 64 (form c ''Id''))\<rparr>;
     ((g, _), w) \<leftarrow> Group_Get E g (db s);
     (err, w) \<leftarrow> Group_Del E g w;
     let s = s\<lparr>db := w\<rparr>;
     (if err \<noteq> None then answer (Fail GroupFailed) s
      else do {
        s \<leftarrow> log_op E now (op_record now c s OPERATE_KIND_DEL_GROUP (gname g)) s;
        answer Ok s
      })
   }"

definition CreateGroup :: "'w handler" where
  "CreateGroup E now c s = do {
     let g = empty_group\<lparr>gname := form c ''Name'', gdesc := form c ''Desc'', power := fst (Atoi (form c ''Power''))\<rparr>;
     ((b, _), w) \<leftarrow> Hexists (net E) USER_GROUP_INDEX (gname g) (db s);
     (if b then answer (Fail GroupTaken) (s\<lparr>db := w\<rparr>)
      else do {
        ((g, err), w) \<leftarrow> Group_Save E g w;
        let s = s\<lparr>db := w\<rparr>;
        (if err \<noteq> None then answer (Fail GroupFailed) s
         else do {
           s \<leftarrow> log_op E now (op_record now c s OPERATE_KIND_ADD_GROUP (gname g)) s;
           answer Ok s
         })
      })
   }"

definition EditGroup :: "'w handler" where
  "EditGroup E now c s = do {
     let desc = form c ''Desc'';
     let pow = fst (Atoi (form c ''Power''));
     let name = form c ''Name'';
     ((g, err), w) \<leftarrow> Group_Get E (empty_group\<lparr>gid := fst (ParseInt 64 (form c ''Id''))\<rparr>) (db s);
     let s = s\<lparr>db := w\<rparr>;
     (if err \<noteq> None then answer (Fail NoGroup) s
      else do {
        let r = (\<lambda>s. op_record now c s OPERATE_KIND_MODIFY_GROUP (gname g));
        (g, s) \<leftarrow> change E now (desc \<noteq> '''')
          (\<lambda>s. (r s)\<lparr>pre := gdesc g, after := desc, rdesc := of_runes [0x63CF, 0x8FF0]\<rparr>)
          (\<lambda>g. g\<lparr>gdesc := desc\<rparr>) (g, s);
        (g, s) \<leftarrow> change E now (pow > 0)
          (\<lambda>s. (r s)\<lparr>pre := fmt_int (power g), after := fmt_int pow, rdesc := of_runes [0x6743, 0x9650]\<rparr>)
          (\<lambda>g. g\<lparr>power := pow\<rparr>) (g, s);
        (g, s) \<leftarrow> change E now (name \<noteq> '''')
          (\<lambda>s. (r s)\<lparr>pre := gname g, after := name, rdesc := of_runes [0x540D, 0x5B57]\<rparr>)
          (\<lambda>g. g\<lparr>gname := name\<rparr>) (g, s);
        ((g, err), w) \<leftarrow> Group_Save E g (db s);
        answer (if err \<noteq> None then Fail GroupFailed else Ok) (s\<lparr>db := w\<rparr>)
      })
   }"

definition Groups :: "'w handler" where
  "Groups E now c s = do {
     (gs, w) \<leftarrow> ListGroup E (db s);
     answer (GroupsAre gs (length gs)) (s\<lparr>db := w\<rparr>)
   }"

section \<open>Operation records\<close>

definition Record :: "'w handler" where
  "Record E now c s = do {
     let page = fst (Atoi (form c ''Page''));
     let page = (if page < 1 then 1 else page);
     let pageMax = fst (Atoi (form c ''PageMax''));
     let pageMax = (if pageMax < 30 then 30 else if pageMax > 200 then 200 else pageMax);
     let who = (if form c ''AdminID'' = '''' then GetCurrentUserID now c s else form c ''AdminID'');
     (if who = '''' then answer (Fail NoData) s
      else do {
        ((rs, size, err), w) \<leftarrow> GetAdminRecord E who ((page - 1) * pageMax) pageMax (db s);
        answer (if err \<noteq> None then Fail NoData else Records rs size) (s\<lparr>db := w\<rparr>)
      })
   }"

section \<open>Routes\<close>

text \<open>The check of the session inside the middleware is commented out: it calls the next handler.\<close>

definition loginMiddleware :: "'w handler \<Rightarrow> 'w handler" where
  "loginMiddleware next = (\<lambda>E now c s. next E now c s)"

definition routes :: "(string \<times> 'w handler) list" where
  "routes =
     [(''/users/login'', Login), (''/users/logout'', Logout),
      (''/users/create'', loginMiddleware Create), (''/users/edit'', loginMiddleware Edit),
      (''/users/list'', loginMiddleware ListAdmins), (''/users/delete'', loginMiddleware Delete),
      (''/users/getdetail'', loginMiddleware GetSelfDetail), (''/users/record'', loginMiddleware Record),
      (''/users/getloginlimit'', loginMiddleware GetLoginLimit),
      (''/users/delloginlimit'', loginMiddleware DelLoginLimit),
      (''/group/create'', loginMiddleware CreateGroup), (''/group/edit'', loginMiddleware EditGroup),
      (''/group/list'', loginMiddleware Groups), (''/group/delete'', loginMiddleware DeleteGroup)]"

end
