(* ===== verification/AdminProps.thy ===== *)
theory AdminProps
  imports AdminHandlers
begin

text \<open>
  What the administration guarantees when the database keeps its contract, and what it does not: the
  lockout after failed logins, sessions, the effect of the handlers without a login, and editing groups.
\<close>

section \<open>The handlers on a database that keeps its contract\<close>

locale admin_env = ssdb "net E" tab lst
  for E :: "'w env" and tab :: "'w \<Rightarrow> string \<Rightarrow> string \<rightharpoonup> string" and lst :: "'w \<Rightarrow> string \<Rightarrow> string list"
begin

definition stored :: "'w \<Rightarrow> string \<Rightarrow> string \<Rightarrow> string" where
  "stored w n k = (case tab w n k of None \<Rightarrow> '''' | Some v \<Rightarrow> v)"

lemma Admin_Get_run: "Admin_Get E u w = Some (as_json (jadmin E) (stored w USERS (aid u)) u, w)"
  by (simp add: Admin_Get_def Hget_run stored_def)

lemma Group_Get_run: "Group_Get E g w = Some (as_json (jgroup E) (stored w USER_GROUP (fmt_int (gid g))) g, w)"
  by (simp add: Group_Get_def Hget_run stored_def)

lemma log_op_run: "\<exists>w'. log_op E now r s = Some (s\<lparr>db := w'\<rparr>) \<and> tab w' = tab (db s)"
proof -
  let ?r = "r\<lparr>timestamp := now\<rparr>"
  obtain i w' where "Qpush_front (net E) (ADMIN_RECORD @ adminID ?r) [json_val (jrecord E) ?r] (db s) = Some ((i, None), w')"
    "tab w' = tab (db s)" using Qpush_front_both by blast
  then show ?thesis by (intro exI [of _ w']) (simp add: log_op_def AdminRecord_Save_def)
qed

text \<open>The database after an optional change of \<open>Edit\<close> or \<open>EditGroup\<close> has been logged.\<close>

definition logged :: "int \<Rightarrow> bool \<Rightarrow> ('w app \<Rightarrow> admin_record) \<Rightarrow> 'w app \<Rightarrow> 'w" where
  "logged now b r s = (if b then db (the (log_op E now (r s) s)) else db s)"

lemma change_eq: "change E now b r f (u, s) = Some (if b then f u else u, s\<lparr>db := logged now b r s\<rparr>)"
  using log_op_run [of now "r s" s] by (auto simp: change_def logged_def)

lemma logged_tab: "tab (logged now b r s) = tab (db s)"
  using log_op_run [of now "r s" s] by (auto simp: logged_def)

lemma AddLimitCount_run:
  "\<exists>w' d. AddLimitCount E now ip who (h, w) = Some (h(ip \<mapsto> d), w') \<and> lastLoginTime d = now \<and>
     lcount d = (case h ip of None \<Rightarrow> 0 | Some d \<Rightarrow> lcount d) + 1"
proof -
  let ?d = "case h ip of Some d \<Rightarrow> d | None \<Rightarrow> empty_limit\<lparr>lip := ip\<rparr>"
  let ?d' = "?d\<lparr>lcount := lcount ?d + 1, lastLoginTime := now, userids := userids ?d @ [who]\<rparr>"
  have c: "lcount ?d = (case h ip of None \<Rightarrow> 0 | Some d \<Rightarrow> lcount d)" by (simp add: empty_limit_def split: option.splits)
  obtain w' where "Hset (net E) ADMIN_LOGIN_IP_LIMIT ip (json_val (jlimit E) ?d') w = Some (((), None), w')"
    using Hset_both by blast
  then have "AddLimitCount E now ip who (h, w) = Some (h(ip \<mapsto> ?d'), if lcount ?d' \<ge> 5 then w' else w)"
    unfolding AddLimitCount_def Let_def by simp
  moreover have "lastLoginTime ?d' = now" "lcount ?d' = (case h ip of None \<Rightarrow> 0 | Some d \<Rightarrow> lcount d) + 1" using c by simp_all
  ultimately show ?thesis by blast
qed

text \<open>Every outcome of a login, and what it does to the counters of failed logins.\<close>

definition account :: "string \<Rightarrow> 'w \<Rightarrow> admin option" where
  "account user w = (case as_json (jadmin E) (stored w USERS user) (empty_admin\<lparr>aid := user\<rparr>) of
     (u, err) \<Rightarrow> if err = None then Some u else None)"

definition accepts :: "int \<Rightarrow> request \<Rightarrow> 'w app \<Rightarrow> bool" where
  "accepts now c s \<longleftrightarrow> \<not> locked now (lims s (realIP c)) \<and> form c ''username'' \<noteq> '''' \<and> form c ''password'' \<noteq> '''' \<and>
     (case account (form c ''username'') (db s) of None \<Rightarrow> False | Some u \<Rightarrow> passwd u = form c ''password'')"

lemma Login_refused: "locked now (lims s (realIP c)) \<Longrightarrow> Login E now c s = Some ((Fail TooMany, []), s)"
  by (simp add: Login_def GetLimitCount_def answer_def Let_def)

lemma Login_blank: "\<not> locked now (lims s (realIP c)) \<Longrightarrow> form c ''username'' = '''' \<or> form c ''password'' = '''' \<Longrightarrow>
    Login E now c s = Some ((Fail Blank, []), s)"
  by (auto simp: Login_def GetLimitCount_def answer_def Let_def)

lemma Login_wrong:
  assumes "\<not> locked now (lims s (realIP c))" and "form c ''username'' \<noteq> ''''" and "form c ''password'' \<noteq> ''''"
    and "\<not> accepts now c s"
  shows "\<exists>d w'. Login E now c s = Some ((Fail Wrong, []), s\<lparr>lims := (lims s)(realIP c \<mapsto> d), db := w'\<rparr>) \<and>
    lastLoginTime d = now \<and> lcount d = (case lims s (realIP c) of None \<Rightarrow> 0 | Some d \<Rightarrow> lcount d) + 1"
proof -
  obtain u err where u: "as_json (jadmin E) (stored (db s) USERS (form c ''username'')) (empty_admin\<lparr>aid := form c ''username''\<rparr>) = (u, err)"
    by fastforce
  then have bad: "err \<noteq> None \<or> form c ''password'' \<noteq> passwd u" using assms by (auto simp: accepts_def account_def)
  from AddLimitCount_run [of now "realIP c" "form c ''username''" "lims s" "db s"] obtain w' d where
    "AddLimitCount E now (realIP c) (form c ''username'') (lims s, db s) = Some ((lims s)(realIP c \<mapsto> d), w')"
    "lastLoginTime d = now" "lcount d = (case lims s (realIP c) of None \<Rightarrow> 0 | Some d \<Rightarrow> lcount d) + 1" by blast
  with u bad assms(1-3) show ?thesis by (auto simp: Login_def GetLimitCount_def answer_def Let_def Admin_Get_run)
qed

lemma Login_accepted:
  assumes "accepts now c s"
  shows "Login E now c s =
    (let (key, h) = Sessions_Add E now \<lparr>username = form c ''username'', password = form c ''password'', expire = 0\<rparr> (sess s)
     in Some ((Ok, [(''login'', key), (''version'', Version)]), s\<lparr>sess := h, lims := (lims s)(realIP c := None)\<rparr>))"
proof -
  obtain u err where u: "as_json (jadmin E) (stored (db s) USERS (form c ''username'')) (empty_admin\<lparr>aid := form c ''username''\<rparr>) = (u, err)"
    by fastforce
  with assms show ?thesis
    by (auto simp: accepts_def account_def Login_def GetLimitCount_def DelLimitLogin_def Let_def Admin_Get_run split: if_splits prod.splits)
qed

lemmas login_runs = Login_refused Login_blank Login_wrong Login_accepted

end

section \<open>A reference instance\<close>

definition ref_admin_rec :: admin where
  "ref_admin_rec = empty_admin\<lparr>aid := ''bob'', passwd := ''secret''\<rparr>"

definition ref_group_rec :: group where
  "ref_group_rec = \<lparr>gid = 1, gname = ''ops'', gdesc = ''old'', power = 1\<rparr>"

definition const_codec :: "string \<Rightarrow> 'a \<Rightarrow> 'a codec" where
  "const_codec t a = \<lparr>enc = (\<lambda>_. t), dec = (\<lambda>s x. if s = t then (a, True) else (x, False))\<rparr>"

definition ref_env :: "rdb env" where
  "ref_env = \<lparr>net = ref_net, md5 = (\<lambda>s. CHR ''m'' # s), jgroup = const_codec ''G'' ref_group_rec, jadmin = const_codec ''A'' ref_admin_rec,
     jrecord = const_codec ''R'' empty_record, jlimit = const_codec ''L'' empty_limit,
     iter = (\<lambda>m. []), iter_limits = (\<lambda>m. [])\<rparr>"

lemma net_ref_env [simp]: "net ref_env = ref_net"
  by (simp add: ref_env_def)

interpretation ref_admin: admin_env ref_env ref_tab rlst
  unfolding admin_env_def net_ref_env by (rule ref_server.ssdb_axioms)

definition ref_app :: "rdb app" where
  "ref_app = \<lparr>sess = Map.empty, lims = Map.empty,
     db = put_tab (put_tab ref_empty USERS [(''bob'', ''A'')]) USER_GROUP [(''1'', ''G'')]\<rparr>"

section \<open>Failed logins\<close>

text \<open>
  The requests to \<open>routes\<close> that the server handles one after the other: when each is handled, its path, and the request.
  The log says how each was answered.
\<close>

fun serve :: "'w env \<Rightarrow> (int \<times> string \<times> request) list \<Rightarrow> 'w app \<Rightarrow> ((string \<times> request \<times> reply) list \<times> 'w app) option" where
  "serve E [] s = Some ([], s)"
| "serve E ((t, path, c) # xs) s = do {
     h \<leftarrow> map_of routes path;
     ((r, _), s) \<leftarrow> h E t c s;
     (rs, s) \<leftarrow> serve E xs s;
     Some ((path, c, r) # rs, s)
   }"

definition wrong_try :: "string \<Rightarrow> string \<times> request \<times> reply \<Rightarrow> bool" where
  "wrong_try ip = (\<lambda>(path, c, r). path = ''/users/login'' \<and> realIP c = ip \<and> r = Fail Wrong)"

definition clears :: "string \<Rightarrow> string \<times> request \<times> reply \<Rightarrow> bool" where
  "clears ip = (\<lambda>(path, c, r).
     path = ''/users/login'' \<and> realIP c = ip \<and> r = Ok \<or> path = ''/users/delloginlimit'' \<and> form c ''IP'' = ip)"

definition count_of :: "('a \<Rightarrow> bool) \<Rightarrow> 'a list \<Rightarrow> nat" where
  "count_of P xs = length (filter P xs)"

lemma count_of_simps [simp]: "count_of P [] = 0" "count_of P (x # xs) = (if P x then Suc (count_of P xs) else count_of P xs)"
  by (simp_all add: count_of_def)

text \<open>After \<open>k\<close> checked failures from an address since the moment \<open>a\<close>: the counter, and the time of the last one.\<close>

definition lim_inv :: "string \<Rightarrow> int \<Rightarrow> int \<Rightarrow> nat \<Rightarrow> limits \<Rightarrow> bool" where
  "lim_inv ip a b k h \<longleftrightarrow>
     (case h ip of None \<Rightarrow> k = 0
      | Some d \<Rightarrow> 0 < k \<and> lcount d = of_nat k \<and> a + 300 * (int k - 5) \<le> lastLoginTime d \<and> lastLoginTime d \<le> b)"

lemma lim_inv_fun_upd_other: "ip' \<noteq> ip \<Longrightarrow> lim_inv ip a b k (h(ip' := x)) = lim_inv ip a b k h"
  by (simp add: lim_inv_def)

lemma lim_inv_later: "lim_inv ip a b k h \<Longrightarrow> b \<le> b' \<Longrightarrow> lim_inv ip a b' k h"
  by (auto simp: lim_inv_def split: option.splits)

lemma lim_inv_bound: "lim_inv ip a b k h \<Longrightarrow> a \<le> b \<Longrightarrow> 300 * (int k - 5) \<le> b - a"
  by (auto simp: lim_inv_def split: option.splits)

lemma lim_inv_cleared: "lim_inv ip a b 0 (h(ip := None))"
  by (simp add: lim_inv_def)

lemma lim_inv_step:
  assumes "lim_inv ip a b k h" and "\<not> locked t (h ip)" and "a \<le> t" and "t \<le> b" and "Suc k < 2 ^ 32"
    and "lastLoginTime d = t" and "lcount d = (case h ip of None \<Rightarrow> 0 | Some d \<Rightarrow> lcount d) + 1"
  shows "lim_inv ip a b (Suc k) (h(ip \<mapsto> d))"
proof (cases "h ip")
  case None
  then show ?thesis using assms by (simp add: lim_inv_def)
next
  case (Some d0)
  then have k: "lcount d0 = of_nat k" "a + 300 * (int k - 5) \<le> lastLoginTime d0" using assms(1) by (auto simp: lim_inv_def)
  have "unat (of_nat k :: u32) = k" using assms(5) by (simp add: unat_of_nat)
  then have five: "lcount d0 \<ge> 5 \<longleftrightarrow> 5 \<le> k" by (simp add: k(1) word_le_nat_alt)
  have "a + 300 * (int (Suc k) - 5) \<le> t"
  proof (cases "5 \<le> k")
    case True
    then have "lastLoginTime d0 + 300 \<le> t" using assms(2) Some five by (simp add: locked_def)
    with k(2) show ?thesis by simp
  next
    case False
    then show ?thesis using assms(3) by simp
  qed
  then show ?thesis using assms(4,6,7) Some k(1) by (simp add: lim_inv_def)
qed

context admin_env
begin

lemma Login_lims:
  assumes "lim_inv ip a b k (lims s)" and "a \<le> t" and "t \<le> b" and "Suc k < 2 ^ 32"
  shows "\<exists>r ck s'. Login E t c s = Some ((r, ck), s') \<and>
    (realIP c = ip \<and> r = Ok \<or> lim_inv ip a b (if realIP c = ip \<and> r = Fail Wrong then Suc k else k) (lims s'))"
proof -
  consider "locked t (lims s (realIP c))"
    | "\<not> locked t (lims s (realIP c))" "form c ''username'' = '''' \<or> form c ''password'' = ''''"
    | "accepts t c s"
    | "\<not> locked t (lims s (realIP c))" "form c ''username'' \<noteq> ''''" "form c ''password'' \<noteq> ''''" "\<not> accepts t c s"
    by blast
  then show ?thesis
  proof cases
    case 1
    then show ?thesis using assms(1) by (simp add: Login_refused)
  next
    case 2
    then show ?thesis using assms(1) by (simp add: Login_blank)
  next
    case 3
    then show ?thesis using assms(1)
      by (cases "realIP c = ip") (auto simp: Login_accepted lim_inv_fun_upd_other split: prod.splits)
  next
    case 4
    from Login_wrong [OF this] obtain d w' where
      run: "Login E t c s = Some ((Fail Wrong, []), s\<lparr>lims := (lims s)(realIP c \<mapsto> d), db := w'\<rparr>)"
      "lastLoginTime d = t" "lcount d = (case lims s (realIP c) of None \<Rightarrow> 0 | Some d \<Rightarrow> lcount d) + 1" by blast
    show ?thesis
    proof (cases "realIP c = ip")
      case True
      with lim_inv_step [OF assms(1) _ assms(2-4) run(2)] run 4(1) show ?thesis by auto
    next
      case False
      with run(1) assms(1) show ?thesis by (auto simp: lim_inv_fun_upd_other)
    qed
  qed
qed

lemma Login_total: "\<exists>r ck s'. Login E t c s = Some ((r, ck), s')"
  using Login_refused [of t s c] Login_blank [of t s c] Login_wrong [of t s c] Login_accepted [of t c s]
  by (cases "accepts t c s"; cases "locked t (lims s (realIP c))") (auto simp: Let_def split: prod.splits)


end

text \<open>The handlers other than \<open>Login\<close> and \<open>DelLoginLimit\<close> leave the counters of failed logins alone.\<close>

lemma log_op_keeps: "log_op E now r s = Some s' \<Longrightarrow> lims s' = lims s"
  by (auto simp: log_op_def bind_eq_Some_conv)

lemma change_keeps: "change E now b r f (u, s) = Some (v, s') \<Longrightarrow> lims s' = lims s"
  by (auto simp: change_def bind_eq_Some_conv dest: log_op_keeps split: if_splits)

lemma GetCurrentUser_keeps: "GetCurrentUser E now c s = Some (u, s') \<Longrightarrow> lims s' = lims s"
  by (auto simp: GetCurrentUser_def Let_def bind_eq_Some_conv split: if_splits)

definition keeps_lims :: "'w handler \<Rightarrow> bool" where
  "keeps_lims h \<longleftrightarrow> (\<forall>E now c s r s'. h E now c s = Some (r, s') \<longrightarrow> lims s' = lims s)"

lemmas keeps_simps = keeps_lims_def answer_def Let_def bind_eq_Some_conv

lemma keeps_Logout: "keeps_lims Logout"
  by (auto simp: keeps_simps Logout_def split: option.splits)

lemma keeps_Create: "keeps_lims Create"
  by (auto simp: keeps_simps Create_def dest: log_op_keeps split: if_splits)

lemma keeps_Edit: "keeps_lims Edit"
  by (auto simp: keeps_simps Edit_def dest!: change_keeps split: if_splits)

lemma keeps_Delete: "keeps_lims Delete"
  by (auto simp: keeps_simps Delete_def dest: log_op_keeps split: if_splits)

lemma keeps_reads: "keeps_lims ListAdmins" "keeps_lims GetSelfDetail" "keeps_lims Record" "keeps_lims GetLoginLimit" "keeps_lims Groups"
  by (auto simp: keeps_simps ListAdmins_def GetSelfDetail_def Record_def GetLoginLimit_def Groups_def dest: GetCurrentUser_keeps split: if_splits)

lemma keeps_CreateGroup: "keeps_lims CreateGroup"
  by (auto simp: keeps_simps CreateGroup_def dest: log_op_keeps split: if_splits)

lemma keeps_EditGroup: "keeps_lims EditGroup"
  by (auto simp: keeps_simps EditGroup_def dest!: change_keeps split: if_splits)

lemma keeps_DeleteGroup: "keeps_lims DeleteGroup"
  by (auto simp: keeps_simps DeleteGroup_def dest: log_op_keeps split: if_splits)

lemmas keeps_handlers = keeps_Logout keeps_Create keeps_Edit keeps_Delete keeps_reads keeps_CreateGroup keeps_EditGroup keeps_DeleteGroup

lemma routes_cases:
  assumes "map_of routes path = Some h"
  obtains "path = ''/users/login''" "h = Login" | "path = ''/users/delloginlimit''" "h = DelLoginLimit"
    | "path \<noteq> ''/users/login''" "path \<noteq> ''/users/delloginlimit''" "keeps_lims h"
  using assms keeps_handlers by (auto simp: routes_def loginMiddleware_def split: if_splits)

text \<open>
  The budget of an address at the moment \<open>t\<close>: \<open>w\<close> wrong passwords and \<open>r\<close> clearings of its counter since the moment \<open>a\<close>.
  The counter was last cleared at the moment \<open>a'\<close>.
\<close>

definition guesses_inv :: "string \<Rightarrow> int \<Rightarrow> int \<Rightarrow> nat \<Rightarrow> nat \<Rightarrow> limits \<Rightarrow> bool" where
  "guesses_inv ip a t r w h \<longleftrightarrow>
     (\<exists>a' w' k. w = w' + k \<and> a' \<le> t \<and> 300 * int w' \<le> a' - a + 1500 * int r \<and> lim_inv ip a' t k h)"

lemma guesses_inv_later:
  assumes "guesses_inv ip a t r w h" and "t \<le> t'"
  shows "guesses_inv ip a t' r w h"
proof -
  from assms(1) obtain a' w' k where "w = w' + k" "a' \<le> t" "300 * int w' \<le> a' - a + 1500 * int r" "lim_inv ip a' t k h"
    by (auto simp: guesses_inv_def)
  with assms(2) lim_inv_later show ?thesis unfolding guesses_inv_def by (intro exI [of _ a'] exI [of _ w'] exI [of _ k]) auto
qed

lemma guesses_inv_bound: "guesses_inv ip a t r w h \<Longrightarrow> 300 * int w \<le> t - a + 1500 * int (Suc r)"
  by (auto simp: guesses_inv_def dest!: lim_inv_bound)

lemma guesses_inv_cleared: "guesses_inv ip a t r w h \<Longrightarrow> guesses_inv ip a t (Suc r) w (h'(ip := None))"
  using guesses_inv_bound [of ip a t r w h] lim_inv_cleared [of ip t t h']
  unfolding guesses_inv_def by (metis add.right_neutral order_refl)

context admin_env
begin

lemma Login_guesses:
  assumes "guesses_inv ip a t r w (lims s)" and "Suc w < 2 ^ 32" and "Login E t c s = Some ((rep, ck), s')"
  shows "let x = (''/users/login'', c, rep) in
    guesses_inv ip a t (if clears ip x then Suc r else r) (if wrong_try ip x then Suc w else w) (lims s')"
proof (cases "realIP c = ip \<and> rep = Ok")
  case True
  then have "accepts t c s"
    using assms(3) Login_refused [of t s c] Login_blank [of t s c] Login_wrong [of t s c] by fastforce
  with Login_accepted have "lims s' = (lims s)(ip := None)" using True assms(3) by (auto simp: Let_def split: prod.splits)
  with guesses_inv_cleared [OF assms(1)] True show ?thesis by (simp add: clears_def wrong_try_def)
next
  case False
  obtain a' w' k where k: "w = w' + k" "a' \<le> t" "300 * int w' \<le> a' - a + 1500 * int r" "lim_inv ip a' t k (lims s)"
    using assms(1) by (auto simp: guesses_inv_def)
  with Login_lims [OF k(4,2), of c] assms(2,3) False
  have "lim_inv ip a' t (if realIP c = ip \<and> rep = Fail Wrong then Suc k else k) (lims s')" by auto
  with k(1-3) False have "guesses_inv ip a t r (if realIP c = ip \<and> rep = Fail Wrong then Suc w else w) (lims s')"
    unfolding guesses_inv_def by (intro exI [of _ a'] exI [of _ w'] exI [of _ "if realIP c = ip \<and> rep = Fail Wrong then Suc k else k"]) auto
  with False show ?thesis by (auto simp: Let_def clears_def wrong_try_def)
qed

lemma served_guesses:
  assumes "guesses_inv ip a t r w (lims s)" and "Suc w < 2 ^ 32"
    and "map_of routes path = Some h" and "h E t c s = Some ((rep, ck), s')"
  shows "let x = (path, c, rep) in
    guesses_inv ip a t (if clears ip x then Suc r else r) (if wrong_try ip x then Suc w else w) (lims s')"
  using assms(3)
proof (cases rule: routes_cases)
  case 1
  with Login_guesses [OF assms(1,2)] assms(4) show ?thesis by simp
next
  case 2
  then have "lims s' = (lims s)(form c ''IP'' := None)"
    using assms(4) by (auto simp: DelLoginLimit_def DelLimitIPInDb_def answer_def bind_eq_Some_conv)
  moreover have "guesses_inv ip a t r w ((lims s)(form c ''IP'' := None))" if "form c ''IP'' \<noteq> ip"
    using assms(1) that by (auto simp: guesses_inv_def lim_inv_fun_upd_other)
  ultimately show ?thesis using guesses_inv_cleared [OF assms(1)] 2(1) by (auto simp: Let_def clears_def wrong_try_def)
next
  case 3
  with assms show ?thesis by (auto simp: keeps_lims_def clears_def wrong_try_def)
qed

lemma serve_guesses:
  "serve E xs s = Some (rs, s') \<Longrightarrow> guesses_inv ip a t r w (lims s) \<Longrightarrow> sorted (t # map fst xs @ [b]) \<Longrightarrow>
     w + length xs < 2 ^ 32 \<Longrightarrow> guesses_inv ip a b (r + count_of (clears ip) rs) (w + count_of (wrong_try ip) rs) (lims s')"
proof (induction xs arbitrary: t r w s rs)
  case Nil
  then show ?case using guesses_inv_later [of ip a t r w "lims s" b] by simp
next
  case (Cons x xs)
  obtain t' path c where x: "x = (t', path, c)" by (cases x)
  obtain h rep ck s1 rs1 where run: "map_of routes path = Some h" "h E t' c s = Some ((rep, ck), s1)"
    "serve E xs s1 = Some (rs1, s')" "rs = (path, c, rep) # rs1"
    using Cons.prems(1) x by (auto simp: bind_eq_Some_conv)
  have "guesses_inv ip a t' r w (lims s)" using Cons.prems(2,3) x guesses_inv_later [of ip a t r w "lims s" t'] by auto
  from served_guesses [OF this _ run(1,2)] Cons.prems(4)
  have "guesses_inv ip a t' (if clears ip (path, c, rep) then Suc r else r) (if wrong_try ip (path, c, rep) then Suc w else w) (lims s1)"
    by (simp add: Let_def)
  from Cons.IH [OF run(3) this] Cons.prems(3,4) x run(4) show ?case by (auto split: if_splits)
qed

end

text \<open>
  C34.  The lockout bounds guessing, for requests that are handled one after the other.  Let the server handle any requests
  to the routes for administrators and groups between two moments \<open>a\<close> and \<open>b\<close>, in the order of the clock, from whatever
  addresses, starting with no failure counted for the address \<open>ip\<close>.  Then the number of wrong passwords tried from \<open>ip\<close> is at
  most five plus one for every 300 seconds, plus five for each time the counter of \<open>ip\<close> was cleared: by a login from \<open>ip\<close> that
  succeeded, or by a request to \<^verbatim>\<open>/users/delloginlimit\<close> that names \<open>ip\<close>, which anybody can send.  And no request to log in is
  left without an answer.  Requests handled at the same time are not covered: nothing guards the table of the counters, so
  that requests can pass the check together before one of them is counted.
\<close>

theorem login_guesses_bounded:
  assumes "ssdb (net E) tab lst" and "lims s ip = None" and "serve E xs s = Some (rs, s')"
    and "sorted (a # map fst xs @ [b])" and "length xs < 2 ^ 32"
  shows "300 * int (count_of (wrong_try ip) rs) \<le> b - a + 1500 * int (Suc (count_of (clears ip) rs)) \<and>
    (\<exists>r ck s''. Login E t c s' = Some ((r, ck), s''))"
proof -
  have env: "admin_env E tab lst" using assms(1) by (simp add: admin_env_def)
  have "guesses_inv ip a a 0 0 (lims s)"
    unfolding guesses_inv_def by (intro exI [of _ a] exI [of _ 0]) (use assms(2) in \<open>simp add: lim_inv_def\<close>)
  from admin_env.serve_guesses [OF env assms(3) this assms(4)] assms(5)
  have "guesses_inv ip a b (count_of (clears ip) rs) (count_of (wrong_try ip) rs) (lims s')" by simp
  with admin_env.Login_total [OF env] show ?thesis by (blast intro: guesses_inv_bound)
qed

definition guess :: request where
  "guess = \<lparr>form = (\<lambda>k. if k = ''username'' then ''bob'' else if k = ''IP'' then ''10.0.0.1'' else ''x''), realIP = ''10.0.0.1'', login_cookie = None\<rparr>"

definition guess_run :: "((string \<times> request \<times> reply) list \<times> rdb app) option" where
  "guess_run = serve ref_env
     [(100, ''/users/login'', guess), (101, ''/users/delloginlimit'', guess), (102, ''/users/getloginlimit'', guess), (103, ''/users/login'', guess)] ref_app"

lemma guess_run_counts:
  "map_option (\<lambda>(rs, s). (count_of (wrong_try ''10.0.0.1'') rs, count_of (clears ''10.0.0.1'') rs)) guess_run = Some (2, 1)"
  by code_simp

lemma login_guesses_bounded_witness:
  "\<exists>rs s'. guess_run = Some (rs, s') \<and> count_of (wrong_try ''10.0.0.1'') rs = 2 \<and> count_of (clears ''10.0.0.1'') rs = 1 \<and>
     300 * int (count_of (wrong_try ''10.0.0.1'') rs) \<le> 110 - 100 + 1500 * int (Suc (count_of (clears ''10.0.0.1'') rs)) \<and>
     (\<exists>r ck s''. Login ref_env 110 guess s' = Some ((r, ck), s''))"
proof -
  obtain rs s' where run: "guess_run = Some (rs, s')"
    "count_of (wrong_try ''10.0.0.1'') rs = 2" "count_of (clears ''10.0.0.1'') rs = 1" using guess_run_counts by auto
  have "lims ref_app ''10.0.0.1'' = None" by (simp add: ref_app_def)
  from login_guesses_bounded [OF ref_server.ssdb_axioms [folded net_ref_env] this run(1) [unfolded guess_run_def], of 100 110 110 guess] run
  show ?thesis by (intro exI [of _ rs] exI [of _ s']) auto
qed


section \<open>Sessions\<close>

lemma u32_less: "0 \<le> x \<Longrightarrow> x < 2 ^ 32 \<Longrightarrow> 0 \<le> y \<Longrightarrow> y < 2 ^ 32 \<Longrightarrow> (of_int x :: u32) < of_int y \<longleftrightarrow> x < y"
  by (simp add: word_less_def uint_word_of_int)

text \<open>What a new session does: its key identifies the user until the session ends.\<close>

lemma Sessions_Add_run:
  assumes "0 \<le> now" and "now + 86400 < 2 ^ 32" and "Sessions_Add E now ses h = (key, h')"
  shows "\<exists>e. h' = h(key \<mapsto> ses\<lparr>expire := e\<rparr>) \<and> (\<forall>t. 0 \<le> t \<and> t < 2 ^ 32 \<longrightarrow> (e < of_int t \<longleftrightarrow> now + 86400 < t)) \<and>
    (\<exists>x. key = md5 E x)"
  using assms u32_less [of "now + 86400"]
  by (intro exI [of _ "of_int (now + 86400)"]) (auto simp: Sessions_Add_def Let_def simp del: of_int_add)

lemma session_life:
  assumes "h key = Some ses" and "login_cookie c = Some key" and "key \<noteq> ''''" and "expire ses < of_int t \<longleftrightarrow> late"
  shows "GetCurrentUserID t c (s\<lparr>sess := h\<rparr>) = (if late then '''' else username ses)"
  using assms by (simp add: GetCurrentUserID_def GetCurrentSession_def Sessions_Get_def)

lemma session_over:
  assumes "login_cookie c = Some key"
  shows "\<exists>ck s'. Logout E t c s = Some ((OkMsg LoggedOut, ck), s') \<and> GetCurrentUserID t c s' = ''''"
  using assms by (simp add: Logout_def Sessions_Del_def GetCurrentUserID_def GetCurrentSession_def Sessions_Get_def Let_def)

text \<open>
  C35.  Logging in works: with the stored password, from an address that is not locked, \<open>Login\<close> answers ok,
  forgets the failures of the address and sets a cookie that identifies the user for exactly 24 hours,
  or until \<open>Logout\<close>; with any other password it is refused and leaves the sessions alone.
\<close>

theorem Login_session:
  assumes "ssdb (net E) tab lst" and "form c ''username'' = user" and "user \<noteq> ''''" and "form c ''password'' \<noteq> ''''"
    and "\<not> locked now (lims s (realIP c))"
    and "tab (db s) USERS user = Some t" and "dec (jadmin E) t (empty_admin\<lparr>aid := user\<rparr>) = (u, True)"
    and "0 \<le> now" and "now + 86400 < 2 ^ 32" and "\<And>x. md5 E x \<noteq> ''''"
  shows "if form c ''password'' = passwd u then
      \<exists>key s'. Login E now c s = Some ((Ok, [(''login'', key), (''version'', Version)]), s') \<and> lims s' (realIP c) = None \<and>
        (\<forall>c' t. login_cookie c' = Some key \<and> 0 \<le> t \<and> t < 2 ^ 32 \<longrightarrow>
          GetCurrentUserID t c' s' = (if now + 86400 < t then '''' else user) \<and>
          (\<exists>ck s''. Logout E t c' s' = Some ((OkMsg LoggedOut, ck), s'') \<and> GetCurrentUserID t c' s'' = ''''))
    else \<exists>s'. Login E now c s = Some ((Fail Wrong, []), s') \<and> sess s' = sess s"
proof -
  have env: "admin_env E tab lst" using assms(1) by (simp add: admin_env_def)
  have "admin_env.account E tab user (db s) = Some u"
    using assms(6,7) by (simp add: admin_env.account_def [OF env] admin_env.stored_def [OF env] as_json_def)
  then have acc: "admin_env.accepts E tab now c s \<longleftrightarrow> form c ''password'' = passwd u"
    using assms(2-5) by (auto simp: admin_env.accepts_def [OF env])
  show ?thesis
  proof (cases "form c ''password'' = passwd u")
    case False
    with admin_env.Login_wrong [OF env assms(5)] assms(2-4) acc show ?thesis by fastforce
  next
    case True
    let ?ses = "\<lparr>username = user, password = form c ''password'', expire = 0\<rparr>"
    obtain key h where add: "Sessions_Add E now ?ses (sess s) = (key, h)" by fastforce
    from Sessions_Add_run [OF assms(8,9) add] assms(10) obtain e where
      e: "h = (sess s)(key \<mapsto> ?ses\<lparr>expire := e\<rparr>)" "\<And>t. 0 \<le> t \<Longrightarrow> t < 2 ^ 32 \<Longrightarrow> e < of_int t \<longleftrightarrow> now + 86400 < t" "key \<noteq> ''''"
      by blast
    let ?s = "s\<lparr>lims := (lims s)(realIP c := None), sess := h\<rparr>"
    have "Login E now c s = Some ((Ok, [(''login'', key), (''version'', Version)]), ?s)"
      using admin_env.Login_accepted [OF env, of now c s] acc True add assms(2) by simp
    moreover have "GetCurrentUserID t c' ?s = (if now + 86400 < t then '''' else user)"
      if "login_cookie c' = Some key" "0 \<le> t" "t < 2 ^ 32" for c' t
      using session_life [where h = h and key = key and c = c' and t = t and late = "now + 86400 < t"
          and ses = "?ses\<lparr>expire := e\<rparr>" and s = "s\<lparr>lims := (lims s)(realIP c := None)\<rparr>"]
        that(1) e(1,3) e(2) [OF that(2,3)] by simp
    ultimately show ?thesis using True session_over [of _ key] by (intro if_P [THEN iffD2]) fastforce+
  qed
qed

definition ref_login :: request where
  "ref_login = \<lparr>form = (\<lambda>k. if k = ''username'' then ''bob'' else ''secret''), realIP = ''10.0.0.1'', login_cookie = None\<rparr>"

lemma Login_session_witness:
  "\<exists>key s'. Login ref_env 100 ref_login ref_app = Some ((Ok, [(''login'', key), (''version'', Version)]), s') \<and>
    lims s' ''10.0.0.1'' = None"
proof -
  have "tab = ref_tab \<Longrightarrow> tab (db ref_app) USERS ''bob'' = Some ''A''" for tab
    by (simp add: ref_app_def ref_tab_def key_defs)
  moreover have "dec (jadmin ref_env) ''A'' (empty_admin\<lparr>aid := ''bob''\<rparr>) = (ref_admin_rec, True)"
    by (simp add: ref_env_def const_codec_def)
  moreover have "md5 ref_env x \<noteq> ''''" for x by (simp add: ref_env_def)
  ultimately show ?thesis
    using Login_session [OF ref_server.ssdb_axioms [folded net_ref_env], of ref_login "''bob''" 100 ref_app "''A''" ref_admin_rec]
    by (auto simp: ref_login_def ref_app_def locked_def ref_admin_rec_def)
qed

section \<open>Who may change administrators\<close>

lemma route_delete: "map_of routes ''/users/delete'' = Some (loginMiddleware Delete)"
  by (simp add: routes_def)

text \<open>
  The server does not ask who is calling: a request without a login cookie to the route that deletes
  administrators removes any administrator but the built-in one, and is told so.
\<close>

theorem delete_needs_no_login:
  assumes "ssdb (net E) tab lst" and "login_cookie c = None"
    and "form c ''Id'' = who" and "who \<noteq> ''''" and "who \<noteq> ADMIN"
  shows "\<exists>h s'. map_of routes ''/users/delete'' = Some h \<and> h E now c s = Some ((OkMsg Deleted, []), s') \<and>
    tab (db s') = (tab (db s))(USERS := (tab (db s) USERS)(who := None))"
proof -
  have env: "admin_env E tab lst" using assms(1) by (simp add: admin_env_def)
  obtain w where del: "Hdel (net E) USERS who (db s) = Some (((), None), w)"
    "tab w = (tab (db s))(USERS := (tab (db s) USERS)(who := None))" using ssdb.Hdel_both [OF assms(1)] by blast
  let ?s = "s\<lparr>db := w\<rparr>"
  obtain w' where "log_op E now (op_record now c ?s OPERATE_KIND_DEL_ADMIN who) ?s = Some (?s\<lparr>db := w'\<rparr>)" "tab w' = tab w"
    using admin_env.log_op_run [OF env, of now _ ?s] by fastforce
  then have "Delete E now c s = Some ((OkMsg Deleted, []), s\<lparr>db := w'\<rparr>)"
    using del(1) assms(3-5) by (simp add: Delete_def Admin_Del_def answer_def Let_def empty_admin_def)
  with del(2) \<open>tab w' = tab w\<close> show ?thesis by (simp add: route_delete loginMiddleware_def)
qed

lemma delete_needs_no_login_witness:
  "\<exists>h s'. map_of routes ''/users/delete'' = Some h \<and>
     h ref_env 100 \<lparr>form = (\<lambda>_. ''bob''), realIP = ''1'', login_cookie = None\<rparr> ref_app = Some ((OkMsg Deleted, []), s') \<and>
     ref_tab (db s') USERS ''bob'' = None"
  using delete_needs_no_login [OF ref_server.ssdb_axioms [folded net_ref_env],
      of "\<lparr>form = (\<lambda>_. ''bob''), realIP = ''1'', login_cookie = None\<rparr>" "''bob''" 100 ref_app]
  by (auto simp: ADMIN_def)

section \<open>Editing a group\<close>

context admin_env
begin

lemma Group_Save_run:
  assumes "card (dom (tab w USER_GROUP)) < 2 ^ 63"
  shows "\<exists>w'. let g' = g\<lparr>gid := int (card (dom (tab w USER_GROUP))) + 1\<rparr> in
    Group_Save E g w = Some ((g', None), w') \<and>
    tab w' USER_GROUP = (tab w USER_GROUP)(fmt_int (gid g') \<mapsto> enc (jgroup E) g') \<and>
    tab w' USER_GROUP_INDEX = (tab w USER_GROUP_INDEX)(gname g \<mapsto> fmt_int (sint (of_int (gid g') :: u64)))"
proof -
  let ?g = "g\<lparr>gid := int (card (dom (tab w USER_GROUP))) + 1\<rparr>"
  obtain w1 where 1: "Hset (net E) USER_GROUP_INDEX (gname ?g) (GInt64 (of_int (gid ?g))) w = Some (((), None), w1)"
    "tab w1 = (tab w)(USER_GROUP_INDEX := (tab w USER_GROUP_INDEX)(gname ?g \<mapsto> etext (GInt64 (of_int (gid ?g)))))"
    using Hset_both by blast
  obtain w2 where 2: "Hset (net E) USER_GROUP (fmt_int (gid ?g)) (json_val (jgroup E) ?g) w1 = Some (((), None), w2)"
    "tab w2 = (tab w1)(USER_GROUP := (tab w1 USER_GROUP)(fmt_int (gid ?g) \<mapsto> etext (json_val (jgroup E) ?g)))"
    using Hset_both by blast
  have "Group_Save E g w = Some ((?g, None), w2)"
    using 1(1) 2(1) by (simp add: Group_Save_def Hsize_run [OF assms])
  with 1(2) 2(2) show ?thesis by (simp add: Let_def key_defs)
qed

end

definition edited :: "request \<Rightarrow> group \<Rightarrow> group" where
  "edited c g =
     (let g = (if form c ''Desc'' \<noteq> '''' then g\<lparr>gdesc := form c ''Desc''\<rparr> else g);
          g = (if fst (Atoi (form c ''Power'')) > 0 then g\<lparr>power := fst (Atoi (form c ''Power''))\<rparr> else g)
      in if form c ''Name'' \<noteq> '''' then g\<lparr>gname := form c ''Name''\<rparr> else g)"

text \<open>
  C37.  \<open>EditGroup\<close> does not change the group it is given.  It stores the changed group under another number, the size \<open>n\<close> of the
  table plus one, and nothing else in the table changes: the group with the number of the request stays as it was, unless its
  number is \<open>n + 1\<close>.  The number need not be free: a group that is stored under \<open>n + 1\<close>, as after a deletion of another one, is
  overwritten.
\<close>

theorem EditGroup_duplicates:
  assumes "ssdb (net E) tab lst" and "fst (ParseInt 64 (form c ''Id'')) = i"
    and "tab (db s) USER_GROUP (fmt_int i) = Some t" and "dec (jgroup E) t (empty_group\<lparr>gid := i\<rparr>) = (g, True)"
    and "card (dom (tab (db s) USER_GROUP)) = n" and "n < 2 ^ 63"
  shows "\<exists>s'. EditGroup E now c s = Some ((Ok, []), s') \<and>
    tab (db s') USER_GROUP = (tab (db s) USER_GROUP)(fmt_int (int n + 1) \<mapsto> enc (jgroup E) ((edited c g)\<lparr>gid := int n + 1\<rparr>)) \<and>
    (i \<noteq> int n + 1 \<longrightarrow> tab (db s') USER_GROUP (fmt_int i) = Some t)"
proof -
  have env: "admin_env E tab lst" using assms(1) by (simp add: admin_env_def)
  have get: "Group_Get E (empty_group\<lparr>gid := i\<rparr>) (db s) = Some ((g, None), db s)"
    using assms(3,4) by (simp add: admin_env.Group_Get_run [OF env] admin_env.stored_def [OF env] as_json_def)
  have "\<exists>w. tab w = tab (db s) \<and>
    EditGroup E now c s = do {
       ((g, err), w) \<leftarrow> Group_Save E (edited c g) w;
       answer (if err \<noteq> None then Fail GroupFailed else Ok) (s\<lparr>db := w\<rparr>) }"
    unfolding EditGroup_def Let_def assms(2) get edited_def
    by (simp add: admin_env.change_eq [OF env] split del: if_split)
       (rule exI, rule conjI [rotated], rule refl, simp add: admin_env.logged_tab [OF env])
  then obtain w where w: "tab w = tab (db s)"
    "EditGroup E now c s = do {
       ((g, err), w) \<leftarrow> Group_Save E (edited c g) w;
       answer (if err \<noteq> None then Fail GroupFailed else Ok) (s\<lparr>db := w\<rparr>) }" by blast
  from admin_env.Group_Save_run [OF env, of w "edited c g"] assms(5,6) w(1) obtain w4 where
    4: "Group_Save E (edited c g) w = Some (((edited c g)\<lparr>gid := int n + 1\<rparr>, None), w4)"
    "tab w4 USER_GROUP = (tab (db s) USER_GROUP)(fmt_int (int n + 1) \<mapsto> enc (jgroup E) ((edited c g)\<lparr>gid := int n + 1\<rparr>))"
    by (auto simp: Let_def)
  have "EditGroup E now c s = Some ((Ok, []), s\<lparr>db := w4\<rparr>)" using w(2) 4(1) by (simp add: answer_def)
  with 4(2) assms(3) show ?thesis by (auto dest: fmt_int_inject)
qed

definition ref_groups :: "rdb app" where
  "ref_groups = \<lparr>sess = Map.empty, lims = Map.empty, db = put_tab ref_empty USER_GROUP [(''1'', ''G''), (''3'', ''H'')]\<rparr>"

lemma EditGroup_duplicates_witness:
  "\<exists>s'. EditGroup ref_env 100 \<lparr>form = (\<lambda>k. if k = ''Id'' then ''1'' else if k = ''Desc'' then ''new'' else []), realIP = ''1'', login_cookie = None\<rparr>
      ref_groups = Some ((Ok, []), s') \<and> ref_tab (db s') USER_GROUP = [''1'' \<mapsto> ''G'', ''3'' \<mapsto> ''G''] \<and> ref_tab (db s') USER_GROUP ''1'' = Some ''G''"
proof -
  let ?c = "\<lparr>form = (\<lambda>k. if k = ''Id'' then ''1'' else if k = ''Desc'' then ''new'' else []), realIP = ''1'', login_cookie = None\<rparr>"
  have t: "ref_tab (db ref_groups) USER_GROUP = [''1'' \<mapsto> ''G'', ''3'' \<mapsto> ''H'']" by (auto simp: ref_groups_def ref_tab_def)
  have digits: "fmt_int 1 = ''1''" "fmt_int 3 = ''3''" by code_simp+
  have "dec (jgroup ref_env) ''G'' (empty_group\<lparr>gid := 1\<rparr>) = (ref_group_rec, True)" "enc (jgroup ref_env) x = ''G''" for x
    by (simp_all add: ref_env_def const_codec_def)
  then show ?thesis
    using EditGroup_duplicates [OF ref_server.ssdb_axioms [folded net_ref_env],
        where c = ?c and i = 1 and s = ref_groups and t = "''G''" and g = ref_group_rec and n = 2 and now = 100] t digits ParseInt_fmt [of 64 1]
    by (auto simp: fun_eq_iff)
qed

end
