(* ===== verification/NumString.thy ===== *)
theory NumString
  imports Utf8
begin

text \<open>
  Arithmetic on decimal text, from \<^verbatim>\<open>src/basic/utils/utils.go\<close>: \<open>IsNumString\<close>, \<open>StringAdd\<close>, \<open>StringAddNum\<close>
  and \<open>Between\<close>, which user ids are allocated and enumerated with.  The loop of \<open>Between\<close> counts up until
  it meets its end and may never do so; not returning and panicking are \<open>None\<close>.
\<close>

section \<open>The operations\<close>

fun num_runes :: "nat list \<Rightarrow> bool" where
  "num_runes [] = True"
| "num_runes (r # rs) = (if r > 56 then False else if r < 48 then False else num_runes rs)"

definition IsNumString :: "string \<Rightarrow> bool" where
  "IsNumString s = num_runes (go_runes s)"

text \<open>The loop of \<open>StringAdd\<close> from index \<open>i - 1\<close> down; the flag is \<open>add\<close>.\<close>

fun carry :: "nat \<Rightarrow> nat list \<Rightarrow> nat list \<times> bool" where
  "carry 0 rs = (rs, True)"
| "carry (Suc i) rs = (if rs ! i < 57 then (rs[i := rs ! i + 1], False) else carry i (rs[i := 48]))"

definition StringAdd :: "string \<Rightarrow> string" where
  "StringAdd s =
     (let rs = go_runes s;
          (rs, add) = carry (length rs) rs
      in of_runes (if add then 49 # rs else rs))"

fun StringAddNum_loop :: "nat \<Rightarrow> string \<Rightarrow> string" where
  "StringAddNum_loop 0 s = s"
| "StringAddNum_loop (Suc n) s = StringAddNum_loop n (StringAdd s)"

definition StringAddNum :: "string \<Rightarrow> int \<Rightarrow> string" where
  "StringAddNum s num = StringAddNum_loop (nat num) s"

text \<open>The first loop of \<open>Between\<close>: whether the second loop is entered.\<close>

fun ordered :: "nat list \<Rightarrow> nat list \<Rightarrow> bool option" where
  "ordered [] es = Some True"
| "ordered (s # ss) [] = None"
| "ordered (s # ss) (e # es) = (if e < s then Some False else if e > s then Some True else ordered ss es)"

partial_function (option) between_loop :: "string \<Rightarrow> string \<Rightarrow> string list \<Rightarrow> string list option" where
  "between_loop startid endid ids =
     (let ids = ids @ [startid];
          startid = StringAdd startid
      in if startid = endid then Some (ids @ [startid]) else between_loop startid endid ids)"

definition Between :: "string \<Rightarrow> string \<Rightarrow> string list option" where
  "Between startid endid =
     (if startid = endid then Some [startid]
      else if length startid > length endid then Some []
      else do {
        go \<leftarrow> ordered (go_runes startid) (go_runes endid);
        if go then between_loop startid endid [] else Some []
      })"

section \<open>Digits\<close>

text \<open>The digits of a number, most significant first.\<close>

function decimal :: "nat \<Rightarrow> nat list" where
  "decimal n = (if n < 10 then [n] else decimal (n div 10) @ [n mod 10])"
  by pat_completeness auto
termination by (relation "measure id") auto

declare decimal.simps [simp del]

lemma dec_small [simp]: "n < 10 \<Longrightarrow> decimal n = [n]"
  by (simp add: decimal.simps)

lemma dec_large: "10 \<le> n \<Longrightarrow> decimal n = decimal (n div 10) @ [n mod 10]"
  by (simp add: decimal.simps [of n])

lemma dec_bound: "d \<in> set (decimal n) \<Longrightarrow> d < 10"
proof (induction n rule: decimal.induct)
  case (1 n)
  then show ?case by (cases "n < 10") (auto simp: dec_large)
qed

lemma dec_ne [simp]: "decimal n \<noteq> []"
  by (cases "n < 10") (auto simp: dec_large)

lemma fmt_nat_dec: "fmt_nat n = map digit_char (decimal n)"
proof (induction n rule: decimal.induct)
  case (1 n)
  then show ?case by (cases "n < 10") (auto simp: dec_large fmt_nat_large)
qed

lemma length_fmt_nat: "length (fmt_nat n) = length (decimal n)"
  by (simp add: fmt_nat_dec)

lemma go_runes_digits: "(\<And>d. d \<in> set ds \<Longrightarrow> d < 10) \<Longrightarrow> go_runes (map digit_char ds) = map ((+) 48) ds"
  by (subst go_runes_ascii) (fastforce simp: digit_char_of)+

lemma of_runes_digits: "(\<And>d. d \<in> set ds \<Longrightarrow> d < 10) \<Longrightarrow> of_runes (map ((+) 48) ds) = map digit_char ds"
  by (subst of_runes_ascii) (fastforce simp: digit_char_def)+

lemma go_runes_fmt: "go_runes (fmt_nat n) = map ((+) 48) (decimal n)"
  unfolding fmt_nat_dec by (rule go_runes_digits) (rule dec_bound)

section \<open>Counting\<close>

definition inc :: "nat list \<Rightarrow> nat list" where
  "inc rs = (case carry (length rs) rs of (rs, add) \<Rightarrow> if add then 49 # rs else rs)"

lemma carry_append: "i \<le> length rs \<Longrightarrow> carry i (rs @ xs) = (case carry i rs of (rs', a) \<Rightarrow> (rs' @ xs, a))"
proof (induction i arbitrary: rs)
  case (Suc i)
  then show ?case by (auto simp: nth_append list_update_append split: prod.splits)
qed simp

lemma inc_snoc: "inc (rs @ [r]) = (if r < 57 then rs @ [r + 1] else inc rs @ [48])"
proof -
  have "(rs @ [r])[length rs := x] = rs @ [x]" for x by (simp add: list_update_append)
  then show ?thesis using carry_append [of "length rs" rs "[48]"]
    by (auto simp: inc_def split: prod.splits)
qed

lemma inc_dec: "inc (map ((+) 48) (decimal n)) = map ((+) 48) (decimal (Suc n))"
proof (induction n rule: decimal.induct)
  case (1 n)
  show ?case
  proof (cases "n < 10")
    case True
    have "inc [48 + n] = (if n < 9 then [49 + n] else [49, 48])"
      using True inc_snoc [of "[]" "48 + n"] by (auto simp: inc_def)
    moreover have "decimal 10 = [1, 0]" by (simp add: dec_large)
    ultimately show ?thesis using True by (cases "n = 9") auto
  next
    case False
    have IH: "inc (map ((+) 48) (decimal (n div 10))) = map ((+) 48) (decimal (Suc (n div 10)))" using 1 False by simp
    have big: "decimal (Suc n) = decimal (Suc n div 10) @ [Suc n mod 10]" using False by (simp add: dec_large)
    show ?thesis
    proof (cases "n mod 10 = 9")
      case True
      then have "Suc n mod 10 = 0" "Suc n div 10 = Suc (n div 10)" by (simp_all add: mod_Suc div_Suc)
      with True False IH big show ?thesis by (simp add: dec_large inc_snoc)
    next
      case no: False
      then have "Suc n mod 10 = Suc (n mod 10)" "Suc n div 10 = n div 10" by (simp_all add: mod_Suc div_Suc)
      moreover have "n mod 10 < 9" using no mod_less_divisor [of 10 n] by linarith
      ultimately show ?thesis using False big by (simp add: dec_large inc_snoc)
    qed
  qed
qed

lemma StringAdd_fmt: "StringAdd (fmt_nat n) = fmt_nat (Suc n)"
proof -
  have "StringAdd (fmt_nat n) = of_runes (inc (map ((+) 48) (decimal n)))"
    by (simp add: StringAdd_def go_runes_fmt inc_def Let_def split: prod.splits)
  also have "\<dots> = of_runes (map ((+) 48) (decimal (Suc n)))" by (simp only: inc_dec)
  also have "\<dots> = fmt_nat (Suc n)" unfolding fmt_nat_dec by (rule of_runes_digits) (rule dec_bound)
  finally show ?thesis .
qed

lemma StringAddNum_loop_fmt: "StringAddNum_loop k (fmt_nat n) = fmt_nat (n + k)"
  by (induction k arbitrary: n) (simp_all add: StringAdd_fmt)

section \<open>Enumerating\<close>

fun numval :: "nat list \<Rightarrow> nat" where
  "numval [] = 0"
| "numval (d # ds) = d * 10 ^ length ds + numval ds"

lemma numval_append: "numval (xs @ ys) = numval xs * 10 ^ length ys + numval ys"
  by (induction xs) (simp_all add: algebra_simps power_add)

lemma numval_bound: "(\<And>d. d \<in> set ds \<Longrightarrow> d < 10) \<Longrightarrow> numval ds < 10 ^ length ds"
proof (induction ds)
  case (Cons d ds)
  moreover from this(2) [of d] have "d \<le> 9" by simp
  ultimately have "numval ds < 10 ^ length ds" "d \<le> 9" by auto
  then have "d * 10 ^ length ds \<le> 9 * 10 ^ length ds" by (intro mult_right_mono) auto
  with \<open>numval ds < 10 ^ length ds\<close> have "d * 10 ^ length ds + numval ds < 9 * 10 ^ length ds + 10 ^ length ds" by linarith
  then show ?case by simp
qed simp

lemma numval_dec: "numval (decimal n) = n"
proof (induction n rule: decimal.induct)
  case (1 n)
  then show ?case by (cases "n < 10") (auto simp: dec_large numval_append)
qed

lemma numval_take_dec: "k \<le> length (decimal b) \<Longrightarrow> numval (take k (decimal b)) = b div 10 ^ (length (decimal b) - k)"
proof -
  assume "k \<le> length (decimal b)"
  let ?r = "drop k (decimal b)"
  have "numval ?r < 10 ^ length ?r" by (rule numval_bound) (auto dest!: in_set_dropD dec_bound)
  moreover have "b = numval (take k (decimal b)) * 10 ^ length ?r + numval ?r"
    using numval_append [of "take k (decimal b)" ?r] by (simp add: numval_dec)
  ultimately have "b div 10 ^ length ?r = numval (take k (decimal b))"
    by (metis add.right_neutral div_less div_mult_self3 power_not_zero zero_neq_numeral)
  then show ?thesis by simp
qed

lemma ordered_numval:
  "length ss \<le> length es \<Longrightarrow> (\<And>d. d \<in> set ss \<union> set es \<Longrightarrow> d < 10) \<Longrightarrow>
     ordered (map ((+) 48) ss) (map ((+) 48) es) = Some (numval ss \<le> numval (take (length ss) es))"
proof (induction ss arbitrary: es)
  case (Cons s ss)
  then obtain e es' where es: "es = e # es'" by (cases es) auto
  let ?p = "10 ^ length ss :: nat"
  have len: "length (take (length ss) es') = length ss" using Cons.prems(1) es by simp
  have b: "numval ss < ?p" by (rule numval_bound) (use Cons.prems(2) in auto)
  have "numval (take (length ss) es') < 10 ^ length (take (length ss) es')"
    by (rule numval_bound) (use Cons.prems(2) es in \<open>auto dest!: in_set_takeD\<close>)
  then have c: "numval (take (length ss) es') < ?p" by (simp only: len)
  have IH: "ordered (map ((+) 48) ss) (map ((+) 48) es') = Some (numval ss \<le> numval (take (length ss) es'))"
    using Cons es by auto
  have less: "x * ?p + u < y * ?p + w" if "x < y" "u < ?p" for x y u w
  proof -
    have "x * ?p + u < Suc x * ?p" using that by simp
    also have "\<dots> \<le> y * ?p" using that by (intro mult_right_mono) auto
    finally show ?thesis by simp
  qed
  have vs: "numval (s # ss) = s * ?p + numval ss" "numval (take (length (s # ss)) es) = e * ?p + numval (take (length ss) es')"
    by (simp_all only: es length_Cons take_Suc_Cons numval.simps len)
  have "(numval (s # ss) \<le> numval (take (length (s # ss)) es)) =
      (if e < s then False else if s < e then True else numval ss \<le> numval (take (length ss) es'))"
    unfolding vs using less [of e s, OF _ c, of "numval ss"] less [of s e, OF _ b, of "numval (take (length ss) es')"]
    by (auto simp: not_le intro: less_imp_le)
  then show ?case using IH by (simp only: es list.map ordered.simps if_distrib [of Some]) simp
qed simp

lemma fmt_nat_inj [simp]: "fmt_nat a = fmt_nat b \<longleftrightarrow> a = b"
proof
  assume "fmt_nat a = fmt_nat b"
  then have "(a, True) = (b, True)" using parse_digits_fmt [of a "a + b"] parse_digits_fmt [of b "a + b"] by (metis le_add1 le_add2)
  then show "a = b" by simp
qed simp

lemma between_loop_fmt:
  "a < b \<Longrightarrow> between_loop (fmt_nat a) (fmt_nat b) ids = Some (ids @ map fmt_nat [a..<Suc b])"
proof (induction "b - a" arbitrary: a ids)
  case (Suc d)
  have step: "between_loop (fmt_nat a) (fmt_nat b) ids =
      (if Suc a = b then Some (ids @ [fmt_nat a, fmt_nat b]) else between_loop (fmt_nat (Suc a)) (fmt_nat b) (ids @ [fmt_nat a]))"
    by (subst between_loop.simps) (simp add: StringAdd_fmt)
  show ?case
  proof (cases "Suc a = b")
    case True
    then show ?thesis using step by (simp add: upt_rec [of a])
  next
    case False
    with Suc step show ?thesis by (simp add: upt_conv_Cons [of a])
  qed
qed simp

lemma length_dec_mono: "a \<le> b \<Longrightarrow> length (decimal a) \<le> length (decimal b)"
proof (induction b arbitrary: a rule: decimal.induct)
  case (1 b)
  show ?case
  proof (cases "a < 10")
    case True
    then show ?thesis by (simp add: Suc_le_eq)
  next
    case False
    then have "length (decimal (a div 10)) \<le> length (decimal (b div 10))" using 1 by (intro "1.IH") (auto intro: div_le_mono)
    with False 1(2) show ?thesis by (simp add: dec_large)
  qed
qed

text \<open>
  C25.  On decimal numbers \<open>StringAdd\<close> and \<open>StringAddNum\<close> are addition, and \<open>Between\<close> always returns: it
  lists the numbers from its start to its end whenever the start is at most the leading digits of the
  end, and nothing otherwise.
\<close>

theorem Between_numbers:
  "StringAddNum (fmt_nat a) (int k) = fmt_nat (a + k) \<and>
   Between (fmt_nat a) (fmt_nat b) =
     Some (if length (fmt_nat a) \<le> length (fmt_nat b) \<and> a \<le> b div 10 ^ (length (fmt_nat b) - length (fmt_nat a))
           then map fmt_nat [a..<Suc b] else [])"
proof
  show "StringAddNum (fmt_nat a) (int k) = fmt_nat (a + k)" by (simp add: StringAddNum_def StringAddNum_loop_fmt)
  let ?d = "length (fmt_nat b) - length (fmt_nat a)"
  consider "a = b" | "a \<noteq> b" "length (fmt_nat b) < length (fmt_nat a)" | "a \<noteq> b" "length (fmt_nat a) \<le> length (fmt_nat b)"
    by linarith
  then show "Between (fmt_nat a) (fmt_nat b) =
     Some (if length (fmt_nat a) \<le> length (fmt_nat b) \<and> a \<le> b div 10 ^ ?d then map fmt_nat [a..<Suc b] else [])"
  proof cases
    case 3
    then have len: "length (decimal a) \<le> length (decimal b)" by (simp add: length_fmt_nat)
    have "d < 10" if "d \<in> set (decimal a) \<union> set (decimal b)" for d using that dec_bound by blast
    from ordered_numval [OF len this]
    have "ordered (go_runes (fmt_nat a)) (go_runes (fmt_nat b)) = Some (a \<le> b div 10 ^ ?d)"
      unfolding go_runes_fmt length_fmt_nat numval_take_dec [OF len] numval_dec .
    moreover have "a < b" if "a \<le> b div 10 ^ ?d" using that 3(1) div_le_dividend [of b "10 ^ ?d"] by linarith
    ultimately have "Between (fmt_nat a) (fmt_nat b) = (if a \<le> b div 10 ^ ?d then Some (map fmt_nat [a..<Suc b]) else Some [])"
      unfolding Between_def using 3 by (simp only: fmt_nat_inj if_False not_less [symmetric] Option.bind.bind_lunit between_loop_fmt append_Nil cong: if_cong)
    then show ?thesis using 3(2) by (simp only: if_distrib [of Some] simp_thms if_cancel)
  next
    case 2
    then show ?thesis by (simp only: Between_def fmt_nat_inj if_False if_True not_le [symmetric] simp_thms)
  next
    case 1
    then show ?thesis by (simp add: Between_def)
  qed
qed

lemma num_runes_iff: "num_runes rs \<longleftrightarrow> (\<forall>r \<in> set rs. 48 \<le> r \<and> r \<le> 56)"
  by (induction rs) auto

text \<open>
  \<open>IsNumString\<close> refuses exactly those decimal numbers that contain the digit 9: its upper bound is
  the code of the digit 8.
\<close>

theorem IsNumString_rejects_nine: "IsNumString (fmt_nat n) \<longleftrightarrow> 9 \<notin> set (decimal n)"
proof -
  have "48 + d \<le> 56 \<longleftrightarrow> d \<noteq> 9" if "d \<in> set (decimal n)" for d using dec_bound [OF that] by linarith
  then show ?thesis by (auto simp: IsNumString_def go_runes_fmt num_runes_iff)
qed

end
