(* ===== verification/PlayerData.thy ===== *)
theory PlayerData
  imports AdminData NumString
begin

text \<open>
  The data of players: \<^verbatim>\<open>src/data/data_user.go\<close>, in which a player is stored field by field as a hash map,
  and \<^verbatim>\<open>src/resource/resource.go\<close>, which changes a player's resources.  A player is an object of the
  storage model, the list of its fields; \<open>pf\<close> is the parse of a float, which no field of a player uses.
\<close>

section \<open>Players\<close>

definition KEY_USER :: string where "KEY_USER = ''user:''"
definition KEY_LAST_USER_ID :: string where "KEY_LAST_USER_ID = ''lastuserid:''"

definition new_user :: "string \<Rightarrow> gobject" where
  "new_user userid =
     [(''Userid'', GStr userid), (''Nickname'', GStr ''''), (''Sex'', GUint32 0), (''Sign'', GStr ''''), (''Email'', GStr ''''),
      (''Phone'', GStr ''''), (''Auth'', GStr ''''), (''Pwd'', GStr ''''), (''Birth'', GUint32 0), (''Create_ip'', GUint32 0),
      (''Create_time'', GUint32 0), (''Coin'', GUint32 0), (''Exp'', GUint32 0), (''Diamond'', GUint32 0), (''Ticket'', GUint32 0),
      (''Exchange'', GUint32 0), (''Terminal'', GStr ''''), (''Status'', GUint32 0), (''Address'', GStr ''''), (''Photo'', GStr ''''),
      (''Qq_uid'', GStr ''''), (''Wechat_uid'', GStr ''''), (''Microblog_uid'', GStr ''''), (''Vip'', GUint32 0),
      (''VipExpire'', GUint32 0), (''Win'', GUint32 0), (''Lost'', GUint32 0), (''Ping'', GUint32 0), (''Platform'', GUint32 0),
      (''ChenmiTime'', GUint32 0), (''Chenmi'', GInt32 0)]"

definition str_field :: "string \<Rightarrow> gobject \<Rightarrow> string" where
  "str_field f u = (case map_of u f of Some (GStr s) \<Rightarrow> s | _ \<Rightarrow> '''')"

definition u32_field :: "string \<Rightarrow> gobject \<Rightarrow> u32" where
  "u32_field f u = (case map_of u f of Some (GUint32 n) \<Rightarrow> n | _ \<Rightarrow> 0)"

definition set_str :: "string \<Rightarrow> string \<Rightarrow> gobject \<Rightarrow> gobject" where
  "set_str f s u = map (\<lambda>(g, v). (g, if g = f then GStr s else v)) u"

definition user_key :: "gobject \<Rightarrow> string" where
  "user_key u = KEY_USER @ str_field ''Userid'' u"

definition GenerateUserid :: "'w net \<Rightarrow> (string, 'w) act" where
  "GenerateUserid N w = do {
     ((value, _), w) \<leftarrow> Get N KEY_LAST_USER_ID w;
     let userid = (if value = '''' then ''60001'' else value);
     ((_, err), w) \<leftarrow> Set N KEY_LAST_USER_ID (GStr (StringAdd userid)) [] w;
     Some ((userid, err), w)
   }"

definition User_Get ::
  "(nat \<Rightarrow> string \<Rightarrow> string) \<Rightarrow> 'w net \<Rightarrow> gobject \<Rightarrow> 'w \<Rightarrow> (gobject \<times> error option) \<times> 'w" where
  "User_Get pf N u w = GetObject pf N (user_key u) u w"

fun GetMultiUser :: "(nat \<Rightarrow> string \<Rightarrow> string) \<Rightarrow> 'w net \<Rightarrow> string list \<Rightarrow> 'w \<Rightarrow> gobject list \<times> 'w" where
  "GetMultiUser pf N [] w = ([], w)"
| "GetMultiUser pf N (userid # ids) w =
     (case User_Get pf N (new_user userid) w of
        ((u, err), w) \<Rightarrow> (case GetMultiUser pf N ids w of
           (us, w) \<Rightarrow> (if err = None then u # us else us, w)))"

definition MultiHsetSave :: "'w net \<Rightarrow> gobject \<Rightarrow> (string \<times> gval) list \<Rightarrow> (unit, 'w) act" where
  "MultiHsetSave N u kvs w = MultiHset N (user_key u) kvs w"

definition User_Save :: "'w net \<Rightarrow> gobject \<Rightarrow> (unit, 'w) act" where
  "User_Save N u w = PutObject N (AStr (user_key u)) u w"

definition ExistPhone :: "'w net \<Rightarrow> gobject \<Rightarrow> string \<Rightarrow> 'w \<Rightarrow> (bool \<times> 'w) option" where
  "ExistPhone N u phone w = do {
     ((value, err), w) \<leftarrow> Hget N (user_key u) ''Phone'' w;
     Some (if err \<noteq> None then False else value = phone, w)
   }"

definition GetNickname :: "'w net \<Rightarrow> gobject \<Rightarrow> (gobject, 'w) act" where
  "GetNickname N u w = do {
     ((value, err), w) \<leftarrow> Hget N (user_key u) ''Nickname'' w;
     Some ((if err = None then set_str ''Nickname'' value u else u, err), w)
   }"

definition ExistNickname :: "'w net \<Rightarrow> gobject \<Rightarrow> string \<Rightarrow> 'w \<Rightarrow> (bool \<times> 'w) option" where
  "ExistNickname N u nickname w = do {
     ((value, err), w) \<leftarrow> Hget N (user_key u) ''Nickname'' w;
     Some (if err \<noteq> None then False else value = nickname, w)
   }"

definition UpdateSex :: "'w net \<Rightarrow> gobject \<Rightarrow> (unit, 'w) act" where
  "UpdateSex N u w = Hset N (user_key u) ''Sex'' (GUint32 (u32_field ''Sex'' u)) w"

definition UpdateNickname :: "'w net \<Rightarrow> gobject \<Rightarrow> (unit, 'w) act" where
  "UpdateNickname N u w = Hset N (user_key u) ''Nickname'' (GStr (str_field ''Nickname'' u)) w"

definition GetByPhone :: "'w net \<Rightarrow> gobject \<Rightarrow> 'w \<Rightarrow> (string \<times> 'w) option" where
  "GetByPhone N u w = do {
     ((value, err), w) \<leftarrow> Hget N (user_key u) ''Phone'' w;
     Some (if err \<noteq> None then '''' else value, w)
   }"

definition UpdatePWD :: "(string \<Rightarrow> string) \<Rightarrow> 'w net \<Rightarrow> gobject \<Rightarrow> string \<Rightarrow> (unit, 'w) act" where
  "UpdatePWD md5f N u pwd w = do {
     ((auth, _), w) \<leftarrow> Hget N (user_key u) ''Auth'' w;
     Hset N (user_key u) ''Passwd'' (GStr (md5f (pwd @ auth))) w
   }"

definition PWDIsOK :: "(string \<Rightarrow> string) \<Rightarrow> 'w net \<Rightarrow> gobject \<Rightarrow> string \<Rightarrow> 'w \<Rightarrow> (bool \<times> 'w) option" where
  "PWDIsOK md5f N u pwd w = do {
     ((value, err), w) \<leftarrow> MultiHget N (user_key u) [''Pwd'', ''Auth''] w;
     let at = (\<lambda>k. case value k of Some v \<Rightarrow> v | None \<Rightarrow> '''');
     Some (if err \<noteq> None then False else md5f (pwd @ at ''Auth'') = at ''Pwd'', w)
   }"

section \<open>Resources\<close>

record vip_data =
  vid :: u32
  viptype :: u32
  clubmax :: u32
  deskmax :: u32
  bankruptmax :: u32
  bankruptcoin :: u32
  vsign :: u32
  vexpire :: u32

text \<open>The table read from the file of VIP levels is a parameter.\<close>

definition GetVip :: "(u32 \<rightharpoonup> vip_data) \<Rightarrow> u32 \<Rightarrow> vip_data option" where
  "GetVip vipMap i = vipMap i"

definition COIN :: u32 where "COIN = 1"
definition EXCHANGE :: u32 where "EXCHANGE = 2"
definition TICKET :: u32 where "TICKET = 3"
definition DIAMOND :: u32 where "DIAMOND = 4"
definition VIP0 :: u32 where "VIP0 = 21"
definition VIP3 :: u32 where "VIP3 = 24"
definition EXP :: u32 where "EXP = 100"

text \<open>\<open>int32(old) + count\<close>, cut off at 0.\<close>

definition new_count :: "u32 \<Rightarrow> u32 \<Rightarrow> u32" where
  "new_count old cnt = (let current = old + cnt in if sint current < 0 then 0 else current)"

definition vip_update :: "int \<Rightarrow> gobject \<Rightarrow> vip_data \<Rightarrow> u32 \<times> u32" where
  "vip_update now u d =
     (let viplev = viptype d;
          viplev = (if viplev < u32_field ''Vip'' u then u32_field ''Vip'' u else viplev);
          ends = u32_field ''VipExpire'' u;
          add = vexpire d * 86400
      in (viplev, if ends < of_int now then of_int now + add else ends + add))"

definition change_one ::
  "(u32 \<rightharpoonup> vip_data) \<Rightarrow> 'w net \<Rightarrow> int \<Rightarrow> string \<Rightarrow> gobject \<Rightarrow> u32 \<times> u32 \<Rightarrow> 'w \<Rightarrow> 'w option" where
  "change_one vipMap N now userid u = (\<lambda>(i, cnt) w.
     let put = (\<lambda>f v. do { (_, w) \<leftarrow> Hset N (KEY_USER @ userid) f v w; Some w });
         cur = (\<lambda>f. new_count (u32_field f u) cnt)
     in if i = COIN then put ''Coin'' (GInt32 (cur ''Coin''))
        else if i = EXCHANGE then put ''Exchange'' (GInt32 (cur ''Exchange''))
        else if i = TICKET then put ''Ticket'' (GInt32 (cur ''Ticket''))
        else if i = DIAMOND then put ''Diamond'' (GInt64 (scast (cur ''Diamond'')))
        else if i = EXP then put ''Exp'' (GInt32 (cur ''Exp''))
        else if i \<ge> VIP0 \<and> i \<le> VIP3 then
          (case GetVip vipMap i of
             Some d \<Rightarrow> (case vip_update now u d of (viplev, ends) \<Rightarrow> do {
                (_, w) \<leftarrow> MultiHset N (KEY_USER @ userid) [(''Vip'', GUint32 viplev), (''VipExpire'', GUint32 ends)] w;
                Some w })
           | None \<Rightarrow> Some w)
        else Some w)"

fun change_all ::
  "(u32 \<rightharpoonup> vip_data) \<Rightarrow> 'w net \<Rightarrow> int \<Rightarrow> string \<Rightarrow> gobject \<Rightarrow> (u32 \<times> u32) list \<Rightarrow> 'w \<Rightarrow> 'w option" where
  "change_all vipMap N now userid u [] w = Some w"
| "change_all vipMap N now userid u (x # xs) w = do {
     w \<leftarrow> change_one vipMap N now userid u x w;
     change_all vipMap N now userid u xs w
   }"

text \<open>The changes are the entries of a map in the order Go walks through it.\<close>

definition ChangeMulti ::
  "(u32 \<rightharpoonup> vip_data) \<Rightarrow> (nat \<Rightarrow> string \<Rightarrow> string) \<Rightarrow> 'w net \<Rightarrow> int \<Rightarrow> string \<Rightarrow> (u32 \<times> u32) list \<Rightarrow> 'w \<Rightarrow> (error option \<times> 'w) option" where
  "ChangeMulti vipMap pf N now userid res w =
     (case User_Get pf N (new_user userid) w of
        ((u, err), w) \<Rightarrow>
          if err \<noteq> None then Some (err, w)
          else do { w \<leftarrow> change_all vipMap N now userid u res w; Some (None, w) })"

definition ChangeRes ::
  "(u32 \<rightharpoonup> vip_data) \<Rightarrow> (nat \<Rightarrow> string \<Rightarrow> string) \<Rightarrow> 'w net \<Rightarrow> int \<Rightarrow> string \<Rightarrow> u32 \<Rightarrow> u32 \<Rightarrow> 'w \<Rightarrow> (error option \<times> 'w) option" where
  "ChangeRes vipMap pf N now userid i cnt w = ChangeMulti vipMap pf N now userid [(i, cnt)] w"

section \<open>Allocating ids\<close>

text \<open>What the ids rely on: the documented \<open>get\<close> and \<open>set\<close> of single keys.\<close>

locale ssdb_kv =
  fixes N :: "'w net"
    and kv :: "'w \<Rightarrow> string \<rightharpoonup> string"
  assumes get: "exchange N w [''get'', k] = (Some (case kv w k of None \<Rightarrow> [''not_found''] | Some v \<Rightarrow> [''ok'', v]), w)"
    and set: "\<exists>r w'. exchange N w [''set'', k, v] = (Some [''ok'', r], w') \<and> kv w' = (kv w)(k \<mapsto> v)"
begin

lemma Get_run: "Get N k w = Some ((case kv w k of None \<Rightarrow> '''' | Some v \<Rightarrow> v, None), w)"
  using get [of w k] by (cases "kv w k") (simp_all add: Get_def run_simps reply_simps makeError_def)

lemma Set_run: "\<exists>w'. Set N k v [] w = Some (((), None), w') \<and> kv w' = (kv w)(k \<mapsto> etext v)"
  using set [of w k "etext v"] by (auto simp: Set_def run_simps reply_simps)

text \<open>The next free number.\<close>

definition next_id :: "'w \<Rightarrow> nat \<Rightarrow> bool" where
  "next_id w n \<longleftrightarrow> (case kv w KEY_LAST_USER_ID of None \<Rightarrow> n = 60001 | Some t \<Rightarrow> t = fmt_nat n)"

lemma GenerateUserid_run:
  assumes "next_id w n"
  shows "\<exists>w'. GenerateUserid N w = Some ((fmt_nat n, None), w') \<and> next_id w' (Suc n)"
proof -
  have "digit_char 6 = CHR ''6''" "digit_char 0 = CHR ''0''" "digit_char 1 = CHR ''1''" by code_simp+
  then have first: "fmt_nat 60001 = ''60001''" by (simp add: fmt_nat_large)
  let ?v = "case kv w KEY_LAST_USER_ID of None \<Rightarrow> '''' | Some v \<Rightarrow> v"
  have v: "(if ?v = '''' then ''60001'' else ?v) = fmt_nat n"
    using assms first by (auto simp: next_id_def split: option.splits)
  obtain w' where w': "Set N KEY_LAST_USER_ID (GStr (fmt_nat (Suc n))) [] w = Some (((), None), w')"
    "kv w' = (kv w)(KEY_LAST_USER_ID \<mapsto> fmt_nat (Suc n))" using Set_run [of KEY_LAST_USER_ID "GStr (fmt_nat (Suc n))" w] by auto
  have "GenerateUserid N w = Some ((fmt_nat n, None), w')"
    unfolding GenerateUserid_def Get_run Let_def Option.bind.bind_lunit prod.case v StringAdd_fmt w'(1) by simp
  with w'(2) show ?thesis by (simp add: next_id_def)
qed

end

text \<open>A run of allocations, stopping at an error.\<close>

fun generate :: "'w net \<Rightarrow> nat \<Rightarrow> 'w \<Rightarrow> (string list \<times> 'w) option" where
  "generate N 0 w = Some ([], w)"
| "generate N (Suc k) w = do {
     ((userid, err), w) \<leftarrow> GenerateUserid N w;
     (if err \<noteq> None then None else do { (ids, w) \<leftarrow> generate N k w; Some (userid # ids, w) })
   }"

text \<open>
  On a database that keeps its contract, \<open>GenerateUserid\<close> hands out consecutive numbers, the first
  one 60001: no id is ever given twice.
\<close>

theorem GenerateUserid_distinct:
  assumes "ssdb_kv N kv" and "kv w KEY_LAST_USER_ID = None"
  shows "\<exists>w'. generate N k w = Some (map fmt_nat [60001..<60001 + k], w') \<and> distinct (map fmt_nat [60001..<60001 + k])"
proof -
  have "ssdb_kv.next_id kv w n \<Longrightarrow> \<exists>w'. generate N k w = Some (map fmt_nat [n..<n + k], w')" for n
  proof (induction k arbitrary: w n)
    case (Suc k)
    from ssdb_kv.GenerateUserid_run [OF assms(1) Suc.prems] obtain w1 where
      w1: "GenerateUserid N w = Some ((fmt_nat n, None), w1)" "ssdb_kv.next_id kv w1 (Suc n)" by blast
    with Suc.IH [OF w1(2)] show ?case by (auto simp: upt_conv_Cons simp del: upt_Suc)
  qed simp
  moreover have "ssdb_kv.next_id kv w 60001" using assms(2) by (simp add: ssdb_kv.next_id_def [OF assms(1)])
  ultimately show ?thesis by (auto simp: distinct_map inj_on_def)
qed

text \<open>A reference server for single keys.\<close>

definition kv_net :: "(string \<rightharpoonup> string) net" where
  "kv_net = \<lparr>exchange = (\<lambda>m req. case req of
       [c, k] \<Rightarrow> (Some (case m k of None \<Rightarrow> [''not_found''] | Some v \<Rightarrow> [''ok'', v]), m)
     | [c, k, v] \<Rightarrow> (Some [''ok'', ''1''], m(k \<mapsto> v))
     | _ \<Rightarrow> (Some [''client_error''], m)), reopen = (\<lambda>m. m)\<rparr>"

interpretation ref_kv: ssdb_kv kv_net "\<lambda>m. m"
  by unfold_locales (simp_all add: kv_net_def)

lemma GenerateUserid_distinct_witness: "\<exists>w'. generate kv_net 3 Map.empty = Some (map fmt_nat [60001..<60004], w')"
  using GenerateUserid_distinct [OF ref_kv.ssdb_kv_axioms, of Map.empty 3] by auto

section \<open>Changing a count\<close>

lemma user_key_new [simp]: "user_key (new_user userid) = KEY_USER @ userid"
  by (simp add: user_key_def str_field_def new_user_def)

lemma distinct_new_user: "distinct (map fst (new_user userid))"
  by (simp add: new_user_def)

lemma map_of_fields: "map_of (map (\<lambda>(f, x). (f, g f x)) obj) k = map_option (g k) (map_of obj k)"
  by (induction obj) auto

lemma read_u32: "read_field pf (GUint32 b) (fmt_nat (unat a)) = GUint32 a" for a :: u32
  by (simp add: read_field_def same_type_def Conver_def Value_UInt32_def ParseUint_word)

context ssdb_hash
begin

text \<open>A 32-bit field of a player after reading it from the database.\<close>

lemma User_Get_u32:
  fixes a :: u32
  assumes "tab w (KEY_USER @ userid) f = Some (fmt_nat (unat a))" and "map_of (new_user userid) f = Some (GUint32 0)"
  shows "\<exists>u. User_Get pf N (new_user userid) w = ((u, None), w) \<and> u32_field f u = a"
proof -
  from assms(1) have "tab w (KEY_USER @ userid) \<noteq> Map.empty" by auto
  from GetObject_run [OF this, of pf "new_user userid"] obtain ps where
    ps: "GetObject pf N (KEY_USER @ userid) (new_user userid) w = ((foldl (set_field pf) (new_user userid) ps, None), w)"
    "distinct (map fst ps)" "map_of ps = tab w (KEY_USER @ userid)" by blast
  let ?u = "foldl (set_field pf) (new_user userid) ps"
  have "map_of ?u f = Some (GUint32 a)"
    unfolding foldl_set_field [OF ps(2) distinct_new_user] map_of_fields using assms ps(3) by (simp add: read_u32)
  then show ?thesis using ps(1) by (simp add: User_Get_def u32_field_def)
qed

lemma ChangeRes_coin:
  fixes a :: u32
  assumes "tab w (KEY_USER @ userid) ''Coin'' = Some (fmt_nat (unat a))"
  shows "\<exists>w'. ChangeRes vipMap pf N now userid COIN cnt w = Some (None, w') \<and>
    tab w' = (tab w)(KEY_USER @ userid := (tab w (KEY_USER @ userid))(''Coin'' \<mapsto> fmt_int (sint (new_count a cnt))))"
proof -
  from User_Get_u32 [OF assms, of pf] obtain u where
    u: "User_Get pf N (new_user userid) w = ((u, None), w)" "u32_field ''Coin'' u = a" by (auto simp: new_user_def)
  from Hset_run [of "KEY_USER @ userid" "''Coin''" "GInt32 (new_count a cnt)" w] u show ?thesis
    by (auto simp: ChangeRes_def ChangeMulti_def change_one_def Let_def)
qed

end

text \<open>The stored number, without machine arithmetic.\<close>

definition wrapped :: "int \<Rightarrow> int" where
  "wrapped s = (if s < 0 then 0 else if s < 2 ^ 31 then s else if s < 2 ^ 32 then 0 else s - 2 ^ 32)"

lemma wrap32: "- (2 ^ 31) \<le> s \<Longrightarrow> s < 2 ^ 32 + 2 ^ 31 \<Longrightarrow>
    (s + 2 ^ 31) mod 2 ^ 32 - 2 ^ 31 = (if s < 2 ^ 31 then s else s - 2 ^ 32)" for s :: int
  using mod_pos_pos_trivial [of "s + 2 ^ 31" "2 ^ 32"] mod_pos_pos_trivial [of "s + 2 ^ 31 - 2 ^ 32" "2 ^ 32"]
    minus_mod_self2 [of "s + 2 ^ 31" "2 ^ 32"] by auto

lemma sint_new_count: "sint (new_count a b) = wrapped (int (unat a) + sint b)" for a b :: u32
proof -
  define s where "s = int (unat a) + sint b"
  have "0 \<le> int (unat a)" "int (unat a) < 2 ^ 32" using unsigned_less [of a, where ?'a = int] by simp_all
  moreover have "- (2 ^ 31) \<le> sint b" "sint b < 2 ^ 31" using sint_ge [of b] sint_lt [of b] by simp_all
  ultimately have range: "- (2 ^ 31) \<le> s" "s < 2 ^ 32 + 2 ^ 31" unfolding s_def by linarith+
  have "a + b = of_int s" by (simp add: s_def)
  then have "sint (a + b) = (s + 2 ^ 31) mod 2 ^ 32 - 2 ^ 31"
    by (simp only: sint_sbintrunc' signed_take_bit_eq_take_bit_shift take_bit_eq_mod) simp
  then have "sint (a + b) = (if s < 2 ^ 31 then s else s - 2 ^ 32)" by (simp only: wrap32 [OF range])
  then show ?thesis unfolding s_def [symmetric] by (auto simp: new_count_def wrapped_def)
qed

text \<open>
  C39.  \<open>ChangeRes\<close> adds a number of coins in 32-bit arithmetic: as long as the sum is below \<open>2\<^sup>3\<^sup>1\<close> the player
  gets it, cut off at 0; but a sum from \<open>2\<^sup>3\<^sup>1\<close> to \<open>2\<^sup>3\<^sup>2 - 1\<close>, which the field could hold, is stored as 0, and a
  larger one loses \<open>2\<^sup>3\<^sup>2\<close>.
\<close>

theorem ChangeRes_wraps:
  fixes a :: u32
  assumes "ssdb_hash N tab" and "tab w (KEY_USER @ userid) ''Coin'' = Some (fmt_nat (unat a))"
  shows "\<exists>w'. ChangeRes vipMap pf N now userid COIN cnt w = Some (None, w') \<and>
    tab w' (KEY_USER @ userid) ''Coin'' = Some (fmt_int (wrapped (int (unat a) + sint cnt)))"
  using ssdb_hash.ChangeRes_coin [OF assms, of vipMap pf now cnt] by (auto simp: sint_new_count)

lemma ChangeRes_wraps_witness:
  "\<exists>w'. ChangeRes Map.empty (\<lambda>_ s. s) ref_net 100 ''7'' COIN 1
       (put_tab ref_empty (KEY_USER @ ''7'') [(''Coin'', fmt_nat (unat (2147483647 :: u32)))]) = Some (None, w') \<and>
    ref_tab w' (KEY_USER @ ''7'') ''Coin'' = Some (fmt_int 0)"
  using ChangeRes_wraps [OF ref_hashes.ssdb_hash_axioms,
      of "put_tab ref_empty (KEY_USER @ ''7'') [(''Coin'', fmt_nat (unat (2147483647 :: u32)))]" "''7''" 2147483647
         Map.empty "\<lambda>_ s. s" 100 1]
  by (auto simp: ref_tab_def wrapped_def)

section \<open>Passwords\<close>

text \<open>
  Changing a password has no effect on logging in: \<open>UpdatePWD\<close> writes the field \<open>Passwd\<close>, while
  \<open>PWDIsOK\<close> compares with the field \<open>Pwd\<close>, so it answers the same for every password before and after.
\<close>

theorem UpdatePWD_has_no_effect:
  assumes "ssdb_hash N tab"
  shows "\<exists>w'. UpdatePWD md5f N u pwd w = Some (((), None), w') \<and>
    map_option fst (PWDIsOK md5f N u p w') = map_option fst (PWDIsOK md5f N u p w)"
proof -
  from ssdb_hash.Hget_run [OF assms] ssdb_hash.Hset_run [OF assms] obtain w' s where
    w': "UpdatePWD md5f N u pwd w = Some (((), None), w')"
    "tab w' = (tab w)(user_key u := (tab w (user_key u))(''Passwd'' \<mapsto> s))"
    unfolding UpdatePWD_def by fastforce
  have "tab w' (user_key u) ''Pwd'' = tab w (user_key u) ''Pwd''" "tab w' (user_key u) ''Auth'' = tab w (user_key u) ''Auth''"
    by (simp_all add: w'(2))
  with w'(1) show ?thesis
    by (simp add: PWDIsOK_def ssdb_hash.MultiHget_run [OF assms] Let_def)
qed

lemma UpdatePWD_has_no_effect_witness:
  "\<exists>w'. UpdatePWD (\<lambda>s. s) ref_net (new_user ''7'') ''new'' ref_empty = Some (((), None), w') \<and>
    map_option fst (PWDIsOK (\<lambda>s. s) ref_net (new_user ''7'') ''new'' w') =
      map_option fst (PWDIsOK (\<lambda>s. s) ref_net (new_user ''7'') ''new'' ref_empty)"
  by (rule UpdatePWD_has_no_effect [OF ref_hashes.ssdb_hash_axioms])

end
