(* ===== verification/RoleHandlers.thy ===== *)
theory RoleHandlers
  imports PlayerData AdminHandlers Encodings TextRules
begin

text \<open>
  The handlers for players, from \<^verbatim>\<open>src/role\<close>: editing a player, searching one by id or telephone number, and
  the pages of all players and of the players online.  A player is read as an object of the storage model and
  shown as a \<open>user_data\<close>.  \<open>pf\<close> is the parse of a float, \<open>ord\<close> the order in which Go walks through a map with
  the given entries.
\<close>

section \<open>What is shown of a player\<close>

record user_data =
  ud_Userid :: string
  ud_Nickname :: string
  ud_Phone :: string
  ud_Coin :: u32
  ud_Diamond :: u32
  ud_Vip :: u32
  ud_VipExpire :: u32
  ud_Create_ip :: string
  ud_Create_time :: u32
  ud_Sex :: u32
  ud_Ticket :: u32
  ud_Exchange :: u32
  ud_Exp :: u32
  ud_Win :: u32
  ud_Lost :: u32
  ud_Ping :: u32
  ud_Photo :: string
  ud_Address :: string

definition online_data :: "gobject \<Rightarrow> user_data" where
  "online_data v = \<lparr>ud_Userid = str_field ''Userid'' v, ud_Nickname = str_field ''Nickname'' v,
     ud_Phone = str_field ''Phone'' v, ud_Coin = u32_field ''Coin'' v, ud_Diamond = u32_field ''Diamond'' v,
     ud_Vip = u32_field ''Vip'' v, ud_VipExpire = u32_field ''VipExpire'' v,
     ud_Create_ip = ip_String (InetTontoa (u32_field ''Create_ip'' v)), ud_Create_time = u32_field ''Create_time'' v,
     ud_Sex = u32_field ''Sex'' v, ud_Ticket = u32_field ''Ticket'' v, ud_Exchange = u32_field ''Exchange'' v,
     ud_Exp = u32_field ''Exp'' v, ud_Win = u32_field ''Win'' v, ud_Lost = u32_field ''Lost'' v,
     ud_Ping = u32_field ''Ping'' v, ud_Photo = '''', ud_Address = ''''\<rparr>"

definition shown :: "gobject \<Rightarrow> user_data" where
  "shown v = (online_data v)\<lparr>ud_Address := str_field ''Address'' v\<rparr>"

datatype role_reply = NoPlayer | PlayerEdited | NoSearch | Players "user_data list" int

section \<open>Pages\<close>

text \<open>The page number and the page size of a request, as most handlers read them.\<close>

definition page_of :: "request \<Rightarrow> int" where
  "page_of c = (let page = fst (Atoi (form c ''Page'')) in if page < 1 then 1 else page)"

definition pageMax_of :: "request \<Rightarrow> int" where
  "pageMax_of c = (let pageMax = fst (Atoi (form c ''PageMax''))
     in if pageMax < 30 then 30 else if pageMax > 200 then 200 else pageMax)"

section \<open>Editing\<close>

definition OPERATE_KIND_WIDGET_MODIFY :: u32 where "OPERATE_KIND_WIDGET_MODIFY = 4"
definition OPERATE_KIND_PLAYER_MODIFY :: u32 where "OPERATE_KIND_PLAYER_MODIFY = 5"
definition OPERATE_KIND_SEND_MAIL :: u32 where "OPERATE_KIND_SEND_MAIL = 9"

definition role_Edit ::
  "(nat \<Rightarrow> string \<Rightarrow> string) \<Rightarrow> ((string \<times> gval) list \<Rightarrow> (string \<times> gval) list) \<Rightarrow> 'w env \<Rightarrow> int \<Rightarrow> request \<Rightarrow> 'w app \<Rightarrow>
     (role_reply \<times> 'w app) option" where
  "role_Edit pf ord E now c s = do {
     let userid = form c ''Userid'';
     let nickname = form c ''Nickname'';
     let sex = form c ''Sex'';
     let pwd = form c ''Password'';
     let ((user, err), w) = User_Get pf (net E) (new_user userid) (db s);
     let s = s\<lparr>db := w\<rparr>;
     (if err \<noteq> None then Some (NoPlayer, s)
      else do {
        let r = (\<lambda>s. op_record now c s OPERATE_KIND_PLAYER_MODIFY userid);
        (m, s) \<leftarrow> change E now (nickname \<noteq> '''')
          (\<lambda>s. (r s)\<lparr>pre := str_field ''Nickname'' user, after := nickname, rdesc := of_runes [0x6635, 0x79F0]\<rparr>)
          (\<lambda>m. m @ [(''Nickname'', GStr nickname)]) ([], s);
        let sx = fst (Atoi sex);
        (m, s) \<leftarrow> change E now (of_int sx \<noteq> u32_field ''Sex'' user)
          (\<lambda>s. (r s)\<lparr>pre := fmt_nat (unat (u32_field ''Sex'' user)), after := sex, rdesc := of_runes [0x6027, 0x522B]\<rparr>)
          (\<lambda>m. m @ [(''Sex'', GInt (of_int sx))]) (m, s);
        s \<leftarrow> (if pwd \<noteq> '''' \<and> pwd = form c ''Password1'' then do {
                (_, w) \<leftarrow> UpdatePWD (md5 E) (net E) user pwd (db s);
                let s = s\<lparr>db := w\<rparr>;
                log_op E now ((r s)\<lparr>rdesc := of_runes [0x5BC6, 0x7801]\<rparr>) s
              } else Some s);
        (_, w) \<leftarrow> MultiHsetSave (net E) user (ord m) (db s);
        Some (PlayerEdited, s\<lparr>db := w\<rparr>)
      })
   }"

section \<open>Searching\<close>

definition KEY_PHONE_INDEX :: string where "KEY_PHONE_INDEX = ''phoneindex''"
definition KEY_ONLINE :: string where "KEY_ONLINE = ''online''"

definition role_Search ::
  "(nat \<Rightarrow> string \<Rightarrow> string) \<Rightarrow> 'w env \<Rightarrow> int \<Rightarrow> request \<Rightarrow> 'w app \<Rightarrow> (role_reply \<times> 'w app) option" where
  "role_Search pf E now c s = do {
     let searchType = form c ''SelectedIDSearch'';
     let searchValue = form c ''SearchUserid'';
     (if searchValue \<noteq> '''' then do {
        (ids, w) \<leftarrow>
          (if searchType = ''1'' then Some ([searchValue], db s)
           else if searchType = ''2'' \<and> PhoneRegexp searchValue then do {
             ((value, err), w) \<leftarrow> Hget (net E) KEY_PHONE_INDEX searchValue (db s);
             Some (if err = None \<and> length value > 0 then [value] else [], w)
           } else Some ([], db s));
        let (lists, w) = GetMultiUser pf (net E) ids w;
        Some (Players (map shown lists) (int (length ids)), s\<lparr>db := w\<rparr>)
      } else Some (NoSearch, s))
   }"

section \<open>All players\<close>

text \<open>The loop \<open>for i = end; i > start; i--\<close> over \<open>uint64\<close>, which collects the ids of a page.\<close>

function ids_down :: "u64 \<Rightarrow> u64 \<Rightarrow> string list" where
  "ids_down i start = (if i > start then fmt_nat (unat i) # ids_down (i - 1) start else [])"
  by pat_completeness auto
termination
proof (relation "measure (unat \<circ> fst)", goal_cases)
  case (2 i start)
  then have "i \<noteq> 0" by auto
  with unat_minus_one [OF this] show ?case by (simp add: unat_gt_0)
qed simp

declare ids_down.simps [simp del]

definition role_List ::
  "(nat \<Rightarrow> string \<Rightarrow> string) \<Rightarrow> 'w env \<Rightarrow> int \<Rightarrow> request \<Rightarrow> 'w app \<Rightarrow> (role_reply \<times> 'w app) option" where
  "role_List pf E now c s = do {
     let page = page_of c;
     let pageMax = pageMax_of c;
     ((lastID, err), w) \<leftarrow> Get (net E) KEY_LAST_USER_ID (db s);
     let s = s\<lparr>db := w\<rparr>;
     (if err \<noteq> None then Some (Players [] 0, s)
      else do {
        let idnum = (of_nat (fst (ParseUint 64 lastID)) :: u64);
        let idnum = (if idnum > 0 then idnum - 1 else idnum);
        (if idnum > 60000 then do {
           let count = idnum - 60000;
           let ids = ids_down (idnum - of_int (pageMax * (page - 1))) (idnum - of_int (pageMax * page));
           let (lists, w) = GetMultiUser pf (net E) ids (db s);
           Some (Players (map shown lists) (uint count), s\<lparr>db := w\<rparr>)
         } else Some (Players [] 0, s))
      })
   }"

section \<open>Players online\<close>

text \<open>The entries of a page; an index past the end is skipped, a negative one panics.\<close>

fun page_ids :: "int list \<Rightarrow> val list \<Rightarrow> string list option" where
  "page_ids [] list = Some []"
| "page_ids (index # is) list =
     (if index < int (length list)
      then do { v \<leftarrow> go_nth list index; r \<leftarrow> page_ids is list; Some (v # r) }
      else page_ids is list)"

definition role_ListOnline ::
  "(nat \<Rightarrow> string \<Rightarrow> string) \<Rightarrow> 'w env \<Rightarrow> int \<Rightarrow> request \<Rightarrow> 'w app \<Rightarrow> (role_reply \<times> 'w app) option" where
  "role_ListOnline pf E now c s = do {
     let page = page_of c;
     let pageMax = pageMax_of c;
     ((count, err), w) \<leftarrow> Hsize (net E) KEY_ONLINE (db s);
     let s = s\<lparr>db := w\<rparr>;
     (if err \<noteq> None then Some (Players [] count, s)
      else do {
        ((list, err), w) \<leftarrow> Hkeys (net E) KEY_ONLINE '''' '''' 5000 (db s);
        let s = s\<lparr>db := w\<rparr>;
        (if err \<noteq> None then Some (Players [] count, s)
         else do {
           ids \<leftarrow> page_ids (map (\<lambda>i. add64 ((page - 1) * pageMax) i) [0..pageMax - 1]) list;
           let (lists, w) = GetMultiUser pf (net E) ids (db s);
           Some (Players (map online_data lists) count, s\<lparr>db := w\<rparr>)
         })
      })
   }"

section \<open>Reading the players of a page\<close>

text \<open>A player as it is read from the hash map \<open>t\<close>.\<close>

definition player :: "(nat \<Rightarrow> string \<Rightarrow> string) \<Rightarrow> (string \<rightharpoonup> string) \<Rightarrow> string \<Rightarrow> gobject" where
  "player pf t userid =
     map (\<lambda>(f, x). (f, case t f of None \<Rightarrow> x | Some v \<Rightarrow> read_field pf x v)) (new_user userid)"

definition players :: "(nat \<Rightarrow> string \<Rightarrow> string) \<Rightarrow> (string \<Rightarrow> string \<rightharpoonup> string) \<Rightarrow> string list \<Rightarrow> gobject list" where
  "players pf t ids = [player pf (t (KEY_USER @ i)) i. i \<leftarrow> ids, t (KEY_USER @ i) \<noteq> Map.empty]"

lemma players_simps [simp]:
  "players pf t [] = []"
  "players pf t (i # ids) = (if t (KEY_USER @ i) = Map.empty then [] else [player pf (t (KEY_USER @ i)) i]) @ players pf t ids"
  by (simp_all add: players_def)

lemma players_filter: "players pf t (map fmt_nat ns) =
    map (\<lambda>n. player pf (t (KEY_USER @ fmt_nat n)) (fmt_nat n)) (filter (\<lambda>n. t (KEY_USER @ fmt_nat n) \<noteq> Map.empty) ns)"
  by (induction ns) auto

context ssdb_hash
begin

lemma User_Get_player:
  "User_Get pf N (new_user i) w =
     (if tab w (KEY_USER @ i) = Map.empty then ((new_user i, Some (EDo ''MultiHget'')), w)
      else ((player pf (tab w (KEY_USER @ i)) i, None), w))"
proof (cases "tab w (KEY_USER @ i) = Map.empty")
  case True
  with hgetall [of w "KEY_USER @ i"] obtain ps where
    "exchange N w [''hgetall'', KEY_USER @ i] = (Some (''ok'' # flat ps), w)" "map_of ps = Map.empty" by auto
  with True show ?thesis by (simp add: User_Get_def GetObject_def run_simps)
next
  case False
  from GetObject_run [OF this, of pf "new_user i"] obtain ps where
    "GetObject pf N (KEY_USER @ i) (new_user i) w = ((foldl (set_field pf) (new_user i) ps, None), w)"
    "distinct (map fst ps)" "map_of ps = tab w (KEY_USER @ i)" by blast
  with False show ?thesis
    by (simp add: User_Get_def foldl_set_field [OF _ distinct_new_user] player_def)
qed

lemma GetMultiUser_run: "GetMultiUser pf N ids w = (players pf (tab w) ids, w)"
  by (induction ids) (simp_all add: User_Get_player)

end

section \<open>Pages of ids\<close>

lemma ids_down_eq: "ids_down i start = map fmt_nat (rev [Suc (unat start)..<Suc (unat i)])"
proof (induction i start rule: ids_down.induct)
  case (1 i start)
  show ?case
  proof (cases "start < i")
    case True
    then have i: "i \<noteq> 0" "unat start < unat i" by (auto simp: word_less_nat_alt)
    then have "Suc (unat (i - 1)) = unat i" using unat_minus_one [OF i(1)] by simp
    then show ?thesis using True i(2) 1 by (subst ids_down.simps) simp
  next
    case False
    then show ?thesis by (subst ids_down.simps) (simp add: word_less_nat_alt)
  qed
qed

lemma page_rev_upt: "take m (drop a (rev [l..<l + k])) = rev [l + (k - a - m)..<l + (k - a)]"
  by (simp add: drop_rev take_rev take_upt drop_upt add.commute)

lemma filter_rev_upt_cong:
  assumes "\<And>i. P i \<Longrightarrow> (a \<le> i \<and> i < b) = (c \<le> i \<and> i < d)"
  shows "filter P (rev [a..<b]) = filter P (rev [c..<d])"
proof -
  have "filter P [a..<b] = filter P [c..<d]"
    using assms by (intro sorted_distinct_set_unique) (auto simp: sorted_wrt_filter)
  then show ?thesis by (simp add: rev_filter [symmetric])
qed

lemma page_clamps: "1 \<le> page_of c" "30 \<le> pageMax_of c" "pageMax_of c \<le> 200"
  by (auto simp: page_of_def pageMax_of_def Let_def)

lemma unat_of_nat_u64: "n < 2 ^ 63 \<Longrightarrow> unat (of_nat n :: u64) = n"
  by (simp add: unat_of_nat take_bit_eq_mod)

lemma unat_numeral_u64: "unat (60000 :: u64) = 60000"
  by simp

lemma unat_diff_u64:
  assumes "a < 2 ^ 63" and "b < 2 ^ 63"
  shows "unat (of_nat a - of_nat b :: u64) = (if b \<le> a then a - b else a + 2 ^ 64 - b)"
proof -
  have "unat (of_nat a :: u64) = a" "unat (of_nat b :: u64) = b" using assms by (simp_all add: unat_of_nat_u64)
  then show ?thesis by (simp add: unat_sub_if')
qed

text \<open>The ids a page asks for, and those among them that were ever given out.\<close>

lemma page_ids_down:
  assumes "\<And>i. P i \<Longrightarrow> 60001 \<le> i \<and> i < 60001 + k" and "k < 2 ^ 62" and "m \<le> 200" and "m * Suc p < 2 ^ 63"
  shows "filter P (rev [Suc (unat (of_nat (60000 + k) - of_nat (m * Suc p) :: u64))..<
                        Suc (unat (of_nat (60000 + k) - of_nat (m * p) :: u64))]) =
         filter P (take m (drop (m * p) (rev [60001..<60001 + k])))"
proof -
  have b: "60000 + k < 2 ^ 63" "m * p < 2 ^ 63" using assms(2,4) by simp_all
  show ?thesis
    unfolding unat_diff_u64 [OF b(1) assms(4)] unat_diff_u64 [OF b] page_rev_upt
    using assms by (intro filter_rev_upt_cong) (auto dest!: assms(1) split: if_splits)
qed

context ssdb_hash
begin

lemma role_List_run:
  assumes get: "Get N KEY_LAST_USER_ID w = Some ((t, None), w)" and t: "t = '''' \<and> k = 0 \<or> t = fmt_nat (60001 + k)"
    and k: "k < 2 ^ 62" and p: "page_of c \<le> 2 ^ 55"
    and only: "\<And>i. tab w (KEY_USER @ fmt_nat i) \<noteq> Map.empty \<Longrightarrow> 60001 \<le> i \<and> i < 60001 + k"
    and E: "net E = N" and s: "db s = w"
  shows "role_List pf E now c s = Some (Players (map shown (players pf (tab w)
      (map fmt_nat (take (nat (pageMax_of c)) (drop (nat (pageMax_of c * (page_of c - 1))) (rev [60001..<60001 + k])))))) (int k), s)"
proof -
  have same: "s\<lparr>db := w\<rparr> = s" using s by simp
  show ?thesis
  proof (cases "k = 0")
    case True
    have "ParseUint 64 (fmt_nat 60001) = (60001, True)" by (rule ParseUint_fmt) simp
    with t True have "fst (ParseUint 64 t) = 0 \<or> fst (ParseUint 64 t) = 60001" by (auto simp: ParseUint_def)
    then show ?thesis using True by (auto simp: role_List_def E s get same Let_def)
  next
    case False
    define m p' where "m = nat (pageMax_of c)" and "p' = nat (page_of c - 1)"
    then have m: "pageMax_of c = int m" "m \<le> 200" and p': "page_of c = int (Suc p')"
      using page_clamps [of c] by simp_all
    have "Suc p' \<le> 2 ^ 55" using p p' by simp
    then have "m * Suc p' \<le> 200 * 2 ^ 55" using m(2) by (intro mult_le_mono)
    then have mp: "m * Suc p' < 2 ^ 63" by simp
    have idn: "(of_nat (60001 + k) :: u64) - 1 = of_nat (60000 + k)" by simp
    have "(of_nat (60000 + k) :: u64) - 60000 = of_nat k" by simp
    then have big: "(of_nat (60001 + k) :: u64) > 0" "(of_nat (60000 + k) :: u64) > 60000"
      "uint (of_nat (60000 + k) - 60000 :: u64) = int k"
      using k False by (simp_all only: word_less_nat_alt unat_0 unat_numeral_u64 uint_nat) (simp_all add: unat_of_nat_u64 del: of_nat_add)
    have parse: "fst (ParseUint 64 t) = 60001 + k" using t k False ParseUint_fmt [of "60001 + k" 64] by simp
    have prod: "(of_int (pageMax_of c * (page_of c - 1)) :: u64) = of_nat (m * p')"
      "(of_int (pageMax_of c * page_of c) :: u64) = of_nat (m * Suc p')"
      "nat (pageMax_of c * (page_of c - 1)) = m * p'" "nat (pageMax_of c) = m"
      unfolding m p' by (simp_all add: nat_mult_distrib algebra_simps)
    have "players pf (tab w) (ids_down (of_nat (60000 + k) - of_nat (m * p')) (of_nat (60000 + k) - of_nat (m * Suc p'))) =
        players pf (tab w) (map fmt_nat (take m (drop (m * p') (rev [60001..<60001 + k]))))"
      unfolding ids_down_eq players_filter
      by (subst page_ids_down [OF only k m(2) mp]) simp_all
    then show ?thesis
      unfolding role_List_def Let_def E s get prod
      using big by (simp add: parse idn same GetMultiUser_run del: of_nat_add of_nat_Suc)
  qed
qed

end

text \<open>
  C32.  The page of all players.  Let \<open>k < 2 ^ 62\<close> ids have been given out from 60001 on, let players be stored only under ids
  that were given out, and let the page be at most \<open>2 ^ 55\<close>.  Then \<open>List\<close> shows, newest first, the stored players among the
  \<open>pageMax\<close> ids that page \<open>page\<close> of the descending list of ids holds, and as the total it reports \<open>k\<close>, the number of ids that
  were ever given out, also when fewer players are stored.  The page size is between 30 and 200, and pages past the end, where the
  \<open>uint64\<close> bounds wrap around, show nothing.
\<close>

theorem role_List_pages:
  assumes "ssdb_hash (net E) tab" and "ssdb_kv (net E) kv"
    and "case kv (db s) KEY_LAST_USER_ID of None \<Rightarrow> k = 0 | Some t \<Rightarrow> t = fmt_nat (60001 + k)"
    and "\<And>i. tab (db s) (KEY_USER @ fmt_nat i) \<noteq> Map.empty \<Longrightarrow> 60001 \<le> i \<and> i < 60001 + k"
    and "k < 2 ^ 62" and "page_of c \<le> 2 ^ 55"
  shows "30 \<le> pageMax_of c \<and> pageMax_of c \<le> 200 \<and>
    role_List pf E now c s = Some (Players (map shown (players pf (tab (db s)) (map fmt_nat
      (take (nat (pageMax_of c)) (drop (nat (pageMax_of c * (page_of c - 1))) (rev [60001..<60001 + k])))))) (int k), s)"
proof -
  let ?t = "case kv (db s) KEY_LAST_USER_ID of None \<Rightarrow> '''' | Some v \<Rightarrow> v"
  have "Get (net E) KEY_LAST_USER_ID (db s) = Some ((?t, None), db s)" by (rule ssdb_kv.Get_run [OF assms(2)])
  moreover have "?t = '''' \<and> k = 0 \<or> ?t = fmt_nat (60001 + k)" using assms(3) by (auto split: option.splits)
  ultimately show ?thesis
    using ssdb_hash.role_List_run [OF assms(1) _ _ assms(5,6,4) refl refl] page_clamps [of c] by blast
qed

text \<open>A reference server for single keys and the rest.\<close>

definition full_net :: "(rdb \<times> (string \<rightharpoonup> string)) net" where
  "full_net = \<lparr>exchange = (\<lambda>(w, m) req.
       if req \<noteq> [] \<and> hd req \<in> {''get'', ''set''} then (case exchange kv_net m req of (r, m) \<Rightarrow> (r, (w, m)))
       else (case exchange ref_net w req of (r, w) \<Rightarrow> (r, (w, m)))), reopen = (\<lambda>w. w)\<rparr>"

interpretation full_kv: ssdb_kv full_net snd
  by unfold_locales (auto simp: full_net_def kv_net_def)

lemma full_exchange: "c \<notin> {''get'', ''set''} \<Longrightarrow> exchange full_net w (c # args) =
    (case exchange ref_net (fst w) (c # args) of (r, w') \<Rightarrow> (r, (w', snd w)))"
  by (cases w) (simp add: full_net_def)

interpretation full_hash: ssdb_hash full_net "\<lambda>w. ref_tab (fst w)"
proof (unfold_locales, goal_cases)
  case (1 w n k v) show ?case using ref_hashes.hset [of "fst w" n k v] by (auto simp: full_exchange)
next
  case (2 w n k) show ?case using ref_hashes.hget [of "fst w" n k] by (auto simp: full_exchange)
next
  case (3 w n k) show ?case using ref_hashes.hdel [of "fst w" n k] by (auto simp: full_exchange)
next
  case (4 w n k) show ?case using ref_hashes.hexists [of "fst w" n k] by (auto simp: full_exchange)
next
  case (5 w n) show ?case using ref_hashes.hsize [of "fst w" n] by (auto simp: full_exchange)
next
  case (6 w n) show ?case using ref_hashes.hclear [of "fst w" n] by (auto simp: full_exchange)
next
  case (7 w n) show ?case using ref_hashes.hgetall [of "fst w" n] by (auto simp: full_exchange)
next
  case (8 ps w n) then show ?case using ref_hashes.multi_hset [of ps "fst w" n] by (auto simp: full_exchange)
next
  case (9 ks w n) then show ?case using ref_hashes.multi_hget [of ks "fst w" n] by (auto simp: full_exchange)
next
  case (10 ks w n) then show ?case using ref_hashes.multi_hdel [of ks "fst w" n] by (auto simp: full_exchange)
qed

definition full_env :: "(rdb \<times> (string \<rightharpoonup> string)) env" where
  "full_env = \<lparr>net = full_net, md5 = (\<lambda>s. s), jgroup = \<lparr>enc = (\<lambda>_. ''''), dec = (\<lambda>s x. (x, False))\<rparr>,
     jadmin = \<lparr>enc = (\<lambda>_. ''''), dec = (\<lambda>s x. (x, False))\<rparr>, jrecord = \<lparr>enc = (\<lambda>_. ''''), dec = (\<lambda>s x. (x, False))\<rparr>,
     jlimit = \<lparr>enc = (\<lambda>_. ''''), dec = (\<lambda>s x. (x, False))\<rparr>, iter = (\<lambda>m. []), iter_limits = (\<lambda>m. [])\<rparr>"

definition ref_request :: request where
  "ref_request = \<lparr>form = (\<lambda>_. ''''), realIP = ''1.2.3.4'', login_cookie = None\<rparr>"

definition ref_players :: "(rdb \<times> (string \<rightharpoonup> string)) app" where
  "ref_players = \<lparr>sess = Map.empty, lims = Map.empty,
     db = (put_tab ref_empty (KEY_USER @ fmt_nat 60001) [(''Nickname'', ''bob'')], [KEY_LAST_USER_ID \<mapsto> fmt_nat 60003])\<rparr>"

lemma role_List_pages_witness:
  "\<exists>u. role_List (\<lambda>_ s. s) full_env 0 ref_request ref_players = Some (Players [u] 2, ref_players) \<and> ud_Nickname u = ''bob''"
proof -
  let ?t = "ref_tab (fst (db ref_players))"
  have at: "?t (KEY_USER @ fmt_nat i) = (if i = 60001 then [''Nickname'' \<mapsto> ''bob''] else Map.empty)" for i
    by (auto simp: ref_players_def ref_tab_def ref_empty_def)
  have c: "page_of ref_request = 1" "pageMax_of ref_request = 30"
    by (simp_all add: page_of_def pageMax_of_def ref_request_def Atoi_def ParseInt_def)
  have ids: "take 30 (drop 0 (rev [60001..<60001 + 2])) = [60002, 60001 :: nat]" by (simp add: upt_rec)
  have two: "\<And>i. ?t (KEY_USER @ fmt_nat i) \<noteq> Map.empty \<Longrightarrow> 60001 \<le> i \<and> i < 60001 + 2" by (simp add: at split: if_splits)
  have E: "net full_env = full_net" by (simp add: full_env_def)
  have "case snd (db ref_players) KEY_LAST_USER_ID of None \<Rightarrow> (2 :: nat) = 0 | Some t \<Rightarrow> t = fmt_nat (60001 + 2)"
    by (simp add: ref_players_def)
  from role_List_pages [where E = full_env and pf = "\<lambda>_ s. s" and now = 0, unfolded E, OF full_hash.ssdb_hash_axioms
      full_kv.ssdb_kv_axioms this two, of ref_request]
  have "role_List (\<lambda>_ s. s) full_env 0 ref_request ref_players =
      Some (Players [shown (player (\<lambda>_ s. s) [''Nickname'' \<mapsto> ''bob''] (fmt_nat 60001))] 2, ref_players)"
    by (simp add: c ids [simplified] at)
  then show ?thesis
    by (auto simp: shown_def online_data_def str_field_def player_def new_user_def read_field_def same_type_def Conver_def)
qed

end
