(* ===== verification/GameRecords.thy ===== *)
theory GameRecords
  imports RoleHandlers
begin

text \<open>
  The records of played games, payments and spent resources, and the handlers that page through them:
  \<^verbatim>\<open>src/data/game_record.go\<close>, \<^verbatim>\<open>src/data/data_ipay.go\<close> and \<^verbatim>\<open>record.go\<close>, \<^verbatim>\<open>charge.go\<close>, \<^verbatim>\<open>consume.go\<close> and
  \<^verbatim>\<open>roomrecord.go\<close> of \<^verbatim>\<open>src/operation\<close>.  A game is stored for every player at the table, in a hash map
  under its time, and the times are kept in a list, newest first.  The JSON text of each structure is a
  codec; an amount of money is a value of a type \<open>'f\<close> of floating-point numbers.
\<close>

section \<open>Structures\<close>

record game_record =
  gr_Userid :: string
  gr_Zhuang :: u32
  gr_Seat :: u32
  gr_Paoseat :: u32
  gr_Ante :: u32
  gr_Ji :: u8
  gr_HeroJi :: u32
  gr_HuCard :: u8
  gr_Handcard :: "u8 list"
  gr_Peng :: "u32 list"
  gr_Kong :: "u32 list"
  gr_Otherids :: "string list"
  gr_Rtype :: u32
  gr_Coin :: "32 word"
  gr_Tingvalue :: u32
  gr_Hutype :: u32
  gr_Huvalue :: u32
  gr_Create_time :: u32
  gr_OutCards :: "u8 list"
  gr_CardRecord :: string
  gr_StartHandCard :: "u8 list"

record game_record_match =
  gm_Userid :: string
  gm_Zhuang :: u32
  gm_Seat :: u32
  gm_Paoseat :: u32
  gm_Ante :: u32
  gm_Ji :: u8
  gm_HeroJi :: u32
  gm_HuCard :: u8
  gm_Handcard :: "u8 list"
  gm_Peng :: "u32 list"
  gm_Kong :: "u32 list"
  gm_Otherids :: "string list"
  gm_Rtype :: u32
  gm_Score :: "32 word"
  gm_Tingvalue :: u32
  gm_Hutype :: u32
  gm_Huvalue :: u32
  gm_Create_time :: u32
  gm_OutCards :: "u8 list"
  gm_CardRecord :: string
  gm_StartHandCard :: "u8 list"

record game_record_private =
  gp_Userid :: string
  gp_Zhuang :: u32
  gp_Seat :: u32
  gp_Paoseat :: u32
  gp_Ante :: u32
  gp_Ji :: u8
  gp_HeroJi :: u32
  gp_HuCard :: u8
  gp_Handcard :: "u8 list"
  gp_Peng :: "u32 list"
  gp_Kong :: "u32 list"
  gp_Otherids :: "string list"
  gp_Rtype :: u32
  gp_Score :: "32 word"
  gp_Tingvalue :: u32
  gp_Hutype :: u32
  gp_Huvalue :: u32
  gp_OutCards :: "u8 list"
  gp_CardRecord :: string
  gp_StartHandCard :: "u8 list"
  gp_Create_userid :: string
  gp_CTime :: u32
  gp_Invitecode :: string
  gp_Expire :: u32
  gp_Payment :: u32
  gp_Updownji :: u32
  gp_Rname :: string
  gp_Round :: u32
  gp_RoundTotal :: u32
  gp_Create_time :: u32

definition empty_game :: game_record where
  "empty_game = \<lparr>gr_Userid = '''', gr_Zhuang = 0, gr_Seat = 0, gr_Paoseat = 0, gr_Ante = 0, gr_Ji = 0, gr_HeroJi = 0,
     gr_HuCard = 0, gr_Handcard = [], gr_Peng = [], gr_Kong = [], gr_Otherids = [], gr_Rtype = 0, gr_Coin = 0,
     gr_Tingvalue = 0, gr_Hutype = 0, gr_Huvalue = 0, gr_Create_time = 0, gr_OutCards = [], gr_CardRecord = '''',
     gr_StartHandCard = []\<rparr>"

definition empty_match :: game_record_match where
  "empty_match = \<lparr>gm_Userid = '''', gm_Zhuang = 0, gm_Seat = 0, gm_Paoseat = 0, gm_Ante = 0, gm_Ji = 0, gm_HeroJi = 0,
     gm_HuCard = 0, gm_Handcard = [], gm_Peng = [], gm_Kong = [], gm_Otherids = [], gm_Rtype = 0, gm_Score = 0,
     gm_Tingvalue = 0, gm_Hutype = 0, gm_Huvalue = 0, gm_Create_time = 0, gm_OutCards = [], gm_CardRecord = '''',
     gm_StartHandCard = []\<rparr>"

definition empty_private :: game_record_private where
  "empty_private = \<lparr>gp_Userid = '''', gp_Zhuang = 0, gp_Seat = 0, gp_Paoseat = 0, gp_Ante = 0, gp_Ji = 0, gp_HeroJi = 0,
     gp_HuCard = 0, gp_Handcard = [], gp_Peng = [], gp_Kong = [], gp_Otherids = [], gp_Rtype = 0, gp_Score = 0,
     gp_Tingvalue = 0, gp_Hutype = 0, gp_Huvalue = 0, gp_OutCards = [], gp_CardRecord = '''', gp_StartHandCard = [],
     gp_Create_userid = '''', gp_CTime = 0, gp_Invitecode = '''', gp_Expire = 0, gp_Payment = 0, gp_Updownji = 0,
     gp_Rname = '''', gp_Round = 0, gp_RoundTotal = 0, gp_Create_time = 0\<rparr>"

definition KEY_GAME_RECORD :: string where "KEY_GAME_RECORD = ''gamerecord:''"
definition KEY_GAME_RECORD_QUEUE :: string where "KEY_GAME_RECORD_QUEUE = ''gamerecord_queue:''"
definition KEY_PRIVATE_GAME_RECORD :: string where "KEY_PRIVATE_GAME_RECORD = ''private_gamerecord:''"
definition KEY_PRIVATE_GAME_RECORD_QUEUE :: string where "KEY_PRIVATE_GAME_RECORD_QUEUE = ''private_gamerecord_queue:''"
definition KEY_MATCH_GAME_RECORD :: string where "KEY_MATCH_GAME_RECORD = ''match_gamerecord:''"
definition KEY_MATCH_GAME_RECORD_QUEUE :: string where "KEY_MATCH_GAME_RECORD_QUEUE = ''match_gamerecord_queue:''"
definition KEY_CARD_RECORD :: string where "KEY_CARD_RECORD = ''card_record''"

section \<open>Saving\<close>

text \<open>The body the three \<open>Save\<close> methods share: the record under its time, then the time in front of the list.\<close>

definition save_game ::
  "'w net \<Rightarrow> 'a codec \<Rightarrow> string \<Rightarrow> string \<Rightarrow> string \<Rightarrow> u32 \<Rightarrow> 'a \<Rightarrow> 'w \<Rightarrow> (error option \<times> 'w) option" where
  "save_game N J key que userid ctime r w = do {
     ((_, err), w) \<leftarrow> Hset N (key @ userid) (fmt_nat (unat ctime)) (json_val J r) w;
     (if err \<noteq> None then Some (err, w)
      else do {
        ((_, err), w) \<leftarrow> Qpush_front N (que @ userid) [GUint32 ctime] w;
        Some (err, w)
      })
   }"

definition GameRecord_Save :: "'w net \<Rightarrow> game_record codec \<Rightarrow> game_record \<Rightarrow> 'w \<Rightarrow> (error option \<times> 'w) option" where
  "GameRecord_Save N J r = save_game N J KEY_GAME_RECORD KEY_GAME_RECORD_QUEUE (gr_Userid r) (gr_Create_time r) r"

definition GameRecordMatch_Save :: "'w net \<Rightarrow> game_record_match codec \<Rightarrow> game_record_match \<Rightarrow> 'w \<Rightarrow> (error option \<times> 'w) option" where
  "GameRecordMatch_Save N J r =
     save_game N J KEY_MATCH_GAME_RECORD KEY_MATCH_GAME_RECORD_QUEUE (gm_Userid r) (gm_Create_time r) r"

definition GameRecordPrivate_Save :: "'w net \<Rightarrow> game_record_private codec \<Rightarrow> game_record_private \<Rightarrow> 'w \<Rightarrow> (error option \<times> 'w) option" where
  "GameRecordPrivate_Save N J r =
     save_game N J KEY_PRIVATE_GAME_RECORD KEY_PRIVATE_GAME_RECORD_QUEUE (gp_Userid r) (gp_Create_time r) r"

section \<open>Reading\<close>

text \<open>The loop that reads the entry \<open>at v\<close> of every \<open>v\<close> and keeps what can be read.\<close>

fun read_games :: "'w net \<Rightarrow> 'a codec \<Rightarrow> 'a \<Rightarrow> ('b \<Rightarrow> string \<times> string) \<Rightarrow> 'b list \<Rightarrow> 'w \<Rightarrow> ('a list \<times> 'w) option" where
  "read_games N J z at [] w = Some ([], w)"
| "read_games N J z at (v # vs) w = do {
     ((value, err), w) \<leftarrow> Hget N (fst (at v)) (snd (at v)) w;
     (rs, w) \<leftarrow> read_games N J z at vs w;
     Some ((if err \<noteq> None then [] else keep_json J z [value]) @ rs, w)
   }"

text \<open>The records of a game at the other seats of the table.\<close>

definition desk_games ::
  "'w net \<Rightarrow> 'a codec \<Rightarrow> 'a \<Rightarrow> ('a \<Rightarrow> string list) \<Rightarrow> string \<Rightarrow> string \<Rightarrow> string \<Rightarrow> 'w \<Rightarrow> (('a list \<times> error option) \<times> 'w) option" where
  "desk_games N J z others key userid createTime w = do {
     ((value, err), w) \<leftarrow> Hget N (key @ userid) createTime w;
     (if err \<noteq> None then Some (([], err), w)
      else do {
        let record = fst (as_json J value z);
        (list, w) \<leftarrow> read_games N J z (\<lambda>v. (key @ v, createTime)) (others record) w;
        Some ((list, None), w)
      })
   }"

text \<open>A page of the records of a player, and how many there are.\<close>

definition page_games ::
  "'w net \<Rightarrow> 'a codec \<Rightarrow> 'a \<Rightarrow> string \<Rightarrow> string \<Rightarrow> string \<Rightarrow> int \<Rightarrow> int \<Rightarrow> 'w \<Rightarrow> (('a list \<times> int \<times> error option) \<times> 'w) option" where
  "page_games N J z key que userid offset limit w = do {
     ((size, err), w) \<leftarrow> Qsize N (que @ userid) w;
     (if err \<noteq> None then Some (([], size, err), w)
      else do {
        ((rang, err), w) \<leftarrow> Qrange N (que @ userid) (of_int offset) (of_int limit) w;
        (if err \<noteq> None then Some (([], size, err), w)
         else do {
           (list, w) \<leftarrow> read_games N J z (\<lambda>v. (key @ userid, v)) rang w;
           Some ((list, size, None), w)
         })
      })
   }"

definition GetDestopRecord where
  "GetDestopRecord N J = desk_games N J empty_game gr_Otherids KEY_GAME_RECORD"

definition GetPrivateDestopRecord where
  "GetPrivateDestopRecord N J = desk_games N J empty_private gp_Otherids KEY_PRIVATE_GAME_RECORD"

definition GetMatchDestopRecord where
  "GetMatchDestopRecord N J = desk_games N J empty_match gm_Otherids KEY_MATCH_GAME_RECORD"

definition GetNormalRecord where
  "GetNormalRecord N J = page_games N J empty_game KEY_GAME_RECORD KEY_GAME_RECORD_QUEUE"

definition GetPrivateRecord where
  "GetPrivateRecord N J = page_games N J empty_private KEY_PRIVATE_GAME_RECORD KEY_PRIVATE_GAME_RECORD_QUEUE"

definition GetMatchRecord where
  "GetMatchRecord N J = page_games N J empty_match KEY_MATCH_GAME_RECORD KEY_MATCH_GAME_RECORD_QUEUE"

section \<open>Handlers\<close>

text \<open>A reply with a list and a count.\<close>

datatype 'a listing = Listing "'a list" int | NoListing

definition record_page ::
  "(string \<Rightarrow> int \<Rightarrow> int \<Rightarrow> 'w \<Rightarrow> (('a list \<times> int \<times> error option) \<times> 'w) option) \<Rightarrow>
   (string \<Rightarrow> string \<Rightarrow> 'w \<Rightarrow> (('a list \<times> error option) \<times> 'w) option) \<Rightarrow> request \<Rightarrow> 'w \<Rightarrow> ('a listing \<times> 'w) option" where
  "record_page pages desk c w =
     (let page = page_of c; pageMax = pageMax_of c; userid = form c ''Userid''; createTime = form c ''Create_time''
      in if createTime = '''' then do {
           ((list, count, _), w) \<leftarrow> pages userid ((page - 1) * pageMax) pageMax w;
           Some (Listing list count, w)
         } else do {
           ((list, _), w) \<leftarrow> desk userid createTime w;
           Some (Listing list 4, w)
         })"

definition MatchRecord where
  "MatchRecord N J = record_page (GetMatchRecord N J) (GetMatchDestopRecord N J)"

definition PrivateRecord where
  "PrivateRecord N J = record_page (GetPrivateRecord N J) (GetPrivateDestopRecord N J)"

definition NormalRecord where
  "NormalRecord N J = record_page (GetNormalRecord N J) (GetDestopRecord N J)"

text \<open>A move of a game: the value in the upper half, the card and the seat in the two low bytes.\<close>

record card_record_str =
  cr_Value :: u32
  cr_Seat :: u32
  cr_Card :: u32

definition CardRecode :: "'w net \<Rightarrow> u64 list codec \<Rightarrow> request \<Rightarrow> 'w \<Rightarrow> (card_record_str list \<times> 'w) option" where
  "CardRecode N J c w = do {
     ((value, err), w) \<leftarrow> Hget N KEY_CARD_RECORD (form c ''index'') w;
     let list = (if err = None then fst (as_json J value []) else []);
     Some (map (\<lambda>v. \<lparr>cr_Value = ucast (drop_bit 32 v), cr_Seat = ucast (v AND 0xFF), cr_Card = ucast (drop_bit 8 v AND 0xff)\<rparr>) list, w)
   }"

section \<open>Payments\<close>

record 'f trading_results =
  tr_Transtype :: int
  tr_Cporderid :: string
  tr_Transid :: string
  tr_Appuserid :: string
  tr_Appid :: string
  tr_Waresid :: u32
  tr_Feetype :: int
  tr_Money :: 'f
  tr_Currency :: string
  tr_Result :: int
  tr_Transtime :: string
  tr_Cpprivate :: string
  tr_Paytype :: u32

record charge_order =
  co_Orderid :: string
  co_Userid :: string
  co_Phone :: string
  co_Transid :: string
  co_Waresid :: u32
  co_Money :: string
  co_Platform :: u32
  co_OrderRes :: u32
  co_Ctime :: int
  co_Result :: u32
  co_Transtime :: string
  co_Status :: u32

definition empty_trading :: "'f \<Rightarrow> 'f trading_results" where
  "empty_trading zero = \<lparr>tr_Transtype = 0, tr_Cporderid = '''', tr_Transid = '''', tr_Appuserid = '''', tr_Appid = '''', tr_Waresid = 0,
     tr_Feetype = 0, tr_Money = zero, tr_Currency = '''', tr_Result = 0, tr_Transtime = '''', tr_Cpprivate = '''', tr_Paytype = 0\<rparr>"

definition empty_order :: charge_order where
  "empty_order = \<lparr>co_Orderid = '''', co_Userid = '''', co_Phone = '''', co_Transid = '''', co_Waresid = 0, co_Money = '''',
     co_Platform = 0, co_OrderRes = 0, co_Ctime = 0, co_Result = 0, co_Transtime = '''', co_Status = 0\<rparr>"

definition KEY_TRADINGRESULTS :: string where "KEY_TRADINGRESULTS = ''tradingresults:''"
definition KEY_USER_CHARGEORDER :: string where "KEY_USER_CHARGEORDER = ''user_chargeorder:''"
definition KEY_RESOURCE_CHANGE :: string where "KEY_RESOURCE_CHANGE = ''resource_change_record:''"
definition KEY_ROOM_USER_CREATE_RECORD :: string where "KEY_ROOM_USER_CREATE_RECORD = ''room_user_create_recode:''"

definition GetAllTransition ::
  "'w net \<Rightarrow> 'f trading_results codec \<Rightarrow> 'f \<Rightarrow> string \<Rightarrow> 'w \<Rightarrow> (('f trading_results list \<times> error option) \<times> 'w) option" where
  "GetAllTransition N J zero day w = do {
     ((value, err), w) \<leftarrow> Qslice N (KEY_TRADINGRESULTS @ day) 0 (- 1) w;
     Some (if err \<noteq> None then ([], err) else (keep_json J (empty_trading zero) value, None), w)
   }"

text \<open>A page of a list of structures, as the four functions for payments read it.\<close>

definition queue_page ::
  "'w net \<Rightarrow> 'a codec \<Rightarrow> 'a \<Rightarrow> string \<Rightarrow> int \<Rightarrow> int \<Rightarrow> 'w \<Rightarrow> (('a list \<times> int \<times> error option) \<times> 'w) option" where
  "queue_page N J z name offset limit w = do {
     ((size, err), w) \<leftarrow> Qsize N name w;
     (if err \<noteq> None then Some (([], 0, err), w)
      else do {
        ((value, err), w) \<leftarrow> Qrange N name (of_int offset) (of_int limit) w;
        Some (if err \<noteq> None then ([], 0, err) else (keep_json J z value, size, None), w)
      })
   }"

definition GetTransition where
  "GetTransition N J zero day = queue_page N J (empty_trading zero) (KEY_TRADINGRESULTS @ day)"

definition GetTransitionByUserid where
  "GetTransitionByUserid N J zero day userid = queue_page N J (empty_trading zero) (KEY_TRADINGRESULTS @ day @ userid)"

definition GetChargeOrder where
  "GetChargeOrder N J day = queue_page N J empty_order (KEY_USER_CHARGEORDER @ day)"

definition GetChargeOrderByUserid where
  "GetChargeOrderByUserid N J day userid = queue_page N J empty_order (KEY_USER_CHARGEORDER @ day @ userid)"

text \<open>The handlers; \<open>today\<close> is the text of the time at which the day began.\<close>

definition payment_page ::
  "(string \<Rightarrow> int \<Rightarrow> int \<Rightarrow> 'w \<Rightarrow> (('a list \<times> int \<times> error option) \<times> 'w) option) \<Rightarrow>
   (string \<Rightarrow> string \<Rightarrow> int \<Rightarrow> int \<Rightarrow> 'w \<Rightarrow> (('a list \<times> int \<times> error option) \<times> 'w) option) \<Rightarrow>
   string \<Rightarrow> request \<Rightarrow> 'w \<Rightarrow> ('a listing \<times> 'w) option" where
  "payment_page all by_user today c w =
     (let page = page_of c; pageMax = pageMax_of c;
          day = (if form c ''Unix'' = '''' then today else form c ''Unix'');
          userid = form c ''Userid''
      in do {
        ((list, size, err), w) \<leftarrow> (if userid \<noteq> '''' then by_user day userid ((page - 1) * pageMax) pageMax w
                                   else all day ((page - 1) * pageMax) pageMax w);
        Some (if err \<noteq> None then NoListing else Listing list size, w)
      })"

definition op_GetTransition where
  "op_GetTransition N J zero = payment_page (GetTransition N J zero) (GetTransitionByUserid N J zero)"

definition op_GetChargeOrder where
  "op_GetChargeOrder N J = payment_page (GetChargeOrder N J) (GetChargeOrderByUserid N J)"

section \<open>Spent resources and created rooms\<close>

record consume_data =
  cd_Userid :: string
  cd_Kind :: u32
  cd_Time :: u32
  cd_Channel :: u32
  cd_Residual :: u32
  cd_Count :: "32 word"

record data_room =
  dr_Id :: u32
  dr_Rtype :: u32
  dr_Rname :: string
  dr_Cid :: u32
  dr_Expire :: u32
  dr_Updownji :: u32
  dr_Invitecode :: string
  dr_Create_userid :: string
  dr_Status :: u32
  dr_RoundTotal :: u32
  dr_Started :: bool
  dr_Ante :: u32
  dr_Payment :: u32
  dr_CTime :: u32

definition empty_consume :: consume_data where
  "empty_consume = \<lparr>cd_Userid = '''', cd_Kind = 0, cd_Time = 0, cd_Channel = 0, cd_Residual = 0, cd_Count = 0\<rparr>"

definition empty_room :: data_room where
  "empty_room = \<lparr>dr_Id = 0, dr_Rtype = 0, dr_Rname = '''', dr_Cid = 0, dr_Expire = 0, dr_Updownji = 0, dr_Invitecode = '''',
     dr_Create_userid = '''', dr_Status = 0, dr_RoundTotal = 0, dr_Started = False, dr_Ante = 0, dr_Payment = 0, dr_CTime = 0\<rparr>"

definition Consume :: "'w net \<Rightarrow> consume_data codec \<Rightarrow> request \<Rightarrow> 'w \<Rightarrow> (consume_data listing \<times> 'w) option" where
  "Consume N J c w = do {
     let userid = form c ''Userid'';
     let page = page_of c;
     let pageMax = pageMax_of c;
     ((size, err), w) \<leftarrow> Qsize N (KEY_RESOURCE_CHANGE @ userid) w;
     (if err \<noteq> None then Some (NoListing, w)
      else do {
        ((rang, err), w) \<leftarrow> Qrange N (KEY_RESOURCE_CHANGE @ userid) (of_int ((page - 1) * pageMax)) (of_int pageMax) w;
        Some (if err \<noteq> None then NoListing else Listing (keep_json J empty_consume rang) size, w)
      })
   }"

text \<open>Here an entry that cannot be read stays in the list, with what was read of it.\<close>

definition getRoomCreateRecord ::
  "'w net \<Rightarrow> data_room codec \<Rightarrow> string \<Rightarrow> int \<Rightarrow> int \<Rightarrow> 'w \<Rightarrow> ((data_room list \<times> int \<times> error option) \<times> 'w) option" where
  "getRoomCreateRecord N J userid offset limit w = do {
     ((size, err), w) \<leftarrow> Qsize N (KEY_ROOM_USER_CREATE_RECORD @ userid) w;
     (if err \<noteq> None then Some (([], size, err), w)
      else do {
        ((rang, err), w) \<leftarrow> Qrange N (KEY_ROOM_USER_CREATE_RECORD @ userid) (of_int offset) (of_int limit) w;
        Some (if err \<noteq> None then ([], size, err) else (map (\<lambda>v. fst (as_json J v empty_room)) rang, size, None), w)
      })
   }"

definition RoomCreateRecord :: "'w net \<Rightarrow> data_room codec \<Rightarrow> request \<Rightarrow> 'w \<Rightarrow> (data_room listing \<times> 'w) option" where
  "RoomCreateRecord N J c w =
     (let page = page_of c; pageMax = pageMax_of c; userid = form c ''Userid''
      in if userid = '''' then Some (NoListing, w)
         else do {
           ((list, size, err), w) \<leftarrow> getRoomCreateRecord N J userid ((page - 1) * pageMax) pageMax w;
           Some (if err \<noteq> None \<or> size = 0 then NoListing else Listing list size, w)
         })"

section \<open>Saved games are found\<close>

fun save_all :: "'w net \<Rightarrow> game_record codec \<Rightarrow> game_record list \<Rightarrow> 'w \<Rightarrow> (error option list \<times> 'w) option" where
  "save_all N J [] w = Some ([], w)"
| "save_all N J (r # rs) w = do {
     (err, w) \<leftarrow> GameRecord_Save N J r w;
     (errs, w) \<leftarrow> save_all N J rs w;
     Some (err # errs, w)
   }"

context ssdb
begin

lemma save_game_run: "\<exists>w'. save_game N J key que userid t r w = Some (None, w') \<and>
    tab w' = (tab w)(key @ userid := (tab w (key @ userid))(fmt_nat (unat t) \<mapsto> enc J r)) \<and>
    lst w' = (lst w)(que @ userid := fmt_nat (unat t) # lst w (que @ userid))"
proof -
  from Hset_both [of "key @ userid" "fmt_nat (unat t)" "json_val J r" w] obtain w1 where
    w1: "Hset N (key @ userid) (fmt_nat (unat t)) (json_val J r) w = Some (((), None), w1)"
      "tab w1 = (tab w)(key @ userid := (tab w (key @ userid))(fmt_nat (unat t) \<mapsto> enc J r))" "lst w1 = lst w" by auto
  with Qpush_front_both [of "que @ userid" "GUint32 t" w1] show ?thesis by (auto simp: save_game_def)
qed

lemma read_games_run: "read_games N J z at vs w =
    Some (keep_json J z (map (\<lambda>v. case tab w (fst (at v)) (snd (at v)) of None \<Rightarrow> '''' | Some s \<Rightarrow> s) vs), w)"
  by (induction vs) (simp_all add: Hget_run keep_json_def)

lemma page_games_run:
  assumes "length (lst w (que @ userid)) < 2 ^ 63" and "off < 2 ^ 63" and "lim < 2 ^ 63"
  shows "page_games N J z key que userid (int off) (int lim) w =
    Some ((keep_json J z (map (\<lambda>v. case tab w (key @ userid) v of None \<Rightarrow> '''' | Some s \<Rightarrow> s) (take lim (drop off (lst w (que @ userid))))),
           int (length (lst w (que @ userid))), None), w)"
  by (simp add: page_games_def Qsize_run [OF assms(1)] Qrange_run [OF assms(2,3)] read_games_run)

end

text \<open>The records of a player, newest first, as the database holds them.\<close>

definition holds_games ::
  "game_record codec \<Rightarrow> (string \<Rightarrow> string \<rightharpoonup> string) \<Rightarrow> (string \<Rightarrow> string list) \<Rightarrow> string \<Rightarrow> game_record list \<Rightarrow> bool" where
  "holds_games J t l userid rs \<longleftrightarrow>
     l (KEY_GAME_RECORD_QUEUE @ userid) = map (\<lambda>r. fmt_nat (unat (gr_Create_time r))) rs \<and>
     (\<forall>r\<in>set rs. t (KEY_GAME_RECORD @ userid) (fmt_nat (unat (gr_Create_time r))) = Some (enc J r))"

context ssdb
begin

lemma save_all_holds:
  assumes "holds_games J (tab w) (lst w) u acc"
    and "distinct (map gr_Create_time (filter (\<lambda>r. gr_Userid r = u) rs @ acc))"
  shows "\<exists>w'. save_all N J rs w = Some (replicate (length rs) None, w') \<and>
    holds_games J (tab w') (lst w') u (rev (filter (\<lambda>r. gr_Userid r = u) rs) @ acc)"
  using assms
proof (induction rs arbitrary: w acc)
  case (Cons r rs)
  from save_game_run [of J KEY_GAME_RECORD KEY_GAME_RECORD_QUEUE "gr_Userid r" "gr_Create_time r" r w] obtain w1 where
    w1: "GameRecord_Save N J r w = Some (None, w1)"
      "tab w1 = (tab w)(KEY_GAME_RECORD @ gr_Userid r :=
         (tab w (KEY_GAME_RECORD @ gr_Userid r))(fmt_nat (unat (gr_Create_time r)) \<mapsto> enc J r))"
      "lst w1 = (lst w)(KEY_GAME_RECORD_QUEUE @ gr_Userid r :=
         fmt_nat (unat (gr_Create_time r)) # lst w (KEY_GAME_RECORD_QUEUE @ gr_Userid r))"
    by (auto simp: GameRecord_Save_def)
  let ?acc = "if gr_Userid r = u then r # acc else acc"
  have "holds_games J (tab w1) (lst w1) u ?acc"
    using Cons.prems by (auto simp: holds_games_def w1(2,3) word_unat_eq_iff [symmetric])
  moreover have "distinct (map gr_Create_time (filter (\<lambda>r. gr_Userid r = u) rs @ ?acc))"
    using Cons.prems(2) by (cases "gr_Userid r = u") simp_all
  ultimately obtain w' where "save_all N J rs w1 = Some (replicate (length rs) None, w')"
    "holds_games J (tab w') (lst w') u (rev (filter (\<lambda>r. gr_Userid r = u) rs) @ ?acc)" using Cons.IH by blast
  with w1(1) show ?case by (auto split: if_splits)
qed simp

lemma keep_json_good: "\<forall>r\<in>set rs. dec J (enc J r) z = (r, True) \<Longrightarrow> keep_json J z (map (enc J) rs) = rs"
  by (induction rs) (simp_all add: keep_json_def as_json_def)

lemma GetNormalRecord_holds:
  assumes "holds_games J (tab w) (lst w) u rs" and "\<forall>r\<in>set rs. dec J (enc J r) empty_game = (r, True)"
    and "length rs < 2 ^ 63" and "off < 2 ^ 63" and "lim < 2 ^ 63"
  shows "GetNormalRecord N J u (int off) (int lim) w = Some ((take lim (drop off rs), int (length rs), None), w)"
proof -
  let ?rs = "take lim (drop off rs)"
  have len: "length (lst w (KEY_GAME_RECORD_QUEUE @ u)) = length rs" using assms(1) by (simp add: holds_games_def)
  have sub: "set ?rs \<subseteq> set rs" by (meson in_set_takeD in_set_dropD subsetI)
  have "map (\<lambda>v. case tab w (KEY_GAME_RECORD @ u) v of None \<Rightarrow> '''' | Some s \<Rightarrow> s)
      (take lim (drop off (lst w (KEY_GAME_RECORD_QUEUE @ u)))) = map (enc J) ?rs"
    using assms(1) sub by (auto simp: holds_games_def take_map drop_map)
  moreover have "keep_json J empty_game (map (enc J) ?rs) = ?rs" using assms(2) sub by (intro keep_json_good) blast
  ultimately show ?thesis
    unfolding GetNormalRecord_def using page_games_run [OF _ assms(4,5), of w KEY_GAME_RECORD_QUEUE u J empty_game KEY_GAME_RECORD]
      assms(3) unfolding len by metis
qed

end

text \<open>
  Saved games are found again: after any sequence of games of several players has been saved, each with
  success, the page of a player whose games have different times holds exactly that player's games, newest
  first, unchanged, and the number reported is the number of all of them.  This is what a caller sees
  who copies each reply before the next request; the pages over the connection pool are the subject of \<open>PooledReads\<close>.
\<close>

theorem games_roundtrip:
  assumes "ssdb N tab lst" and "lst w (KEY_GAME_RECORD_QUEUE @ u) = []"
    and "distinct (map gr_Create_time (filter (\<lambda>r. gr_Userid r = u) rs))"
    and "\<And>r. r \<in> set rs \<Longrightarrow> dec J (enc J r) empty_game = (r, True)"
    and "length rs < 2 ^ 63" and "off < 2 ^ 63" and "lim < 2 ^ 63"
  shows "\<exists>w'. save_all N J rs w = Some (replicate (length rs) None, w') \<and>
    GetNormalRecord N J u (int off) (int lim) w' =
      Some ((take lim (drop off (rev (filter (\<lambda>r. gr_Userid r = u) rs))), int (length (filter (\<lambda>r. gr_Userid r = u) rs)), None), w')"
proof -
  from ssdb.save_all_holds [OF assms(1), of J w u "[]" rs] assms(2,3) obtain w' where
    w': "save_all N J rs w = Some (replicate (length rs) None, w')"
      "holds_games J (tab w') (lst w') u (rev (filter (\<lambda>r. gr_Userid r = u) rs))" by (auto simp: holds_games_def)
  have "length (filter (\<lambda>r. gr_Userid r = u) rs) < 2 ^ 63" using assms(5) length_filter_le [of "\<lambda>r. gr_Userid r = u" rs] by linarith
  then show ?thesis using ssdb.GetNormalRecord_holds [OF assms(1) w'(2) _ _ assms(6,7)] w'(1) assms(4) by simp
qed

text \<open>A codec for two games, and what the pages show of them.\<close>

definition ref_game :: "string \<Rightarrow> u32 \<Rightarrow> game_record" where
  "ref_game u t = empty_game\<lparr>gr_Userid := u, gr_Create_time := t\<rparr>"

definition ref_game_codec :: "game_record codec" where
  "ref_game_codec = \<lparr>enc = (\<lambda>r. CHR ''g'' # gr_Userid r), dec = (\<lambda>s x. (ref_game (tl s) 5, True))\<rparr>"

lemma ref_game_simps [simp]:
  "gr_Userid (ref_game u t) = u" "gr_Create_time (ref_game u t) = t"
  "dec ref_game_codec (enc ref_game_codec (ref_game u 5)) x = (ref_game u 5, True)"
  by (simp_all add: ref_game_def ref_game_codec_def)

lemma games_roundtrip_witness:
  "\<exists>w'. save_all ref_net ref_game_codec [ref_game ''a'' 5, ref_game ''b'' 5] ref_empty = Some (replicate 2 None, w') \<and>
    GetNormalRecord ref_net ref_game_codec ''b'' (int 0) (int 30) w' = Some (([ref_game ''b'' 5], 1, None), w')"
proof -
  have "\<exists>w'. save_all ref_net ref_game_codec [ref_game ''a'' 5, ref_game ''b'' 5] ref_empty =
      Some (replicate (length [ref_game ''a'' 5, ref_game ''b'' 5]) None, w') \<and>
    GetNormalRecord ref_net ref_game_codec ''b'' (int 0) (int 30) w' =
      Some ((take 30 (drop 0 (rev (filter (\<lambda>r. gr_Userid r = ''b'') [ref_game ''a'' 5, ref_game ''b'' 5]))),
             int (length (filter (\<lambda>r. gr_Userid r = ''b'') [ref_game ''a'' 5, ref_game ''b'' 5])), None), w')"
    by (rule games_roundtrip [OF ref_server.ssdb_axioms]) (auto simp: ref_empty_def)
  then show ?thesis by (simp add: numeral_2_eq_2 del: save_all.simps)
qed

end
