(* ===== verification/Letters.thy ===== *)
theory Letters
  imports GameRecords AdminProps
begin

text \<open>
  Letters to players, notices and gifts: \<^verbatim>\<open>data_postbox.go\<close>, \<^verbatim>\<open>data_notice.go\<close> and \<^verbatim>\<open>widget.go\<close> of \<^verbatim>\<open>src/data\<close>, the
  call of the game server in \<^verbatim>\<open>src/basic/rpc/rpc.go\<close> and \<^verbatim>\<open>src/admincall/admincall.go\<close>, and the handlers of
  \<^verbatim>\<open>postbox.go\<close>, \<^verbatim>\<open>notice.go\<close> and \<^verbatim>\<open>issueprops.go\<close> in \<^verbatim>\<open>src/operation\<close>.  The game server is a parameter: whether a
  connection can be made and what a call over it answers.
\<close>

section \<open>Letters in the database\<close>

record widget_data =
  wd_Id :: u32
  wd_Count :: u32

record data_postbox =
  pb_Id :: u32
  pb_Title :: string
  pb_Appendixname :: string
  pb_Appendix :: "widget_data list"
  pb_Content :: string
  pb_Sender :: string
  pb_Receiver :: string
  pb_Createtime :: u32
  pb_Read :: bool
  pb_Expire :: u32
  pb_Kind :: u32
  pb_Draw :: bool
  pb_Status :: u32

definition empty_post :: data_postbox where
  "empty_post = \<lparr>pb_Id = 0, pb_Title = '''', pb_Appendixname = '''', pb_Appendix = [], pb_Content = '''', pb_Sender = '''',
     pb_Receiver = '''', pb_Createtime = 0, pb_Read = False, pb_Expire = 0, pb_Kind = 0, pb_Draw = False, pb_Status = 0\<rparr>"

definition KEY_POSTBOX :: string where "KEY_POSTBOX = ''postbox:''"
definition KEY_POSTBOX_LIST :: string where "KEY_POSTBOX_LIST = ''postboxlist:''"
definition KEY_NOTICE :: string where "KEY_NOTICE = ''notice''"
definition PROPS_ISSUE_LOG :: string where "PROPS_ISSUE_LOG = ''admins_props_issue_log''"

datatype perr = PErr derr | AppendixEmpty

definition perr_of :: "error option \<Rightarrow> perr option" where
  "perr_of = map_option (PErr \<circ> EClient)"

definition Post_Get :: "'w net \<Rightarrow> data_postbox codec \<Rightarrow> data_postbox \<Rightarrow> 'w \<Rightarrow> ((data_postbox \<times> perr option) \<times> 'w) option" where
  "Post_Get N J p w = do {
     ((value, err), w) \<leftarrow> Hget N (KEY_POSTBOX @ pb_Receiver p) (fmt_nat (unat (pb_Id p))) w;
     Some (if err = None then (case as_json J value p of (p, err) \<Rightarrow> (p, map_option PErr err)) else (p, perr_of err), w)
   }"

definition Post_Save ::
  "'w net \<Rightarrow> data_postbox codec \<Rightarrow> int \<Rightarrow> data_postbox \<Rightarrow> 'w \<Rightarrow> ((data_postbox \<times> perr option) \<times> 'w) option" where
  "Post_Save N J now p w = do {
     ((size, err), w) \<leftarrow> Hsize N (KEY_POSTBOX @ pb_Receiver p) w;
     (if err \<noteq> None then Some ((p, perr_of err), w)
      else do {
        let p = p\<lparr>pb_Id := of_int size, pb_Createtime := of_int now\<rparr>;
        ((_, err), w) \<leftarrow> Hset N (KEY_POSTBOX @ pb_Receiver p) (fmt_nat (unat (pb_Id p))) (json_val J p) w;
        Some ((p, perr_of err), w)
      })
   }"

definition ReadPost ::
  "'w net \<Rightarrow> data_postbox codec \<Rightarrow> int \<Rightarrow> data_postbox \<Rightarrow> 'w \<Rightarrow> ((data_postbox \<times> perr option) \<times> 'w) option" where
  "ReadPost N J now p w = do {
     ((p, err), w) \<leftarrow> Post_Get N J p w;
     (if err = None then Post_Save N J now (p\<lparr>pb_Status := 1\<rparr>) w else Some ((p, err), w))
   }"

definition Post_Delete :: "'w net \<Rightarrow> data_postbox \<Rightarrow> 'w \<Rightarrow> (error option \<times> 'w) option" where
  "Post_Delete N p w = do {
     ((_, err), w) \<leftarrow> MultiHdel N (KEY_POSTBOX @ pb_Receiver p) [fmt_nat (unat (pb_Id p))] w;
     Some (err, w)
   }"

definition Cleanup :: "'w net \<Rightarrow> data_postbox \<Rightarrow> 'w \<Rightarrow> (error option \<times> 'w) option" where
  "Cleanup N p w = do {
     ((_, err), w) \<leftarrow> Hclear N (KEY_POSTBOX @ pb_Receiver p) w;
     Some (err, w)
   }"

text \<open>The loop over the letters; the error returned is the one of the last letter.\<close>

fun cleanup_loop :: "'w net \<Rightarrow> data_postbox codec \<Rightarrow> val list \<Rightarrow> derr option \<Rightarrow> 'w \<Rightarrow> (derr option \<times> 'w) option" where
  "cleanup_loop N J [] err w = Some (err, w)"
| "cleanup_loop N J (v # vs) err w =
     (case as_json J v empty_post of (d, err) \<Rightarrow>
        if err = None \<and> pb_Read d then do {
          (err, w) \<leftarrow> Post_Delete N d w;
          cleanup_loop N J vs (map_option EClient err) w
        } else cleanup_loop N J vs err w)"

definition CleanupRead ::
  "'w net \<Rightarrow> data_postbox codec \<Rightarrow> ((string \<rightharpoonup> val) \<Rightarrow> (string \<times> val) list) \<Rightarrow> data_postbox \<Rightarrow> 'w \<Rightarrow> (derr option \<times> 'w) option" where
  "CleanupRead N J it p w = do {
     ((data, err), w) \<leftarrow> MultiHgetAll N (KEY_POSTBOX_LIST @ pb_Receiver p) w;
     (if err = None then cleanup_loop N J (map snd (it data)) None w else Some (map_option EClient err, w))
   }"

definition ReadAll ::
  "'w net \<Rightarrow> data_postbox codec \<Rightarrow> ((string \<rightharpoonup> val) \<Rightarrow> (string \<times> val) list) \<Rightarrow> data_postbox \<Rightarrow> 'w \<Rightarrow> (data_postbox list \<times> 'w) option" where
  "ReadAll N J it p w = do {
     ((data, err), w) \<leftarrow> MultiHgetAll N (KEY_POSTBOX_LIST @ pb_Receiver p) w;
     Some (if err = None then keep_json J empty_post (map snd (it data)) else [], w)
   }"

definition OpenAppendix ::
  "'w net \<Rightarrow> data_postbox codec \<Rightarrow> int \<Rightarrow> data_postbox \<Rightarrow> 'w \<Rightarrow> ((widget_data list \<times> perr option) \<times> 'w) option" where
  "OpenAppendix N J now p w = do {
     ((p, err), w) \<leftarrow> Post_Get N J p w;
     (if err \<noteq> None then Some ((pb_Appendix p, err), w)
      else if length (pb_Appendix p) > 0 then do {
        ((p, err), w) \<leftarrow> Post_Save N J now (p\<lparr>pb_Draw := True\<rparr>) w;
        Some ((pb_Appendix p, err), w)
      } else Some ((pb_Appendix p, Some AppendixEmpty), w))
   }"

section \<open>Calling the game server\<close>

text \<open>
  \<open>dial\<close> tells whether a connection can be made; \<open>invoke\<close> is a call over the connection, \<open>None\<close> when it fails, which
  leaves the reply variable as it was.
\<close>

record email_args =
  ea_Userid :: "string list"
  ea_Data :: data_postbox

record 'p peer =
  dial :: "'p \<Rightarrow> bool \<times> 'p"
  invoke :: "string \<Rightarrow> email_args \<Rightarrow> 'p \<Rightarrow> bool option \<times> 'p"

text \<open>\<open>Call\<close> on a client with its flag \<open>Connected\<close>: the reply variable after the call; no error is returned once connected.\<close>

definition rpc_Call ::
  "'p peer \<Rightarrow> string \<Rightarrow> email_args \<Rightarrow> bool \<Rightarrow> bool \<times> 'p \<Rightarrow> (bool \<times> bool) \<times> bool \<times> 'p" where
  "rpc_Call G serviceMethod args reply = (\<lambda>(connected, p).
     let (up, p) = (if \<not> connected then dial G p else (True, p))
     in if \<not> up then ((reply, False), connected, p)
        else (case invoke G serviceMethod args p of
                (Some r, p) \<Rightarrow> ((r, True), True, p)
              | (None, p) \<Rightarrow>
                  (case dial G p of
                     (False, p) \<Rightarrow> ((reply, True), True, p)
                   | (True, p) \<Rightarrow>
                       (case invoke G serviceMethod args p of
                          (Some r, p) \<Rightarrow> ((r, True), True, p)
                        | (None, p) \<Rightarrow> ((reply, True), True, p)))))"

definition EmailReceiverArgs_Call :: "'p peer \<Rightarrow> email_args \<Rightarrow> bool \<times> 'p \<Rightarrow> bool \<times> bool \<times> 'p" where
  "EmailReceiverArgs_Call G args cl =
     (case rpc_Call G ''EmailReceiver.Receive'' args True cl of ((ok, _), cl) \<Rightarrow> (ok, cl))"

section \<open>Sending letters\<close>

text \<open>\<open>strings.Split(s, ",")\<close>.\<close>

fun split_commas :: "string \<Rightarrow> string list" where
  "split_commas [] = [[]]"
| "split_commas (c # cs) =
     (if c = CHR '','' then [] # split_commas cs
      else (case split_commas cs of w # ws \<Rightarrow> (c # w) # ws | [] \<Rightarrow> [[c]]))"

datatype op_reply = NoIds | BadIds | SendFailed | IdsFailed string | OpOk

definition appendix_name :: "int \<Rightarrow> string \<Rightarrow> string" where
  "appendix_name widgetType cnt =
     (if widgetType = 22 then ''VIP1''
      else if widgetType = 23 then ''VIP2''
      else if widgetType = 24 then ''VIP3''
      else if widgetType = 1 then of_runes [0x91D1, 0x5E01] @ ''x'' @ cnt
      else if widgetType = 2 then of_runes [0x5151, 0x6362, 0x5238] @ ''x'' @ cnt
      else if widgetType = 3 then of_runes [0x5165, 0x573A, 0x5238] @ ''x'' @ cnt
      else if widgetType = 4 then of_runes [0x94BB, 0x77F3] @ ''x'' @ cnt
      else if widgetType = 100 then of_runes [0x7ECF, 0x9A8C] @ ''x'' @ cnt
      else '''')"

text \<open>Writing one operation record per receiver.\<close>

fun log_all :: "'w env \<Rightarrow> int \<Rightarrow> (string \<Rightarrow> admin_record) \<Rightarrow> string list \<Rightarrow> 'w app \<Rightarrow> 'w app option" where
  "log_all E now r [] s = Some s"
| "log_all E now r (v # vs) s = do { s \<leftarrow> log_op E now (r v) s; log_all E now r vs s }"

text \<open>The widget of a request: type 14 stands for the VIP level of the request, once.\<close>

definition widget_of :: "request \<Rightarrow> int \<times> int" where
  "widget_of c =
     (let cnt = fst (Atoi (form c ''Count'')); vip = fst (Atoi (form c ''VIP'')); widgetType = fst (Atoi (form c ''WidgetType''))
      in if widgetType = 14 then (vip, 1) else (widgetType, cnt))"

definition Postbox ::
  "'p peer \<Rightarrow> 'w env \<Rightarrow> int \<Rightarrow> request \<Rightarrow> (bool \<times> 'p) \<times> 'w app \<Rightarrow> (op_reply \<times> (bool \<times> 'p) \<times> 'w app) option" where
  "Postbox G E now c = (\<lambda>(cl, s).
     let (widgetType, cnt) = widget_of c;
         title = form c ''Title'';
         kind = fst (Atoi (form c ''Kind''));
         userIds = split_commas (form c ''UserIds'')
     in if length userIds = 0 then Some (NoIds, cl, s)
        else if \<exists>v\<in>set userIds. \<not> snd (Atoi v) then Some (BadIds, cl, s)
        else (let user = GetCurrentUserID now c s
              in if user \<noteq> '''' then
                   (let widget = \<lparr>wd_Id = of_int widgetType, wd_Count = of_int cnt\<rparr>;
                        d = empty_post\<lparr>pb_Title := title, pb_Content := form c ''Content'', pb_Kind := of_int kind\<rparr>;
                        d = (if kind = 3 then d\<lparr>pb_Appendix := [widget], pb_Appendixname := appendix_name widgetType (form c ''Count'')\<rparr> else d);
                        (ok, cl) = EmailReceiverArgs_Call G \<lparr>ea_Userid = userIds, ea_Data = d\<rparr> cl
                    in if \<not> ok then Some (SendFailed, cl, s)
                       else do {
                         let r = (\<lambda>v. empty_record\<lparr>adminID := user, rkind := OPERATE_KIND_SEND_MAIL, target := v, rdesc := title\<rparr>);
                         s \<leftarrow> log_all E now (\<lambda>v. if kind = 3 then (r v)\<lparr>rcount := cnt, windgetID := of_int widgetType\<rparr> else r v) userIds s;
                         Some (OpOk, cl, s)
                       })
                 else Some (OpOk, cl, s)))"

section \<open>Gifts\<close>

record issue_record =
  is_AdminID :: string
  is_Count :: u32
  is_WidgetType :: u32
  is_UserID :: string
  is_Desc :: string
  is_Time :: u32

definition empty_issue :: issue_record where
  "empty_issue = \<lparr>is_AdminID = '''', is_Count = 0, is_WidgetType = 0, is_UserID = '''', is_Desc = '''', is_Time = 0\<rparr>"

definition GetIssuePropsList ::
  "'w net \<Rightarrow> issue_record codec \<Rightarrow> int \<Rightarrow> int \<Rightarrow> 'w \<Rightarrow> ((issue_record list \<times> int \<times> error option) \<times> 'w) option" where
  "GetIssuePropsList N J offset limit w = do {
     ((cnt, err), w) \<leftarrow> Qsize N PROPS_ISSUE_LOG w;
     (if err \<noteq> None then Some (([], 0, err), w)
      else do {
        ((value, err), w) \<leftarrow> Qrange N PROPS_ISSUE_LOG (of_int offset) (of_int limit) w;
        Some (if err \<noteq> None then ([], 0, err) else (map (\<lambda>v. fst (as_json J v empty_issue)) value, cnt, None), w)
      })
   }"

definition Issue_Save :: "'w net \<Rightarrow> issue_record codec \<Rightarrow> int \<Rightarrow> issue_record \<Rightarrow> 'w \<Rightarrow> (error option \<times> 'w) option" where
  "Issue_Save N J now i w = do {
     let i = i\<lparr>is_Time := of_int now\<rparr>;
     ((_, err), w) \<leftarrow> Qpush_front N PROPS_ISSUE_LOG [json_val J i] w;
     Some (err, w)
   }"

definition IssuePropsList :: "'w net \<Rightarrow> issue_record codec \<Rightarrow> request \<Rightarrow> 'w \<Rightarrow> (issue_record listing \<times> 'w) option" where
  "IssuePropsList N J c w = do {
     let page = fst (Atoi (form c ''Page''));
     let page = (if page = 0 then 1 else page);
     let pageMax = fst (Atoi (form c ''PageMax''));
     let pageMax = (if pageMax = 0 then 30 else pageMax);
     ((list, size, err), w) \<leftarrow> GetIssuePropsList N J ((page - 1) * pageMax) pageMax w;
     Some (if err \<noteq> None \<or> size = 0 then NoListing else Listing list size, w)
   }"

fun issue_loop ::
  "(u32 \<rightharpoonup> vip_data) \<Rightarrow> (nat \<Rightarrow> string \<Rightarrow> string) \<Rightarrow> 'w env \<Rightarrow> issue_record codec \<Rightarrow> int \<Rightarrow> string \<Rightarrow> int \<Rightarrow> int \<Rightarrow> string \<Rightarrow>
     string list \<Rightarrow> 'w app \<Rightarrow> (string \<times> 'w app) option" where
  "issue_loop vipMap pf E J now user widgetType cnt desc [] s = Some ('''', s)"
| "issue_loop vipMap pf E J now user widgetType cnt desc (v # vs) s = do {
     let issue = empty_issue\<lparr>is_AdminID := user, is_WidgetType := of_int widgetType, is_UserID := v, is_Count := of_int cnt, is_Desc := desc\<rparr>;
     (err, w) \<leftarrow> ChangeRes vipMap pf (net E) now v (of_int widgetType) (of_int cnt) (db s);
     s \<leftarrow> log_op E now (empty_record\<lparr>adminID := user, rkind := OPERATE_KIND_WIDGET_MODIFY, rcount := cnt,
                          windgetID := of_int widgetType, target := v\<rparr>) (s\<lparr>db := w\<rparr>);
     (if err \<noteq> None then do {
        (es, s) \<leftarrow> issue_loop vipMap pf E J now user widgetType cnt desc vs s;
        Some (v @ '','' @ es, s)
      } else do {
        (_, w) \<leftarrow> Issue_Save (net E) J now issue (db s);
        issue_loop vipMap pf E J now user widgetType cnt desc vs (s\<lparr>db := w\<rparr>)
      })
   }"

definition IssueProps ::
  "(u32 \<rightharpoonup> vip_data) \<Rightarrow> (nat \<Rightarrow> string \<Rightarrow> string) \<Rightarrow> 'w env \<Rightarrow> issue_record codec \<Rightarrow> int \<Rightarrow> request \<Rightarrow> 'w app \<Rightarrow> (op_reply \<times> 'w app) option" where
  "IssueProps vipMap pf E J now c s =
     (let (widgetType, cnt) = widget_of c;
          desc = form c ''Desc'';
          userIds = split_commas (form c ''UserIds'')
      in if length userIds = 0 then Some (NoIds, s)
         else if \<exists>v\<in>set userIds. \<not> snd (Atoi v) then Some (BadIds, s)
         else do {
           let user = GetCurrentUserID now c s;
           (errorList, s) \<leftarrow> (if user \<noteq> '''' then issue_loop vipMap pf E J now user widgetType cnt desc userIds s else Some ('''', s));
           Some (if length errorList > 0 then IdsFailed errorList else OpOk, s)
         })"

section \<open>Notices\<close>

record notice =
  n_Id :: int
  n_Type :: u32
  n_Title :: string
  n_Content :: string
  n_CTime :: int
  n_Expire :: int

definition empty_notice :: notice where
  "empty_notice = \<lparr>n_Id = 0, n_Type = 0, n_Title = '''', n_Content = '''', n_CTime = 0, n_Expire = 0\<rparr>"

definition GetNotice :: "'w net \<Rightarrow> notice codec \<Rightarrow> int \<Rightarrow> 'w \<Rightarrow> (notice list \<times> 'w) option" where
  "GetNotice N J now w = do {
     ((value, _), w) \<leftarrow> Qrange N KEY_NOTICE 0 1 w;
     Some (filter (\<lambda>d. n_Expire d > now) (keep_json J empty_notice value), w)
   }"

definition AddNotice :: "'w net \<Rightarrow> notice codec \<Rightarrow> int \<Rightarrow> u32 \<Rightarrow> int \<Rightarrow> string \<Rightarrow> string \<Rightarrow> 'w \<Rightarrow> 'w option" where
  "AddNotice N J now ntype until title content w = do {
     let n = \<lparr>n_Id = now, n_Type = ntype, n_Title = title, n_Content = content, n_CTime = now, n_Expire = until\<rparr>;
     (_, w) \<leftarrow> Qpush_front N KEY_NOTICE [json_val J n] w;
     Some w
   }"

definition op_GetNotice :: "'w net \<Rightarrow> notice codec \<Rightarrow> int \<Rightarrow> 'w \<Rightarrow> (notice \<times> 'w) option" where
  "op_GetNotice N J now w = do {
     (list, w) \<leftarrow> GetNotice N J now w;
     Some (if length list > 0 then list ! 0 else empty_notice, w)
   }"

definition op_AddNotice :: "'w net \<Rightarrow> notice codec \<Rightarrow> int \<Rightarrow> request \<Rightarrow> 'w \<Rightarrow> (op_reply \<times> 'w) option" where
  "op_AddNotice N J now c w = do {
     let kind = fst (Atoi (form c ''Kind''));
     let until = fst (ParseInt 64 (form c ''Expire''));
     w \<leftarrow> AddNotice N J now (of_int kind) until (form c ''Title'') (form c ''Content'') w;
     Some (OpOk, w)
   }"

section \<open>Opening an appendix\<close>

text \<open>Opening the appendix of the same letter several times in a row.\<close>

fun draws ::
  "'w net \<Rightarrow> data_postbox codec \<Rightarrow> (nat \<Rightarrow> int) \<Rightarrow> data_postbox \<Rightarrow> nat \<Rightarrow> 'w \<Rightarrow> ((widget_data list \<times> perr option) list \<times> 'w) option" where
  "draws N J now p 0 w = Some ([], w)"
| "draws N J now p (Suc k) w = do {
     (x, w) \<leftarrow> OpenAppendix N J (now k) p w;
     (xs, w) \<leftarrow> draws N J now p k w;
     Some (x # xs, w)
   }"

context ssdb_hash
begin

lemma Post_Get_run:
  assumes "tab w (KEY_POSTBOX @ pb_Receiver p) (fmt_nat (unat (pb_Id p))) = Some t" and "dec J t p = (q, True)"
  shows "Post_Get N J p w = Some ((q, None), w)"
  using assms by (simp add: Post_Get_def Hget_run as_json_def)

lemma Post_Save_run:
  assumes "card (dom (tab w (KEY_POSTBOX @ pb_Receiver p))) = n" and "n < 2 ^ 32"
  shows "\<exists>p' w'. Post_Save N J now p w = Some ((p', None), w') \<and> pb_Appendix p' = pb_Appendix p \<and>
    tab w' = (tab w)(KEY_POSTBOX @ pb_Receiver p := (tab w (KEY_POSTBOX @ pb_Receiver p))(fmt_nat n \<mapsto> enc J p'))"
proof -
  let ?p = "p\<lparr>pb_Id := of_int (int n), pb_Createtime := of_int now\<rparr>"
  have n: "unat (of_nat n :: u32) = n" using assms(2) by (simp add: unat_of_nat take_bit_eq_mod)
  from Hset_run [of "KEY_POSTBOX @ pb_Receiver p" "fmt_nat n" "json_val J ?p" w] obtain w' where
    "Hset N (KEY_POSTBOX @ pb_Receiver p) (fmt_nat n) (json_val J ?p) w = Some (((), None), w')"
    "tab w' = (tab w)(KEY_POSTBOX @ pb_Receiver p := (tab w (KEY_POSTBOX @ pb_Receiver p))(fmt_nat n \<mapsto> enc J ?p))" by auto
  then show ?thesis
    using Hsize_run [of w "KEY_POSTBOX @ pb_Receiver p"] assms n
    by (intro exI [of _ ?p] exI [of _ w']) (simp add: Post_Save_def perr_of_def Let_def)
qed

lemma OpenAppendix_run:
  assumes "tab w (KEY_POSTBOX @ pb_Receiver p) (fmt_nat (unat (pb_Id p))) = Some t" and "dec J t p = (q, True)"
    and "pb_Receiver q = pb_Receiver p" and "pb_Appendix q \<noteq> []"
    and "card (dom (tab w (KEY_POSTBOX @ pb_Receiver p))) = n" and "n < 2 ^ 32"
  shows "\<exists>v w'. OpenAppendix N J now p w = Some ((pb_Appendix q, None), w') \<and>
    tab w' = (tab w)(KEY_POSTBOX @ pb_Receiver p := (tab w (KEY_POSTBOX @ pb_Receiver p))(fmt_nat n \<mapsto> v))"
  using Post_Save_run [of w "q\<lparr>pb_Draw := True\<rparr>" n J now] assms Post_Get_run [OF assms(1,2)]
  by (auto simp: OpenAppendix_def)

lemma draws_run:
  assumes "tab w (KEY_POSTBOX @ pb_Receiver p) (fmt_nat (unat (pb_Id p))) = Some t" and "dec J t p = (q, True)"
    and "pb_Receiver q = pb_Receiver p" and "pb_Appendix q \<noteq> []"
    and "unat (pb_Id p) < card (dom (tab w (KEY_POSTBOX @ pb_Receiver p)))"
    and "card (dom (tab w (KEY_POSTBOX @ pb_Receiver p))) + k \<le> 2 ^ 32"
  shows "\<exists>w'. draws N J now p k w = Some (replicate k (pb_Appendix q, None), w') \<and>
    tab w' (KEY_POSTBOX @ pb_Receiver p) (fmt_nat (unat (pb_Id p))) = Some t"
  using assms
proof (induction k arbitrary: w)
  case (Suc k)
  let ?box = "KEY_POSTBOX @ pb_Receiver p" and ?n = "card (dom (tab w (KEY_POSTBOX @ pb_Receiver p)))"
  from OpenAppendix_run [OF Suc.prems(1-4) refl, of "now k"] Suc.prems(6) obtain v w1 where
    w1: "OpenAppendix N J (now k) p w = Some ((pb_Appendix q, None), w1)"
      "tab w1 = (tab w)(?box := (tab w ?box)(fmt_nat ?n \<mapsto> v))" by auto
  have stored: "tab w1 ?box (fmt_nat (unat (pb_Id p))) = Some t" using Suc.prems(1,5) by (simp add: w1(2))
  have "card (dom (tab w1 ?box)) \<ge> ?n" "card (dom (tab w1 ?box)) \<le> Suc ?n"
    using finite_tab [of w ?box] by (auto simp: w1(2) card_insert_if)
  then have "unat (pb_Id p) < card (dom (tab w1 ?box))" "card (dom (tab w1 ?box)) + k \<le> 2 ^ 32" using Suc.prems(5,6) by auto
  from Suc.IH [OF stored Suc.prems(2-4) this] w1(1) show ?case by auto
qed simp

end

text \<open>
  C5.  The appendix of a letter can be drawn again and again.  Let a letter with an appendix be stored under its number in the
  box of its receiver, the number smaller than the count of letters in the box.  Then any number \<open>k\<close> of calls of \<open>OpenAppendix\<close> for it, at
  whatever times, all succeed and return the appendix: \<open>OpenAppendix\<close> marks the letter as drawn, but \<open>Save\<close> stores it under
  another number, the count of letters, so that the letter itself stays as it was.
\<close>

theorem appendix_drawn_again:
  assumes "ssdb_hash N tab" and "tab w (KEY_POSTBOX @ pb_Receiver p) (fmt_nat (unat (pb_Id p))) = Some t"
    and "dec J t p = (q, True)" and "pb_Receiver q = pb_Receiver p" and "pb_Appendix q \<noteq> []"
    and "unat (pb_Id p) < card (dom (tab w (KEY_POSTBOX @ pb_Receiver p)))"
    and "card (dom (tab w (KEY_POSTBOX @ pb_Receiver p))) + k \<le> 2 ^ 32"
  shows "\<exists>w'. draws N J now p k w = Some (replicate k (pb_Appendix q, None), w') \<and>
    tab w' (KEY_POSTBOX @ pb_Receiver p) (fmt_nat (unat (pb_Id p))) = Some t"
  by (rule ssdb_hash.draws_run [OF assms])

definition ref_letter :: data_postbox where
  "ref_letter = empty_post\<lparr>pb_Receiver := ''7'', pb_Appendix := [\<lparr>wd_Id = 1, wd_Count = 100\<rparr>]\<rparr>"

definition ref_letter_codec :: "data_postbox codec" where
  "ref_letter_codec = \<lparr>enc = (\<lambda>_. ''L''), dec = (\<lambda>s x. (ref_letter, True))\<rparr>"

lemma appendix_drawn_again_witness:
  "\<exists>w'. draws ref_net ref_letter_codec int (empty_post\<lparr>pb_Receiver := ''7''\<rparr>) 3
      (put_tab ref_empty (KEY_POSTBOX @ ''7'') [(fmt_nat 0, ''L'')]) =
    Some (replicate 3 ([\<lparr>wd_Id = 1, wd_Count = 100\<rparr>], None), w')"
proof -
  let ?w = "put_tab ref_empty (KEY_POSTBOX @ ''7'') [(fmt_nat 0, ''L'')]"
  let ?p = "empty_post\<lparr>pb_Receiver := ''7''\<rparr>"
  have "ref_tab ?w (KEY_POSTBOX @ pb_Receiver ?p) (fmt_nat (unat (pb_Id ?p))) = Some ''L''"
    "card (dom (ref_tab ?w (KEY_POSTBOX @ pb_Receiver ?p))) = 1"
    by (simp_all add: ref_tab_def empty_post_def)
  moreover have "dec ref_letter_codec ''L'' ?p = (ref_letter, True)" "pb_Receiver ref_letter = pb_Receiver ?p"
    "pb_Appendix ref_letter \<noteq> []" "unat (pb_Id ?p) < 1"
    by (simp_all add: ref_letter_codec_def ref_letter_def empty_post_def)
  ultimately show ?thesis
    using appendix_drawn_again [OF ref_hashes.ssdb_hash_axioms, of ?w ?p "''L''" ref_letter_codec ref_letter 3 int]
    by (auto simp: ref_letter_def)
qed

section \<open>Letters that are lost\<close>

context ssdb
begin

lemma log_all_run:
  assumes "net E = N" and "\<And>v. adminID (r v) = user"
  shows "\<exists>w'. log_all E now r vs s = Some (s\<lparr>db := w'\<rparr>) \<and> tab w' = tab (db s) \<and>
    lst w' = (lst (db s))(ADMIN_RECORD @ user := rev (map (\<lambda>v. enc (jrecord E) ((r v)\<lparr>timestamp := now\<rparr>)) vs) @ lst (db s) (ADMIN_RECORD @ user))"
proof (induction vs arbitrary: s)
  case (Cons v vs)
  let ?r = "(r v)\<lparr>timestamp := now\<rparr>"
  from Qpush_front_both [of "ADMIN_RECORD @ adminID ?r" "json_val (jrecord E) ?r" "db s"] assms obtain w1 where
    w1: "log_op E now (r v) s = Some (s\<lparr>db := w1\<rparr>)" "tab w1 = tab (db s)"
      "lst w1 = (lst (db s))(ADMIN_RECORD @ user := enc (jrecord E) ?r # lst (db s) (ADMIN_RECORD @ user))"
    by (auto simp: log_op_def AdminRecord_Save_def)
  have s1: "db (s\<lparr>db := w1\<rparr>) = w1" "\<And>w. s\<lparr>db := w1\<rparr>\<lparr>db := w\<rparr> = s\<lparr>db := w\<rparr>" by simp_all
  from Cons [of "s\<lparr>db := w1\<rparr>", unfolded s1] obtain w2 where "log_all E now r vs (s\<lparr>db := w1\<rparr>) = Some (s\<lparr>db := w2\<rparr>)" "tab w2 = tab w1"
    "lst w2 = (lst w1)(ADMIN_RECORD @ user := rev (map (\<lambda>v. enc (jrecord E) ((r v)\<lparr>timestamp := now\<rparr>)) vs) @ lst w1 (ADMIN_RECORD @ user))"
    by blast
  with w1 show ?case by (intro exI [of _ w2]) (auto simp: fun_eq_iff)
next
  case Nil
  show ?case by (rule exI [of _ "db s"]) simp
qed

end

lemma split_commas_ne [simp]: "split_commas s \<noteq> []"
  by (induction s) (auto split: list.splits)

text \<open>The entry in the operation log that says that \<open>v\<close> was sent the letter of the request.\<close>

definition letter_entry :: "int \<Rightarrow> string \<Rightarrow> request \<Rightarrow> string \<Rightarrow> admin_record" where
  "letter_entry now user c v =
     (let r = empty_record\<lparr>adminID := user, rkind := OPERATE_KIND_SEND_MAIL, target := v, rdesc := form c ''Title'', timestamp := now\<rparr>
      in if fst (Atoi (form c ''Kind'')) = 3
         then r\<lparr>rcount := snd (widget_of c), windgetID := of_int (fst (widget_of c))\<rparr> else r)"

text \<open>
  The letter does not get through: no connection has been made and none can be, or no call is answered, whether there was
  a connection or not and whether a new one can be made or not.
\<close>

definition unanswered :: "'p peer \<Rightarrow> bool \<times> 'p \<Rightarrow> bool" where
  "unanswered G cl \<longleftrightarrow> (\<not> fst cl \<and> \<not> fst (dial G (snd cl))) \<or> (\<forall>m a p. fst (invoke G m a p) = None)"

lemma unanswered_ok: "unanswered G cl \<Longrightarrow> fst (EmailReceiverArgs_Call G a cl)"
proof (cases cl)
  case (Pair con p)
  assume "unanswered G cl"
  then consider "\<not> con" "\<not> fst (dial G p)" | "\<And>m a p. invoke G m a p = (None, snd (invoke G m a p))"
    by (auto simp: unanswered_def Pair prod_eq_iff)
  then show ?thesis
  proof cases
    case 1
    then show ?thesis by (simp add: EmailReceiverArgs_Call_def rpc_Call_def Pair case_prod_beta)
  next
    case 2
    then have none: "fst (invoke G m a p) = None" for m a p by (metis fst_conv)
    have "fst (fst (rpc_Call G m a True cl))" for m
      using none by (auto simp: rpc_Call_def Pair Let_def split: prod.splits option.splits bool.splits if_splits) (metis fst_conv option.distinct(1))+
    then show ?thesis by (simp add: EmailReceiverArgs_Call_def case_prod_beta)
  qed
qed

text \<open>
  C18.  Letters can get lost without notice.  A logged-in administrator sends a letter, all ids of the receivers are numbers,
  and the game server does not answer, be it that no connection can be made or that the calls over the connection fail.
  Then \<open>Postbox\<close> answers that all went well and writes into the operation log of the administrator, for every receiver in
  turn, that the letter was sent, because \<open>EmailReceiverArgs.Call\<close> starts from the reply \<open>true\<close> and drops the error of the
  call.  Nothing else in the database changes.
\<close>

theorem Postbox_reports_lost_letters:
  assumes "ssdb (net E) tab lst" and "GetCurrentUserID now c s = user" and "user \<noteq> ''''"
    and "list_all (\<lambda>v. snd (Atoi v)) (split_commas (form c ''UserIds''))"
    and "unanswered G cl"
  shows "\<exists>cl' w'. Postbox G E now c (cl, s) = Some (OpOk, cl', s\<lparr>db := w'\<rparr>) \<and> tab w' = tab (db s) \<and>
    lst w' = (lst (db s))(ADMIN_RECORD @ user :=
      rev (map (\<lambda>v. enc (jrecord E) (letter_entry now user c v)) (split_commas (form c ''UserIds''))) @ lst (db s) (ADMIN_RECORD @ user))"
proof -
  obtain wt cnt where wd: "widget_of c = (wt, cnt)" by fastforce
  let ?ids = "split_commas (form c ''UserIds'')" and ?kind = "fst (Atoi (form c ''Kind''))"
  let ?r0 = "\<lambda>v. empty_record\<lparr>adminID := user, rkind := OPERATE_KIND_SEND_MAIL, target := v, rdesc := form c ''Title''\<rparr>"
  let ?r = "\<lambda>v. if ?kind = 3 then (?r0 v)\<lparr>rcount := cnt, windgetID := of_int wt\<rparr> else ?r0 v"
  have adm: "\<And>v. adminID (?r v) = user" by simp
  have entry: "(?r v)\<lparr>timestamp := now\<rparr> = letter_entry now user c v" for v by (simp add: letter_entry_def wd)
  from ssdb.log_all_run [where r = ?r and vs = ?ids and s = s and now = now, OF assms(1) refl adm] obtain w' where
    w': "log_all E now ?r ?ids s = Some (s\<lparr>db := w'\<rparr>)" "tab w' = tab (db s)"
      "lst w' = (lst (db s))(ADMIN_RECORD @ user := rev (map (\<lambda>v. enc (jrecord E) (letter_entry now user c v)) ?ids) @ lst (db s) (ADMIN_RECORD @ user))"
    unfolding entry by blast
  have ids: "\<not> (\<exists>v\<in>set ?ids. \<not> snd (Atoi v))" using assms(4) by (simp add: list_all_iff)
  have "\<exists>cl'. Postbox G E now c (cl, s) = Some (OpOk, cl', s\<lparr>db := w'\<rparr>)"
    by (cases "?kind = 3")
      (use w'(1) ids assms(2,3) unanswered_ok [OF assms(5)] in \<open>simp_all add: Postbox_def wd Let_def case_prod_beta del: split_paired_Ex\<close>)
  with w'(2,3) show ?thesis by blast
qed

definition ref_sender :: request where
  "ref_sender = \<lparr>form = (\<lambda>k. if k = ''UserIds'' then ''7,8'' else ''''), realIP = ''1.2.3.4'', login_cookie = Some ''key''\<rparr>"

definition ref_online :: "rdb app" where
  "ref_online = \<lparr>sess = [''key'' \<mapsto> \<lparr>username = ''bob'', password = ''secret'', expire = 5\<rparr>], lims = Map.empty, db = ref_empty\<rparr>"

lemma Postbox_reports_lost_letters_witness:
  "\<exists>cl w'. Postbox \<lparr>dial = (\<lambda>p. (False, p)), invoke = (\<lambda>_ _ p. (None, p))\<rparr> ref_env 0 ref_sender ((True, ()), ref_online) =
      Some (OpOk, cl, ref_online\<lparr>db := w'\<rparr>) \<and> length (rlst w' (ADMIN_RECORD @ ''bob'')) = 2"
proof -
  have "net ref_env = ref_net" by simp
  moreover have "GetCurrentUserID 0 ref_sender ref_online = ''bob''"
    by (simp add: GetCurrentUserID_def GetCurrentSession_def Sessions_Get_def ref_sender_def ref_online_def)
  moreover have "split_commas (form ref_sender ''UserIds'') = [''7'', ''8'']" by (simp add: ref_sender_def)
  moreover have "snd (Atoi ''7'')" "snd (Atoi ''8'')"
    by (simp_all add: Atoi_def ParseInt_def parse_signed_def ParseUint_def is_digit_def digit_val_def)
  moreover have "rlst (db ref_online) (ADMIN_RECORD @ ''bob'') = []" by (simp add: ref_online_def ref_empty_def)
  ultimately obtain cl w' where "Postbox \<lparr>dial = (\<lambda>p. (False, p)), invoke = (\<lambda>_ _ p. (None, p))\<rparr> ref_env 0 ref_sender ((True, ()), ref_online) =
      Some (OpOk, cl, ref_online\<lparr>db := w'\<rparr>)" "length (rlst w' (ADMIN_RECORD @ ''bob'')) = 2"
    using Postbox_reports_lost_letters [of ref_env ref_tab rlst 0 ref_sender ref_online "''bob''"
        "\<lparr>dial = (\<lambda>p. (False, p)), invoke = (\<lambda>_ _ p. (None, p))\<rparr>" "(True, ())"] ref_server.ssdb_axioms
    by (auto simp: unanswered_def)
  then show ?thesis by blast
qed

end
