(* ===== verification/Statistics.thy ===== *)
theory Statistics
  imports Letters "HOL-Library.List_Lexorder" "HOL-Library.Char_ord"
begin

text \<open>
  The figures of the game: \<^verbatim>\<open>data_newuser.go\<close> and \<^verbatim>\<open>data_online.go\<close> of \<^verbatim>\<open>src/data\<close>, and the handlers of
  \<^verbatim>\<open>src/statistics\<close>.  A day is the \<open>uint32\<close> time at which it begins.  The operations on \<open>float32\<close> are the
  parameter \<open>F\<close>, and \<open>it\<close> is the order in which Go walks through a map.
\<close>

section \<open>New players and players online\<close>

record newuser_statistics =
  nu_Unix :: u32
  nu_Userid :: string

record newuser_count =
  nc_Unix :: u32
  nc_Count :: u32

record online_statistics =
  os_Unix :: u32
  os_Count :: u32

definition KEY_ONLINE_STATISTICS :: string where "KEY_ONLINE_STATISTICS = ''online_statistics''"
definition KEY_NEWUSER_STATISTICS :: string where "KEY_NEWUSER_STATISTICS = ''newuser_statistics''"
definition KEY_NEWUSER_STATISTICS_QUE :: string where "KEY_NEWUSER_STATISTICS_QUE = ''newuser_statistics_queue''"
definition KEY_ACTIVE_STATISTICS :: string where "KEY_ACTIVE_STATISTICS = ''active_statistics''"

type_synonym walk = "(string \<rightharpoonup> val) \<Rightarrow> (string \<times> val) list"

definition GetAllNewuser ::
  "'w net \<Rightarrow> walk \<Rightarrow> string \<Rightarrow> 'w \<Rightarrow> ((newuser_statistics list \<times> error option) \<times> 'w) option" where
  "GetAllNewuser N it ts w = do {
     ((value, err), w) \<leftarrow> MultiHgetAll N (KEY_NEWUSER_STATISTICS @ ts) w;
     Some (if err \<noteq> None then ([], err)
           else (map (\<lambda>(k, v). \<lparr>nu_Unix = of_nat (Value_UInt32 v), nu_Userid = k\<rparr>) (it value), None), w)
   }"

definition GetNewUserStatitics ::
  "'w net \<Rightarrow> newuser_count codec \<Rightarrow> string \<Rightarrow> 'w \<Rightarrow> (newuser_count list \<times> 'w) option" where
  "GetNewUserStatitics N J ts w = do {
     ((value, _), w) \<leftarrow> Qslice N (KEY_NEWUSER_STATISTICS_QUE @ ts) 0 (- 1) w;
     Some (keep_json J \<lparr>nc_Unix = 0, nc_Count = 0\<rparr> value, w)
   }"

definition GetOnlineStatitics ::
  "'w net \<Rightarrow> online_statistics codec \<Rightarrow> string \<Rightarrow> 'w \<Rightarrow> (online_statistics list \<times> bool) \<times> 'w" where
  "GetOnlineStatitics N J ts w =
     (case Client_Do N [AStr ''qslice'', AStr (KEY_ONLINE_STATISTICS @ ts), AInt 0, AInt (- 1)] w of
        (None, w) \<Rightarrow> (([], False), w)
      | (Some resp, w) \<Rightarrow>
          ((if length resp \<ge> 1 \<and> resp ! 0 = ''ok'' then keep_json J \<lparr>os_Unix = 0, os_Count = 0\<rparr> (drop 1 resp) else [], True), w))"

text \<open>A panic inside \<open>Save\<close> is caught and logged; here it is \<open>None\<close>.\<close>

definition Online_Save ::
  "'w net \<Rightarrow> online_statistics codec \<Rightarrow> int \<Rightarrow> int \<Rightarrow> online_statistics \<Rightarrow> 'w \<Rightarrow> (error option \<times> 'w) option" where
  "Online_Save N J today now d w = do {
     let ts = fmt_int today;
     ((value, err), w) \<leftarrow> Qback N (KEY_ONLINE_STATISTICS @ ts) w;
     (if err = None \<and> (case as_json J value \<lparr>os_Unix = 0, os_Count = 0\<rparr> of (prv, err) \<Rightarrow> err = None \<and> of_int now - os_Unix prv < 300)
      then Some (None, w)
      else do {
        ((_, err), w) \<leftarrow> Qpush_back N (KEY_ONLINE_STATISTICS @ ts) [json_val J d] w;
        Some (err, w)
      })
   }"

datatype stat_reply = DateOutOfRange | NoDayData | StartAfterEnd

definition NewUser ::
  "'w net \<Rightarrow> newuser_count codec \<Rightarrow> int \<Rightarrow> request \<Rightarrow> 'w \<Rightarrow> ((stat_reply + newuser_count list) \<times> 'w) option" where
  "NewUser N J today c w =
     (let unix = fst (ParseInt 64 (form c ''Unix''))
      in if unix \<le> 0 then Some (Inl DateOutOfRange, w)
         else if unix > today then Some (Inl DateOutOfRange, w)
         else do { (list, w) \<leftarrow> GetNewUserStatitics N J (form c ''Unix'') w; Some (Inr list, w) })"

definition Online ::
  "'w net \<Rightarrow> online_statistics codec \<Rightarrow> int \<Rightarrow> request \<Rightarrow> 'w \<Rightarrow> (stat_reply + online_statistics list) \<times> 'w" where
  "Online N J today c w =
     (let unix = fst (ParseInt 64 (form c ''Unix''))
      in if unix \<le> 0 then (Inl DateOutOfRange, w)
         else if unix > today then (Inl DateOutOfRange, w)
         else (case GetOnlineStatitics N J (form c ''Unix'') w of
                 ((list, good), w) \<Rightarrow> (if good then Inr list else Inl NoDayData, w)))"

section \<open>Daily figures\<close>

record 'f f32 =
  fzero :: 'f
  fadd :: "'f \<Rightarrow> 'f \<Rightarrow> 'f"
  fmul :: "'f \<Rightarrow> 'f \<Rightarrow> 'f"
  fdiv :: "'f \<Rightarrow> 'f \<Rightarrow> 'f"
  fint :: "int \<Rightarrow> 'f"
  fu32 :: "'f \<Rightarrow> u32"

record 'f basic_statistics =
  bs_Timestamp :: u32
  bs_Keep1 :: u32
  bs_Keep3 :: u32
  bs_Keep7 :: u32
  bs_Keep30 :: u32
  bs_Active :: u32
  bs_NewCount :: u32
  bs_ActiveARPU :: u32
  bs_ARPU :: u32
  bs_RegistARPU :: u32
  bs_ExpenseRate :: u32
  bs_ExpenseAll :: 'f
  bs_ExpenseCount :: u32
  bs_ExpenseNewCount :: u32

text \<open>The share of the players that were new \<open>dayNum\<close> days before \<open>unix\<close> among those active on \<open>unix\<close>, in percent.\<close>

definition getKeep :: "'w net \<Rightarrow> walk \<Rightarrow> u32 \<Rightarrow> u32 \<Rightarrow> 'w \<Rightarrow> (u32 \<times> 'w) option" where
  "getKeep N it unix dayNum w = do {
     let unixstr = fmt_nat (unat unix);
     let lastDay = fmt_nat (unat (unix - dayNum * 86400));
     ((activeList, err), w) \<leftarrow> HgetAll N (KEY_ACTIVE_STATISTICS @ unixstr) w;
     (if err \<noteq> None \<or> length (it activeList) = 0 then Some (0, w)
      else do {
        ((newusers, err), w) \<leftarrow> GetAllNewuser N it lastDay w;
        (if err \<noteq> None \<or> length newusers = 0 then Some (0, w)
         else (let cnt = length (filter (\<lambda>v. activeList (nu_Userid v) \<noteq> None) newusers)
               in Some (of_int (go_quot (int cnt) (int (length newusers)) * 100), w)))
      })
   }"

text \<open>The figures of one day with \<open>active\<close> active players.\<close>

definition day_statistics ::
  "'f f32 \<Rightarrow> 'w net \<Rightarrow> walk \<Rightarrow> 'f trading_results codec \<Rightarrow> u32 \<Rightarrow> int \<Rightarrow> 'w \<Rightarrow> ('f basic_statistics \<times> 'w) option" where
  "day_statistics F N it J start active w = do {
     let unixstr = fmt_nat (unat start);
     ((newuser, _), w) \<leftarrow> Qsize N (KEY_NEWUSER_STATISTICS @ unixstr) w;
     ((allTransition, err), w) \<leftarrow> GetAllTransition N J (fzero F) unixstr w;
     let trans = (if err \<noteq> None then [] else allTransition);
     let transHash = remdups (map tr_Appuserid trans);
     let allMoney = foldl (\<lambda>m v. fadd F m (tr_Money v)) (fzero F) trans;
     ((newusers, err), w) \<leftarrow> GetAllNewuser N it unixstr w;
     let newuserChargeCount = (if err \<noteq> None then 0 else length (filter (\<lambda>v. nu_Userid v \<in> set transHash) newusers));
     let chargePlayerCount = length transHash;
     let arpu = fdiv F allMoney (fint F (int chargePlayerCount));
     let activeARPU = fdiv F allMoney (fint F active);
     let rate = go_quot (int chargePlayerCount) active;
     let registARPU = fdiv F allMoney (fint F newuser);
     let percent = (\<lambda>x. fu32 F (fmul F x (fint F 100)));
     (keep1, w) \<leftarrow> getKeep N it start 1 w;
     (keep3, w) \<leftarrow> getKeep N it start 3 w;
     (keep7, w) \<leftarrow> getKeep N it start 7 w;
     (keep30, w) \<leftarrow> getKeep N it start 30 w;
     Some (\<lparr>bs_Timestamp = start, bs_Keep1 = keep1, bs_Keep3 = keep3, bs_Keep7 = keep7, bs_Keep30 = keep30,
        bs_Active = of_int active, bs_NewCount = of_int newuser, bs_ActiveARPU = percent activeARPU, bs_ARPU = percent arpu,
        bs_RegistARPU = percent registARPU, bs_ExpenseRate = of_int (rate * 100), bs_ExpenseAll = allMoney,
        bs_ExpenseCount = of_nat chargePlayerCount, bs_ExpenseNewCount = of_nat newuserChargeCount\<rparr>, w)
   }"

text \<open>The loop over the days.  It need not end when \<open>start\<close> wraps around, so it is a partial function.\<close>

partial_function (option) stat_loop ::
  "'f f32 \<Rightarrow> 'w net \<Rightarrow> walk \<Rightarrow> 'f trading_results codec \<Rightarrow> u32 \<Rightarrow> u32 \<Rightarrow> 'f basic_statistics list \<Rightarrow> 'w \<Rightarrow>
     ('f basic_statistics list \<times> 'w) option" where
  "stat_loop F N it J start stop m w =
     Option.bind (Hsize N (KEY_ACTIVE_STATISTICS @ fmt_nat (unat start)) w) (\<lambda>((active, err), w).
       if err \<noteq> None \<or> active = 0 then
         (let start = start + 86400 in if start \<ge> stop then Some (m, w) else stat_loop F N it J start stop m w)
       else Option.bind (day_statistics F N it J start active w) (\<lambda>(d, w).
         (let start = start + 86400 in if start > stop then Some (m @ [d], w) else stat_loop F N it J start stop (m @ [d]) w)))"

definition generateBaseStatitics ::
  "'f f32 \<Rightarrow> 'w net \<Rightarrow> walk \<Rightarrow> 'f trading_results codec \<Rightarrow> u32 \<Rightarrow> u32 \<Rightarrow> 'w \<Rightarrow> ('f basic_statistics list \<times> 'w) option" where
  "generateBaseStatitics F N it J start stop w = stat_loop F N it J start stop [] w"

definition Index ::
  "'f f32 \<Rightarrow> 'w net \<Rightarrow> walk \<Rightarrow> 'f trading_results codec \<Rightarrow> int \<Rightarrow> request \<Rightarrow> 'w \<Rightarrow> ((stat_reply + 'f basic_statistics list) \<times> 'w) option" where
  "Index F N it J today c w =
     (let unixEnd = fst (ParseInt 64 (form c ''UnixEnd''));
          unixStart = fst (ParseInt 64 (form c ''UnixStart''));
          days = (\<lambda>a b. do { (m, w) \<leftarrow> generateBaseStatitics F N it J (of_int a) (of_int b) w; Some (Inr m, w) })
      in if unixEnd \<le> 0 \<or> unixStart \<le> 0 then days today today
         else if unixEnd > today then Some (Inl DateOutOfRange, w)
         else if unixStart > unixEnd then Some (Inl StartAfterEnd, w)
         else days unixStart unixEnd)"

section \<open>The figures on a database that keeps its contract\<close>

locale stat_db = ssdb N tab lst
  for N :: "'w net" and tab :: "'w \<Rightarrow> string \<Rightarrow> string \<rightharpoonup> string" and lst :: "'w \<Rightarrow> string \<Rightarrow> string list" +
  fixes it :: walk
  assumes walks: "finite (dom m) \<Longrightarrow> distinct (map fst (it m)) \<and> map_of (it m) = m"
begin

definition active_on :: "'w \<Rightarrow> u32 \<Rightarrow> string set" where
  "active_on w d = dom (tab w (KEY_ACTIVE_STATISTICS @ fmt_nat (unat d)))"

definition new_on :: "'w \<Rightarrow> u32 \<Rightarrow> string set" where
  "new_on w d = dom (tab w (KEY_NEWUSER_STATISTICS @ fmt_nat (unat d)))"

lemma it_tab: "set (map fst (it (tab w n))) = dom (tab w n)" "it (tab w n) = [] \<longleftrightarrow> dom (tab w n) = {}"
proof -
  have m: "map_of (it (tab w n)) = tab w n" using walks [OF finite_tab] by blast
  show keys: "set (map fst (it (tab w n))) = dom (tab w n)" using dom_map_of_conv_image_fst [of "it (tab w n)"] m by simp
  show "it (tab w n) = [] \<longleftrightarrow> dom (tab w n) = {}" unfolding keys [symmetric] by simp
qed

lemma GetAllNewuser_run: "\<exists>ns. GetAllNewuser N it (fmt_nat (unat d)) w = Some ((ns, None), w) \<and> set (map nu_Userid ns) = new_on w d"
proof -
  let ?m = "tab w (KEY_NEWUSER_STATISTICS @ fmt_nat (unat d))"
  let ?ns = "map (\<lambda>(k, v). \<lparr>nu_Unix = of_nat (Value_UInt32 v), nu_Userid = k\<rparr>) (it ?m)"
  have "map nu_Userid ?ns = map fst (it ?m)" by (simp add: case_prod_unfold comp_def)
  then have "set (map nu_Userid ?ns) = new_on w d" using it_tab(1) [of w] by (simp only: new_on_def)
  then show ?thesis by (intro exI [of _ ?ns]) (simp add: GetAllNewuser_def MultiHgetAll_run)
qed

text \<open>The quotient of the counts is 0 unless all are counted.\<close>

lemma quot_filter: "xs \<noteq> [] \<Longrightarrow> go_quot (int (length (filter P xs))) (int (length xs)) = (if \<forall>x\<in>set xs. P x then 1 else 0)"
proof (cases "\<forall>x\<in>set xs. P x")
  case False
  then have "length (filter P xs) < length xs" by (meson length_filter_less)
  then show ?thesis using False by (simp add: go_quot_def)
qed (simp add: go_quot_def)

lemma getKeep_run: "getKeep N it d k w =
    Some (if active_on w d \<noteq> {} \<and> new_on w (d - k * 86400) \<noteq> {} \<and> new_on w (d - k * 86400) \<subseteq> active_on w d then 100 else 0, w)"
proof -
  obtain ns where ns: "GetAllNewuser N it (fmt_nat (unat (d - k * 86400))) w = Some ((ns, None), w)"
    "set (map nu_Userid ns) = new_on w (d - k * 86400)" using GetAllNewuser_run by blast
  then have ne: "ns = [] \<longleftrightarrow> new_on w (d - k * 86400) = {}" by (metis list.simps(8) map_is_Nil_conv set_empty)
  have "(\<forall>v\<in>set ns. tab w (KEY_ACTIVE_STATISTICS @ fmt_nat (unat d)) (nu_Userid v) \<noteq> None) \<longleftrightarrow>
      new_on w (d - k * 86400) \<subseteq> active_on w d" unfolding ns(2) [symmetric] active_on_def by auto
  then show ?thesis
    using ne it_tab(2) [of w "KEY_ACTIVE_STATISTICS @ fmt_nat (unat d)"]
    by (auto simp: getKeep_def Let_def HgetAll_def MultiHgetAll_run ns(1) quot_filter active_on_def)
qed

lemma Qsize_some: "\<exists>i. Qsize N n w = Some ((i, None), w)"
  using qsize [of w n] by (simp add: Qsize_def run_simps reply_simps)

lemma day_statistics_run: "\<exists>x. day_statistics F N it J d a w = Some (x, w) \<and> bs_Timestamp x = d"
proof -
  from Qsize_some obtain i where i: "Qsize N (KEY_NEWUSER_STATISTICS @ fmt_nat (unat d)) w = Some ((i, None), w)" by blast
  from GetAllNewuser_run obtain ns where ns: "GetAllNewuser N it (fmt_nat (unat d)) w = Some ((ns, None), w)" by blast
  show ?thesis by (simp add: day_statistics_def Let_def i ns GetAllTransition_def Qslice_run getKeep_run)
qed

text \<open>The days of a report: every active day, but the last one only if the day before it was active.\<close>

lemma unat_day: "unat start + 86400 * n + 86400 < 2 ^ 32 \<Longrightarrow> j \<le> Suc n \<Longrightarrow> unat (start + of_nat (86400 * j)) = unat start + 86400 * j"
  for start :: u32
  by (subst unat_word_ariths(1)) (simp add: unat_of_nat take_bit_eq_mod del: of_nat_mult)

lemma Hsize_active:
  assumes "card (active_on w d) < 2 ^ 63"
  shows "\<exists>a. Hsize N (KEY_ACTIVE_STATISTICS @ fmt_nat (unat d)) w = Some ((a, None), w) \<and> (a = 0 \<longleftrightarrow> active_on w d = {})"
  using assms Hsize_run [of w "KEY_ACTIVE_STATISTICS @ fmt_nat (unat d)"] finite_tab
  by (simp add: active_on_def card_eq_0_iff)

lemma stat_loop_days:
  assumes "unat start + 86400 * n + 86400 < 2 ^ 32" and "i \<le> n"
    and "\<And>d. card (active_on w d) < 2 ^ 63"
    and "i = n \<and> 0 < i \<Longrightarrow> active_on w (start + of_nat (86400 * (i - 1))) \<noteq> {}"
  shows "\<exists>m'. stat_loop F N it J (start + of_nat (86400 * i)) (start + of_nat (86400 * n)) m w = Some (m', w) \<and>
    map bs_Timestamp m' = map bs_Timestamp m @ map (\<lambda>i. start + of_nat (86400 * i))
      (filter (\<lambda>i. active_on w (start + of_nat (86400 * i)) \<noteq> {} \<and>
         (i = n \<and> 0 < i \<longrightarrow> active_on w (start + of_nat (86400 * (i - 1))) \<noteq> {})) [i..<Suc n])"
  using assms(2,4)
proof (induction "n - i" arbitrary: i m rule: less_induct)
  case less
  let ?day = "\<lambda>j. start + of_nat (86400 * j)" and ?act = "\<lambda>j. active_on w (start + of_nat (86400 * j)) \<noteq> {}"
  let ?P = "\<lambda>j. ?act j \<and> (j = n \<and> 0 < j \<longrightarrow> ?act (j - 1))"
  have next_day: "?day i + 86400 = ?day (Suc i)" by simp
  have cmp: "?day (Suc i) \<ge> ?day n \<longleftrightarrow> n \<le> Suc i" "?day (Suc i) > ?day n \<longleftrightarrow> i = n"
    using less.prems(1) unat_day [OF assms(1), of n] unat_day [OF assms(1), of "Suc i"]
    by (simp_all only: word_le_nat_alt word_less_nat_alt) auto
  from Hsize_active [OF assms(3), of "?day i"] obtain a where
    a: "Hsize N (KEY_ACTIVE_STATISTICS @ fmt_nat (unat (?day i))) w = Some ((a, None), w)" "a = 0 \<longleftrightarrow> \<not> ?act i" by blast
  have rest: "[i..<Suc n] = i # [Suc i..<Suc n]" using less.prems(1) by (simp add: upt_rec [of i])
  show ?case
  proof (cases "?act i")
    case False
    then have "a = 0" using a(2) by simp
    then have step: "stat_loop F N it J (?day i) (?day n) m w =
        (if n \<le> Suc i then Some (m, w) else stat_loop F N it J (?day (Suc i)) (?day n) m w)"
      by (subst stat_loop.simps) (simp only: a(1) Option.bind.bind_lunit prod.case next_day cmp Let_def simp_thms if_True)
    show ?thesis
    proof (cases "n \<le> Suc i")
      case True
      then have "i = n \<or> n = Suc i" using less.prems(1) by auto
      then have "filter ?P [i..<Suc n] = []" using False by auto
      then show ?thesis using step True by simp
    next
      case later: False
      have "filter ?P [i..<Suc n] = filter ?P [Suc i..<Suc n]" using False unfolding rest by simp
      then show ?thesis using step later less.hyps [of "Suc i" m] less.prems(1) by simp
    qed
  next
    case True
    then have "a \<noteq> 0" using a(2) by simp
    obtain x where x: "day_statistics F N it J (?day i) a w = Some (x, w)" "bs_Timestamp x = ?day i"
      using day_statistics_run by blast
    have step: "stat_loop F N it J (?day i) (?day n) m w =
        (if i = n then Some (m @ [x], w) else stat_loop F N it J (?day (Suc i)) (?day n) (m @ [x]) w)"
      using \<open>a \<noteq> 0\<close>
      by (subst stat_loop.simps) (simp only: a(1) x(1) Option.bind.bind_lunit prod.case next_day cmp Let_def simp_thms if_False)
    have "?P i" using True less.prems(2) by blast
    then have days: "filter ?P [i..<Suc n] = i # filter ?P [Suc i..<Suc n]" unfolding rest by simp
    show ?thesis
    proof (cases "i = n")
      case True
      then show ?thesis unfolding days using step x(2) by simp
    next
      case False
      then have "n - Suc i < n - i" "Suc i \<le> n" using less.prems(1) by simp_all
      moreover have "Suc i = n \<and> 0 < Suc i \<Longrightarrow> ?act (Suc i - 1)" using \<open>?act i\<close> by (clarsimp simp del: of_nat_mult)
      ultimately obtain m' where "stat_loop F N it J (?day (Suc i)) (?day n) (m @ [x]) w = Some (m', w)"
        "map bs_Timestamp m' = map bs_Timestamp (m @ [x]) @ map ?day (filter ?P [Suc i..<Suc n])"
        using less.hyps [of "Suc i" "m @ [x]"] by blast
      then show ?thesis unfolding days step using False x(2) by (simp del: upt_Suc)
    qed
  qed
qed

end

text \<open>A walk through a map in the order of its keys.\<close>

definition key_walk :: walk where
  "key_walk m = map (\<lambda>k. (k, the (m k))) (sorted_list_of_set (dom m))"

interpretation ref_stat: stat_db ref_net ref_tab rlst key_walk
proof
  fix m :: "string \<rightharpoonup> val"
  assume fin: "finite (dom m)"
  have keys: "map fst (key_walk m) = sorted_list_of_set (dom m)" by (simp add: key_walk_def comp_def)
  have "map_of (key_walk m) k = m k" for k
  proof (cases "k \<in> dom m")
    case True
    then have "(k, the (m k)) \<in> set (key_walk m)" using fin by (simp add: key_walk_def)
    then show ?thesis using True keys by (auto intro!: map_of_is_SomeI)
  next
    case False
    then have "k \<notin> fst ` set (key_walk m)" using keys fin by (metis list.set_map set_sorted_list_of_set)
    with False show ?thesis by (metis domIff map_of_eq_None_iff)
  qed
  then show "distinct (map fst (key_walk m)) \<and> map_of (key_walk m) = m" by (simp add: keys fun_eq_iff)
qed

text \<open>
  C2.  The report of the days from \<open>start\<close> to the \<open>n\<close>-th day after it returns, as long as the \<open>uint32\<close> of the day
  after the last does not wrap around, and holds exactly the days with active players, in order, except that the
  last day is missing whenever nobody was active on the day before it: after a day without players the loop
  stops as soon as the next day reaches the end instead of passing it.
\<close>

theorem generateBaseStatitics_days:
  assumes "stat_db N tab lst it" and "unat start + 86400 * n + 86400 < 2 ^ 32"
    and "\<And>d. card (dom (tab w (KEY_ACTIVE_STATISTICS @ fmt_nat d))) < 2 ^ 63"
    and "act = (\<lambda>i. tab w (KEY_ACTIVE_STATISTICS @ fmt_nat (unat start + 86400 * i)) \<noteq> Map.empty)"
  shows "\<exists>m. generateBaseStatitics F N it J start (start + of_nat (86400 * n)) w = Some (m, w) \<and>
    map (\<lambda>d. unat (bs_Timestamp d)) m =
      map (\<lambda>i. unat start + 86400 * i) (filter (\<lambda>i. act i \<and> (i = n \<and> 0 < i \<longrightarrow> act (i - 1))) [0..<Suc n])"
proof -
  note on = stat_db.active_on_def [OF assms(1)]
  have day: "i \<le> n \<Longrightarrow> unat (start + of_nat (86400 * i)) = unat start + 86400 * i" for i
    by (rule stat_db.unat_day [OF assms(1,2)]) simp
  have act: "act i \<longleftrightarrow> stat_db.active_on tab w (start + of_nat (86400 * i)) \<noteq> {}" if "i \<le> n" for i
    unfolding on assms(4) day [OF that] by simp
  have "\<And>d. card (stat_db.active_on tab w d) < 2 ^ 63" unfolding on by (rule assms(3))
  from stat_db.stat_loop_days [OF assms(1,2) _ this, of 0 F J "[]"] obtain m where
    m: "stat_loop F N it J start (start + of_nat (86400 * n)) [] w = Some (m, w)"
      "map bs_Timestamp m = map (\<lambda>i. start + of_nat (86400 * i))
        (filter (\<lambda>i. stat_db.active_on tab w (start + of_nat (86400 * i)) \<noteq> {} \<and>
          (i = n \<and> 0 < i \<longrightarrow> stat_db.active_on tab w (start + of_nat (86400 * (i - 1))) \<noteq> {})) [0..<Suc n])"
    by (auto simp del: upt_Suc of_nat_mult)
  have "filter (\<lambda>i. stat_db.active_on tab w (start + of_nat (86400 * i)) \<noteq> {} \<and>
          (i = n \<and> 0 < i \<longrightarrow> stat_db.active_on tab w (start + of_nat (86400 * (i - 1))) \<noteq> {})) [0..<Suc n] =
      filter (\<lambda>i. act i \<and> (i = n \<and> 0 < i \<longrightarrow> act (i - 1))) [0..<Suc n]"
    by (rule filter_cong) (auto simp del: upt_Suc of_nat_mult simp: act)
  moreover have "map (\<lambda>d. unat (bs_Timestamp d)) m = map unat (map bs_Timestamp m)" by simp
  ultimately show ?thesis
    using m(1) unfolding m(2) generateBaseStatitics_def by (auto simp: day simp del: upt_Suc of_nat_mult)
qed

text \<open>Two days, nobody on the first and one player on the second: the report is empty.\<close>

definition ref_days :: rdb where
  "ref_days = put_tab ref_empty (KEY_ACTIVE_STATISTICS @ fmt_nat 172800) [(''7'', ''1'')]"

definition ref_f32 :: "int f32" where
  "ref_f32 = \<lparr>fzero = 0, fadd = (+), fmul = (*), fdiv = (div), fint = (\<lambda>i. i), fu32 = of_int\<rparr>"

definition ref_trading :: "int trading_results codec" where
  "ref_trading = \<lparr>enc = (\<lambda>_. ''''), dec = (\<lambda>s x. (x, False))\<rparr>"

lemma generateBaseStatitics_days_witness:
  "generateBaseStatitics ref_f32 ref_net key_walk ref_trading 86400 172800 ref_days = Some ([], ref_days)"
proof -
  have tab: "ref_tab ref_days (KEY_ACTIVE_STATISTICS @ fmt_nat d) = (if d = 172800 then [''7'' \<mapsto> ''1''] else Map.empty)" for d
    by (simp add: ref_days_def ref_tab_def ref_empty_def)
  have "\<exists>m. generateBaseStatitics ref_f32 ref_net key_walk ref_trading 86400 (86400 + of_nat (86400 * 1)) ref_days = Some (m, ref_days) \<and>
      map (\<lambda>d. unat (bs_Timestamp d)) m = map (\<lambda>i. unat (86400 :: u32) + 86400 * i)
        (filter (\<lambda>i. i = 1 \<and> (i = 1 \<and> 0 < i \<longrightarrow> i - 1 = (1 :: nat))) [0..<Suc 1])"
    by (rule generateBaseStatitics_days [OF ref_stat.stat_db_axioms]) (auto simp: tab fun_eq_iff)
  then show ?thesis by simp
qed

text \<open>
  The retention figures say nothing but all or nothing: \<open>getKeep\<close> divides integers before it multiplies
  by 100, so it answers 100 if every player that was new on the earlier day is active on the day asked for, and
  0 in all other cases, however many of them came back.
\<close>

theorem getKeep_all_or_nothing:
  assumes "stat_db N tab lst it"
    and "A = dom (tab w (KEY_ACTIVE_STATISTICS @ fmt_nat (unat d)))"
    and "B = dom (tab w (KEY_NEWUSER_STATISTICS @ fmt_nat (unat (d - k * 86400))))"
  shows "getKeep N it d k w = Some (if B \<noteq> {} \<and> B \<subseteq> A then 100 else 0, w)"
  unfolding stat_db.getKeep_run [OF assms(1)] stat_db.active_on_def [OF assms(1)] stat_db.new_on_def [OF assms(1)]
    assms(2,3) [symmetric] by auto

definition ref_keep :: rdb where
  "ref_keep = put_tab (put_tab ref_empty (KEY_ACTIVE_STATISTICS @ fmt_nat 172800) [(''7'', ''1'')])
     (KEY_NEWUSER_STATISTICS @ fmt_nat 86400) [(''7'', ''1''), (''8'', ''1'')]"

lemma getKeep_all_or_nothing_witness: "getKeep ref_net key_walk 172800 1 ref_keep = Some (0, ref_keep)"
proof -
  have "KEY_ACTIVE_STATISTICS @ a \<noteq> KEY_NEWUSER_STATISTICS @ b" for a b
    by (simp add: KEY_ACTIVE_STATISTICS_def KEY_NEWUSER_STATISTICS_def)
  then have "dom (ref_tab ref_keep (KEY_ACTIVE_STATISTICS @ fmt_nat 172800)) = {''7''}"
    "dom (ref_tab ref_keep (KEY_NEWUSER_STATISTICS @ fmt_nat 86400)) = {''7'', ''8''}"
    by (auto simp: ref_keep_def ref_tab_def)
  then show ?thesis
    using getKeep_all_or_nothing [OF ref_stat.stat_db_axioms refl refl, of 172800 1 ref_keep] by auto
qed

end
