(* ===== verification/Pool.thy ===== *)
theory Pool
  imports QueueStore HashStore
begin

text \<open>
  The pool of connections of \<^verbatim>\<open>src/basic/ssdb/gossdb/gossdb.go\<close> shared by many goroutines: a buffered channel of
  clients.  \<open>C\<close> receives from it, the \<open>Do\<close> of a client sends the client back when its exchange is over, and \<open>ping\<close>
  visits the idle clients without waiting.  The exchange itself is the subject of \<open>Client\<close>.
\<close>

section \<open>States and steps\<close>

text \<open>What a goroutine is doing: nothing with the pool, waiting in \<open>C\<close>, or using a client.\<close>

datatype activity = Outside | Waiting | Using nat

text \<open>
  \<open>chan\<close> is the content of the channel; \<open>dropped\<close> are the clients whose method returned before it reached \<open>Do\<close>.
  The goroutine \<open>0\<close> is \<open>loopPing\<close>, with the number of clients \<open>ping\<close> may still visit in this round.
\<close>

record pool =
  chan :: "nat list"
  act :: "nat \<Rightarrow> activity"
  dropped :: "nat list"
  rounds :: nat

text \<open>\<open>Connect\<close> with the number of clients asked for; at least one, else five.\<close>

definition maxthread :: "int \<Rightarrow> nat" where
  "maxthread thread = nat (if thread < 1 then 5 else thread)"

definition Connect :: "int \<Rightarrow> pool" where
  "Connect thread = \<lparr>chan = [0..<maxthread thread], act = (\<lambda>_. Outside), dropped = [], rounds = 0\<rparr>"

text \<open>
  The steps, for a channel of capacity \<open>n\<close>.  A send needs room in the channel.  \<open>ping\<close> starts when its timer fires and
  stops after \<open>n\<close> clients or when it finds the channel empty.
\<close>

inductive pool_step :: "nat \<Rightarrow> pool \<Rightarrow> pool \<Rightarrow> bool" for n where
  C_call: "act s g = Outside \<Longrightarrow> g \<noteq> 0 \<Longrightarrow> pool_step n s (s\<lparr>act := (act s)(g := Waiting)\<rparr>)"
| C_receive: "act s g = Waiting \<Longrightarrow> chan s = c # cs \<Longrightarrow> pool_step n s (s\<lparr>chan := cs, act := (act s)(g := Using c)\<rparr>)"
| Do_send: "act s g = Using c \<Longrightarrow> length (chan s) < n \<Longrightarrow>
    pool_step n s (s\<lparr>chan := chan s @ [c], act := (act s)(g := Outside)\<rparr>)"
| early_return: "act s g = Using c \<Longrightarrow> g \<noteq> 0 \<Longrightarrow>
    pool_step n s (s\<lparr>act := (act s)(g := Outside), dropped := c # dropped s\<rparr>)"
| ping_start: "act s 0 = Outside \<Longrightarrow> rounds s = 0 \<Longrightarrow> pool_step n s (s\<lparr>rounds := n\<rparr>)"
| ping_receive: "act s 0 = Outside \<Longrightarrow> rounds s = Suc i \<Longrightarrow> chan s = c # cs \<Longrightarrow>
    pool_step n s (s\<lparr>chan := cs, act := (act s)(0 := Using c), rounds := i\<rparr>)"
| ping_default: "act s 0 = Outside \<Longrightarrow> rounds s = Suc i \<Longrightarrow> chan s = [] \<Longrightarrow> pool_step n s (s\<lparr>rounds := 0\<rparr>)"

abbreviation pool_steps :: "nat \<Rightarrow> pool \<Rightarrow> pool \<Rightarrow> bool" where
  "pool_steps n \<equiv> (pool_step n)\<^sup>*\<^sup>*"

inductive_cases pool_stepE: "pool_step n s s'"

section \<open>Every client is in one place\<close>

definition pool_inv :: "nat \<Rightarrow> pool \<Rightarrow> bool" where
  "pool_inv n s \<longleftrightarrow> distinct (chan s @ dropped s) \<and> set (chan s @ dropped s) \<subseteq> {..<n} \<and>
     (\<forall>g c. act s g = Using c \<longrightarrow> c < n \<and> c \<notin> set (chan s @ dropped s) \<and> (\<forall>h. act s h = Using c \<longrightarrow> h = g)) \<and>
     (\<forall>c<n. c \<in> set (chan s @ dropped s) \<or> (\<exists>g. act s g = Using c))"

lemma pool_inv_Connect: "pool_inv (maxthread thread) (Connect thread)"
  by (auto simp: pool_inv_def Connect_def)

lemma pool_inv_take:
  assumes "pool_inv n s" and "chan s = c # cs" and "\<And>d. act s g \<noteq> Using d"
  shows "pool_inv n (s\<lparr>chan := cs, act := (act s)(g := Using c)\<rparr>)"
proof -
  have I: "distinct (c # cs @ dropped s)" "set (c # cs @ dropped s) \<subseteq> {..<n}"
    "\<And>g c. act s g = Using c \<Longrightarrow> c < n \<and> c \<notin> set (chan s @ dropped s) \<and> (\<forall>h. act s h = Using c \<longrightarrow> h = g)"
    "\<And>c. c < n \<Longrightarrow> c \<in> set (chan s @ dropped s) \<or> (\<exists>g. act s g = Using c)" using assms(1,2) by (auto simp: pool_inv_def)
  have "d \<in> set (cs @ dropped s) \<or> (\<exists>h. ((act s)(g := Using c)) h = Using d)" if dn: "d < n" for d
  proof (cases "d \<in> set (chan s @ dropped s)")
    case True
    then show ?thesis using assms(2) by (cases "d = c") auto
  next
    case False
    then obtain h where h: "act s h = Using d" using I(4) [OF dn] by blast
    then show ?thesis using assms(3) by (intro disjI2 exI [of _ h]) auto
  qed
  then show ?thesis using I(1,2) I(3) [unfolded assms(2)] unfolding pool_inv_def by (auto split: if_splits)
qed

lemma pool_inv_back:
  assumes "pool_inv n s" and "act s g = Using c" and "distinct (xs @ ys)" and "set (xs @ ys) = insert c (set (chan s @ dropped s))"
  shows "pool_inv n (s\<lparr>chan := xs, act := (act s)(g := Outside), dropped := ys\<rparr>)"
proof -
  have I: "set (chan s @ dropped s) \<subseteq> {..<n}"
    "\<And>g c. act s g = Using c \<Longrightarrow> c < n \<and> c \<notin> set (chan s @ dropped s) \<and> (\<forall>h. act s h = Using c \<longrightarrow> h = g)"
    "\<And>c. c < n \<Longrightarrow> c \<in> set (chan s @ dropped s) \<or> (\<exists>g. act s g = Using c)" using assms(1) by (auto simp: pool_inv_def)
  have c: "c < n" "\<And>h. act s h = Using c \<Longrightarrow> h = g" using I(2) [OF assms(2)] by auto
  have "d \<in> set (xs @ ys) \<or> (\<exists>h. ((act s)(g := Outside)) h = Using d)" if dn: "d < n" for d
  proof (cases "d \<in> set (xs @ ys)")
    case False
    then obtain h where h: "act s h = Using d" "d \<noteq> c" using I(3) [OF dn] assms(4) by blast
    then show ?thesis using assms(2) by (intro disjI2 exI [of _ h]) auto
  qed simp
  moreover have "d < n \<and> d \<notin> set (xs @ ys) \<and> (\<forall>k. ((act s)(g := Outside)) k = Using d \<longrightarrow> k = h)"
    if "((act s)(g := Outside)) h = Using d" for h d
  proof -
    from that have h: "h \<noteq> g" "act s h = Using d" by (auto split: if_splits)
    with c(2) have "d \<noteq> c" by blast
    then show ?thesis using I(2) [OF h(2)] assms(4) by (auto split: if_splits)
  qed
  moreover have "set (xs @ ys) \<subseteq> {..<n}" using assms(4) I(1) c(1) by auto
  ultimately show ?thesis using assms(3) unfolding pool_inv_def by (simp del: set_append distinct_append fun_upd_apply)
qed

lemma pool_inv_same:
  assumes "pool_inv n s" and "\<And>d. act s g \<noteq> Using d" and "\<And>d. a \<noteq> Using d"
  shows "pool_inv n (s\<lparr>act := (act s)(g := a)\<rparr>)"
proof -
  have "((act s)(g := a)) h = Using d \<longleftrightarrow> act s h = Using d" for h d using assms(2,3) by auto
  then show ?thesis using assms(1) unfolding pool_inv_def by simp
qed

lemma pool_inv_rounds [simp]: "pool_inv n (s\<lparr>rounds := i\<rparr>) = pool_inv n s"
  by (simp add: pool_inv_def)

lemma pool_inv_step: "pool_step n s s' \<Longrightarrow> pool_inv n s \<Longrightarrow> pool_inv n s'"
proof (induction rule: pool_step.induct)
  case (Do_send s g c)
  then have "distinct ((chan s @ [c]) @ dropped s)" by (auto simp: pool_inv_def)
  from pool_inv_back [OF Do_send(3,1) this] show ?case by auto
next
  case (early_return s g c)
  then have "distinct (chan s @ c # dropped s)" by (auto simp: pool_inv_def)
  from pool_inv_back [OF early_return(3,1) this] show ?case by auto
next
  case (ping_receive s i c cs)
  with pool_inv_take [of n s c cs 0] have "pool_inv n (s\<lparr>chan := cs, act := (act s)(0 := Using c)\<rparr>\<lparr>rounds := i\<rparr>)" by simp
  then show ?case by simp
qed (simp_all add: pool_inv_take pool_inv_same)

lemma pool_inv_steps: "pool_steps n s s' \<Longrightarrow> pool_inv n s \<Longrightarrow> pool_inv n s'"
  by (induction rule: rtranclp_induct) (auto intro: pool_inv_step)

lemma pool_inv_using: "pool_inv n s \<Longrightarrow> act s g = Using c \<Longrightarrow>
    c < n \<and> c \<notin> set (chan s) \<and> c \<notin> set (dropped s) \<and> (\<forall>h. act s h = Using c \<longrightarrow> h = g)"
  by (simp add: pool_inv_def)

lemma pool_inv_room: "pool_inv n s \<Longrightarrow> act s g = Using c \<Longrightarrow> length (chan s) < n"
proof -
  assume *: "pool_inv n s" "act s g = Using c"
  then have "distinct (c # chan s)" "set (c # chan s) \<subseteq> {..<n}" by (auto simp: pool_inv_def)
  then show ?thesis using card_mono [of "{..<n}" "set (c # chan s)"] distinct_card [of "c # chan s"] by simp
qed

text \<open>
  C9.  The pool hands every client to one goroutine at a time and never makes a goroutine wait to give one back: in
  every state that any interleaving of calls, returns and pings reaches, a client in use is used by one goroutine and
  is not in the channel, the channel has room for it, and the clients in the channel, in use and dropped together are
  exactly those \<open>Connect\<close> made.
\<close>

theorem pool_safe:
  assumes "pool_steps (maxthread thread) (Connect thread) s"
  shows "(\<forall>g c. act s g = Using c \<longrightarrow> c \<notin> set (chan s) \<and> length (chan s) < maxthread thread \<and> (\<forall>h. act s h = Using c \<longrightarrow> h = g)) \<and>
    distinct (chan s) \<and> set (chan s) \<union> {c. \<exists>g. act s g = Using c} \<union> set (dropped s) = {..<maxthread thread}"
proof -
  have I: "pool_inv (maxthread thread) s" using pool_inv_steps [OF assms pool_inv_Connect] .
  show ?thesis using pool_inv_room [OF I] I by (auto simp: pool_inv_def)
qed

text \<open>Clients that are dropped never come back, and once all are dropped the channel stays empty.\<close>

lemma dropped_mono: "pool_steps n s s' \<Longrightarrow> length (dropped s) \<le> length (dropped s')"
proof (induction rule: rtranclp_induct)
  case (step s' s'')
  from step(2) have "length (dropped s') \<le> length (dropped s'')" by (cases rule: pool_step.cases) auto
  with step(3) show ?case by simp
qed simp

lemma all_dropped:
  assumes "pool_inv n s" and "n \<le> length (dropped s)"
  shows "chan s = [] \<and> act s g \<noteq> Using c"
proof -
  have "distinct (chan s @ dropped s)" "set (chan s @ dropped s) \<subseteq> {..<n}" using assms(1) unfolding pool_inv_def by blast+
  then have d: "distinct (dropped s)" "set (dropped s) \<subseteq> {..<n}" "set (chan s) \<inter> set (dropped s) = {}" "set (chan s) \<subseteq> {..<n}" by auto
  have "card {..<n} \<le> card (set (dropped s))" using assms(2) distinct_card [OF d(1)] by simp
  then have all: "set (dropped s) = {..<n}" using card_seteq [OF _ d(2)] by simp
  have "set (chan s) = {}" using d(3) Int_absorb2 [OF d(4)] by (simp add: all)
  moreover have "act s g \<noteq> Using c"
  proof
    assume "act s g = Using c"
    from pool_inv_using [OF assms(1) this] show False using all lessThan_iff by blast
  qed
  ultimately show ?thesis by simp
qed

lemma waits_on:
  assumes "pool_steps n s s'" and "pool_inv n s" and "n \<le> length (dropped s)" and "act s g = Waiting"
  shows "act s' g = Waiting"
  using assms
proof (induction rule: rtranclp_induct)
  case (step s' s'')
  have I: "pool_inv n s'" using pool_inv_steps [OF step(1,4)] .
  have "n \<le> length (dropped s')" using dropped_mono [OF step(1)] step(5) by linarith
  note none = all_dropped [OF I this]
  show ?case using step(2) step(3) [OF step(4-6)] none by (cases rule: pool_step.cases) auto
qed

lemma some_user:
  assumes "pool_inv n s" and "length (dropped s) < n" and "chan s = []"
  shows "\<exists>g c. act s g = Using c"
proof -
  have "card (set (dropped s)) < card {..<n}" using card_length [of "dropped s"] assms(2) by simp
  then obtain c where "c < n" "c \<notin> set (dropped s)" by (metis card_mono finite_set lessThan_iff not_less subsetI)
  moreover have "c \<in> set (chan s @ dropped s) \<or> (\<exists>g. act s g = Using c)"
    using assms(1) \<open>c < n\<close> unfolding pool_inv_def by blast
  ultimately show ?thesis using assms(3) by auto
qed

lemma waiter_served:
  assumes "pool_inv n s" and "act s g = Waiting" and "length (dropped s) < n"
  shows "\<exists>s' c. pool_steps n s s' \<and> act s' g = Using c"
proof (cases "chan s")
  case (Cons c cs)
  have "act (s\<lparr>chan := cs, act := (act s)(g := Using c)\<rparr>) g = Using c" by simp
  then show ?thesis using pool_step.C_receive [OF assms(2) Cons] by blast
next
  case Nil
  obtain h c where h: "act s h = Using c" using some_user [OF assms(1,3) Nil] by blast
  let ?s = "s\<lparr>chan := chan s @ [c], act := (act s)(h := Outside)\<rparr>"
  have "pool_step n s ?s" using pool_step.Do_send [OF h pool_inv_room [OF assms(1) h]] .
  moreover have "act ?s g = Waiting" "chan ?s = [c]" using assms(2) h Nil by auto
  ultimately have "pool_steps n s (?s\<lparr>chan := [], act := (act ?s)(g := Using c)\<rparr>)"
    using pool_step.C_receive [of ?s g c "[]" n] by (meson converse_rtranclp_into_rtranclp r_into_rtranclp)
  moreover have "act (?s\<lparr>chan := [], act := (act ?s)(g := Using c)\<rparr>) g = Using c" by simp
  ultimately show ?thesis by blast
qed

text \<open>
  C10.  A goroutine that waits for a client can still get one exactly as long as some client has not been dropped: a
  method that returns before its \<open>Do\<close> never gives its client back, and after as many such calls as there are clients
  every caller waits forever.
\<close>

theorem waiter_served_iff:
  assumes "pool_steps (maxthread thread) (Connect thread) s" and "act s g = Waiting"
  shows "(\<exists>s' c. pool_steps (maxthread thread) s s' \<and> act s' g = Using c) \<longleftrightarrow> length (dropped s) < maxthread thread"
proof
  have I: "pool_inv (maxthread thread) s" using pool_inv_steps [OF assms(1) pool_inv_Connect] .
  show "\<exists>s' c. pool_steps (maxthread thread) s s' \<and> act s' g = Using c" if "length (dropped s) < maxthread thread"
    using waiter_served [OF I assms(2) that] .
  show "length (dropped s) < maxthread thread" if "\<exists>s' c. pool_steps (maxthread thread) s s' \<and> act s' g = Using c"
    using that waits_on [OF _ I _ assms(2)] by (metis activity.distinct(5) not_less)
qed

section \<open>Methods that return before their exchange\<close>

text \<open>The methods that do not reach the network when they are given nothing to do.\<close>

lemma early_returns:
  "MultiHget N setName [] w = Some ((Map.empty, None), w)" "MultiHgetSlice N setName [] w = Some ((([], []), None), w)"
  "MultiHdel N setName [] w = Some (((), None), w)" "qpush N name front [] w = Some ((- 1, None), w)"
  by (simp_all add: MultiHget_def MultiHgetSlice_def MultiHdel_def qpush_def)

text \<open>One goroutine that makes \<open>k\<close> such calls.\<close>

lemma drop_one:
  assumes "act s g = Outside" and "g \<noteq> 0" and "chan s = c # cs"
  shows "pool_steps n s (s\<lparr>chan := cs, dropped := c # dropped s\<rparr>)"
proof -
  let ?s1 = "s\<lparr>act := (act s)(g := Waiting)\<rparr>" and ?s2 = "s\<lparr>chan := cs, act := (act s)(g := Using c)\<rparr>"
  have "pool_step n s ?s1" using assms(1,2) by (rule C_call)
  moreover have "pool_step n ?s1 ?s2" using C_receive [of ?s1 g c cs n] assms(3) by simp
  moreover have "pool_step n ?s2 (s\<lparr>chan := cs, dropped := c # dropped s\<rparr>)"
    using early_return [of ?s2 g c n] assms(1,2) by (simp add: fun_upd_idem)
  ultimately show ?thesis by (meson converse_rtranclp_into_rtranclp r_into_rtranclp)
qed

lemma drop_all:
  "act s 1 = Outside \<Longrightarrow> pool_steps n s (s\<lparr>chan := [], dropped := rev (chan s) @ dropped s\<rparr>)"
proof (induction "chan s" arbitrary: s)
  case Nil
  then have "s\<lparr>chan := [], dropped := rev (chan s) @ dropped s\<rparr> = s" by (cases s) simp
  then show ?case by simp
next
  case (Cons c cs)
  let ?s = "s\<lparr>chan := cs, dropped := c # dropped s\<rparr>"
  have "pool_steps n s ?s" using drop_one [of s 1 c cs n] Cons.hyps(2) Cons.prems by simp
  moreover have "pool_steps n ?s (s\<lparr>chan := [], dropped := rev (chan s) @ dropped s\<rparr>)"
    using Cons.hyps(1) [of ?s] Cons.hyps(2) [symmetric] Cons.prems by simp
  ultimately show ?case by (rule rtranclp_trans)
qed

text \<open>After \<open>thread\<close> such calls the next caller waits forever.\<close>

lemma early_returns_block:
  "\<exists>s. pool_steps (maxthread thread) (Connect thread) s \<and> act s 1 = Waiting \<and>
     (\<forall>s'. pool_steps (maxthread thread) s s' \<longrightarrow> act s' 1 = Waiting)"
proof -
  let ?n = "maxthread thread" and ?s = "(Connect thread)\<lparr>chan := [], dropped := rev [0..<maxthread thread]\<rparr>"
  have d: "pool_steps ?n (Connect thread) ?s" using drop_all [of "Connect thread" ?n] by (simp add: Connect_def)
  have "pool_step ?n ?s (?s\<lparr>act := (act ?s)(1 := Waiting)\<rparr>)" by (rule C_call) (simp_all add: Connect_def)
  with d have r: "pool_steps ?n (Connect thread) (?s\<lparr>act := (act ?s)(1 := Waiting)\<rparr>)" by (rule rtranclp.rtrancl_into_rtrancl)
  have "act s' 1 = Waiting" if "pool_steps ?n (?s\<lparr>act := (act ?s)(1 := Waiting)\<rparr>) s'" for s'
    by (rule waits_on [OF that pool_inv_steps [OF r pool_inv_Connect]]) simp_all
  then show ?thesis using r by (intro exI [of _ "?s\<lparr>act := (act ?s)(1 := Waiting)\<rparr>"]) simp
qed

text \<open>A goroutine that uses one of two clients, and one that waits for the other.\<close>

definition one_user :: pool where
  "one_user = (Connect 2)\<lparr>chan := [1], act := (\<lambda>_. Outside)(1 := Using 0)\<rparr>"

lemma one_user_reached: "pool_steps (maxthread 2) (Connect 2) one_user"
proof -
  let ?s1 = "(Connect 2)\<lparr>act := (act (Connect 2))(1 := Waiting)\<rparr>"
  have two: "chan (Connect 2) = [0, 1]" by (simp add: Connect_def maxthread_def upt_rec)
  have "pool_step (maxthread 2) (Connect 2) ?s1" by (rule C_call) (simp_all add: Connect_def)
  moreover have "pool_step (maxthread 2) ?s1 one_user"
    using C_receive [of ?s1 1 0 "[1]" "maxthread 2"] two by (simp add: one_user_def Connect_def)
  ultimately show ?thesis by (meson converse_rtranclp_into_rtranclp r_into_rtranclp)
qed

lemma pool_safe_witness: "act one_user 1 = Using 0 \<and> 0 \<notin> set (chan one_user) \<and> length (chan one_user) < maxthread 2"
proof -
  have "act one_user 1 = Using 0" by (simp add: one_user_def)
  then show ?thesis using pool_safe [OF one_user_reached] by blast
qed

lemma waiter_served_iff_witness:
  "\<exists>s. pool_steps (maxthread 2) (Connect 2) s \<and> (\<exists>s' c. pool_steps (maxthread 2) s s' \<and> act s' 2 = Using c)"
proof -
  let ?s = "one_user\<lparr>act := (act one_user)(2 := Waiting)\<rparr>"
  have "pool_step (maxthread 2) one_user ?s" by (rule C_call) (simp_all add: one_user_def)
  with one_user_reached have r: "pool_steps (maxthread 2) (Connect 2) ?s" by (rule rtranclp.rtrancl_into_rtrancl)
  have "length (dropped ?s) < maxthread 2" by (simp add: one_user_def Connect_def maxthread_def)
  then have "\<exists>s' c. pool_steps (maxthread 2) ?s s' \<and> act s' 2 = Using c" using waiter_served_iff [OF r, of 2] by simp
  then show ?thesis using r by blast
qed

end
