(* ===== verification/SharedBuffer.thy ===== *)
theory SharedBuffer
  imports Wire
begin

text \<open>
  The memory behind the replies of \<^verbatim>\<open>src/basic/ssdb/gossdb\<close>.  The values \<open>parse\<close> returns are slices of the
  receive buffer of the connection, and a connection goes back into the pool of \<^verbatim>\<open>gossdb.go\<close> before its caller
  has read them.  Here the arrays are explicit: a value is a slice of an array in a store, a connection has a
  \<open>bytes.Buffer\<close> over an array, and the pool is the queue of idle connections.  \<open>Wire\<close> is the view of a caller
  that reads its reply before the connection is used again.
\<close>

section \<open>Arrays, slices and buffers\<close>

text \<open>A slice is an array, a start and a length; \<open>fresh\<close> is the first array not yet allocated.\<close>

type_synonym slice = "nat \<times> nat \<times> nat"

record store =
  arrays :: "nat \<Rightarrow> string"
  fresh :: nat

definition read_slice :: "store \<Rightarrow> slice \<Rightarrow> string" where
  "read_slice m = (\<lambda>(a, i, n). take n (drop i (arrays m a)))"

text \<open>A \<open>bytes.Buffer\<close>: its array, the read offset and the length of \<open>b.buf\<close>.\<close>

record bytes_buffer =
  b_arr :: nat
  b_off :: nat
  b_len :: nat

definition Buffer_Bytes :: "bytes_buffer \<Rightarrow> store \<Rightarrow> string" where
  "Buffer_Bytes b m = take (b_len b - b_off b) (drop (b_off b) (arrays m (b_arr b)))"

definition new_buffer :: "store \<Rightarrow> bytes_buffer \<times> store" where
  "new_buffer m = (\<lparr>b_arr = fresh m, b_off = 0, b_len = 0\<rparr>, m\<lparr>arrays := (arrays m)(fresh m := ''''), fresh := fresh m + 1\<rparr>)"

text \<open>
  \<open>Write\<close>: an empty buffer starts again at the front of its array; the data go behind what is there if the
  array has room, or after moving the content to the front, or into a larger array, of at least 64 bytes.
\<close>

definition Buffer_Write :: "string \<Rightarrow> bytes_buffer \<Rightarrow> store \<Rightarrow> bytes_buffer \<times> store" where
  "Buffer_Write p b m =
     (let content = Buffer_Bytes b m;
          b = (if content = '''' then b\<lparr>b_off := 0, b_len := 0\<rparr> else b);
          a = arrays m (b_arr b);
          n = length p;
          new_cap = (if length a = 0 \<and> n \<le> 64 then 64 else 2 * length a + n)
      in if b_len b + n \<le> length a then
           (b\<lparr>b_len := b_len b + n\<rparr>, m\<lparr>arrays := (arrays m)(b_arr b := take (b_len b) a @ p @ drop (b_len b + n) a)\<rparr>)
         else if length content + n \<le> length a div 2 then
           (b\<lparr>b_off := 0, b_len := length content + n\<rparr>,
            m\<lparr>arrays := (arrays m)(b_arr b := content @ p @ drop (length content + n) a)\<rparr>)
         else
           (\<lparr>b_arr = fresh m, b_off = 0, b_len = length content + n\<rparr>,
            m\<lparr>arrays := (arrays m)(fresh m := content @ p @ replicate (new_cap - length content - n) (CHR 0x00)), fresh := fresh m + 1\<rparr>))"

section \<open>Receiving\<close>

text \<open>The loop of \<open>parse\<close> with slices of \<open>buf\<close> as values, and the number of bytes \<open>Next\<close> takes.\<close>

function slices_loop :: "string \<Rightarrow> nat \<Rightarrow> (nat \<times> nat) list \<Rightarrow> ((nat \<times> nat) list option \<times> nat) option" where
  "slices_loop buf offset resp =
     (case IndexByte (drop offset buf) nl of
        None \<Rightarrow> Some (Some resp, 0)
      | Some idx \<Rightarrow>
          (let p = take idx (drop offset buf); offset' = offset + idx + 1
           in if p = '''' \<or> p = [CHR 0x0D] then
                (if resp = [] then slices_loop buf offset' resp
                 else Some (Some resp, offset'))
              else (case Atoi p of (sz, good) \<Rightarrow>
                if \<not> good \<or> sz < 0 then Some (None, 0)
                else if add64 (int offset') sz \<ge> int (length buf) then Some (Some resp, 0)
                else if add64 (int offset') sz < int offset' then None
                else slices_loop buf (offset' + nat sz + 1) (resp @ [(offset', nat sz)]))))"
  by pat_completeness auto
termination
  by (relation "measure (\<lambda>(buf, offset, resp). length buf - offset)") (auto dest!: IndexByte_less)

declare slices_loop.simps [simp del]

abbreviation part :: "string \<Rightarrow> nat \<times> nat \<Rightarrow> string" where
  "part buf \<equiv> (\<lambda>(i, n). take n (drop i buf))"

lemma parse_loop_slices:
  "parse_loop buf offset (map (part buf) rs) =
     map_option (\<lambda>(r, k). (map_option (map (part buf)) r, drop k buf)) (slices_loop buf offset rs)"
proof (induction buf offset rs rule: slices_loop.induct)
  case (1 buf offset rs)
  show ?case
  proof (cases "IndexByte (drop offset buf) nl")
    case None
    then show ?thesis by (simp add: parse_loop.simps [of buf offset] slices_loop.simps [of buf offset])
  next
    case (Some idx)
    obtain sz good where at: "Atoi (take idx (drop offset buf)) = (sz, good)" by fastforce
    show ?thesis
      using 1(1) [OF Some refl refl] 1(2) [OF Some refl refl _ at [symmetric]] Some at
      unfolding parse_loop.simps [of buf offset] slices_loop.simps [of buf offset] Let_def by auto
  qed
qed

text \<open>\<open>parse\<close> and \<open>Recv\<close> on a buffer: the values are slices of its array.\<close>

definition mem_parse :: "bytes_buffer \<Rightarrow> store \<Rightarrow> (slice list option \<times> bytes_buffer) option" where
  "mem_parse b m = do {
     (resp, k) \<leftarrow> slices_loop (Buffer_Bytes b m) 0 [];
     Some (map_option (map (\<lambda>(i, n). (b_arr b, b_off b + i, n))) resp, b\<lparr>b_off := b_off b + k\<rparr>)
   }"

function mem_Recv :: "bytes_buffer \<Rightarrow> string list \<Rightarrow> store \<Rightarrow> ((neterr + slice list) \<times> bytes_buffer \<times> string list \<times> store) option" where
  "mem_Recv b segs m =
     (case sock_Read segs of
        None \<Rightarrow> Some (Inl ReadError, b, [], m)
      | Some (tmp, segs) \<Rightarrow>
          (case Buffer_Write tmp b m of (b, m) \<Rightarrow> do {
             (resp, b) \<leftarrow> mem_parse b m;
             (case resp of
                None \<Rightarrow> Some (Inr [], b, segs, m)
              | Some resp \<Rightarrow> if resp \<noteq> [] then Some (Inr resp, b, segs, m) else mem_Recv b segs m)
           }))"
  by pat_completeness auto
termination
  by (relation "measure (\<lambda>(b, segs, m). unread segs)") (auto intro: sock_Read_less)

declare mem_Recv.simps [simp del]

section \<open>A caller that reads its reply at once\<close>

text \<open>Well-formed buffers, and the array of a buffer before it is used.\<close>

definition buffer_ok :: "bytes_buffer \<Rightarrow> store \<Rightarrow> bool" where
  "buffer_ok b m \<longleftrightarrow> b_off b \<le> b_len b \<and> b_len b \<le> length (arrays m (b_arr b)) \<and> b_arr b < fresh m"

text \<open>What using the buffer \<open>b\<close> may change: its own array, without changing its size, and arrays not yet allocated.\<close>

definition touches :: "bytes_buffer \<Rightarrow> store \<Rightarrow> bytes_buffer \<Rightarrow> store \<Rightarrow> bool" where
  "touches b m b' m' \<longleftrightarrow> fresh m \<le> fresh m' \<and> (b_arr b' = b_arr b \<or> fresh m \<le> b_arr b') \<and>
     (\<forall>a < fresh m. length (arrays m' a) = length (arrays m a) \<and> (a \<noteq> b_arr b \<longrightarrow> arrays m' a = arrays m a))"

lemma touches_refl [simp]: "touches b m b m"
  by (simp add: touches_def)

lemma touches_trans: "touches b m b1 m1 \<Longrightarrow> touches b1 m1 b2 m2 \<Longrightarrow> touches b m b2 m2"
  by (fastforce simp: touches_def)

lemma touches_off [simp]: "touches b m (b'\<lparr>b_off := k\<rparr>) m' = touches b m b' m'"
  by (simp add: touches_def)

lemma Buffer_Bytes_length: "buffer_ok b m \<Longrightarrow> length (Buffer_Bytes b m) = b_len b - b_off b"
  by (auto simp: buffer_ok_def Buffer_Bytes_def)

lemma Buffer_Write_run:
  assumes "buffer_ok b m" and "Buffer_Write p b m = (b', m')"
  shows "Buffer_Bytes b' m' = Buffer_Bytes b m @ p \<and> buffer_ok b' m' \<and> touches b m b' m'"
proof -
  let ?a = "arrays m (b_arr b)" and ?c = "Buffer_Bytes b m" and ?n = "length p"
  have len: "length ?c = b_len b - b_off b" and ok: "b_off b \<le> b_len b" "b_len b \<le> length ?a" "b_arr b < fresh m"
    using Buffer_Bytes_length [OF assms(1)] assms(1) by (auto simp: buffer_ok_def)
  have c: "?c = take (b_len b - b_off b) (drop (b_off b) ?a)" by (simp add: Buffer_Bytes_def)
  show ?thesis
  proof (cases "?c = ''''")
    case True
    then show ?thesis
      using assms(2) ok(3) by (auto simp: Buffer_Write_def Let_def Buffer_Bytes_def buffer_ok_def touches_def split: if_splits)
  next
    case False
    have "take (b_len b + ?n - b_off b) (drop (b_off b) (take (b_len b) ?a @ p @ drop (b_len b + ?n) ?a)) = ?c @ p"
      using ok by (simp add: c drop_take)
    then show ?thesis
      using assms(2) ok len False
      by (auto simp: Buffer_Write_def Let_def Buffer_Bytes_def [of "b\<lparr>b_len := _\<rparr>"] Buffer_Bytes_def [of "b\<lparr>b_off := _, b_len := _\<rparr>"]
          Buffer_Bytes_def [of "\<lparr>b_arr = _, b_off = _, b_len = _\<rparr>"] buffer_ok_def touches_def split: if_splits)
  qed
qed

lemma Atoi_less: "Atoi s = (n, good) \<Longrightarrow> n < 2 ^ 63"
  by (auto simp: Atoi_def ParseInt_def parse_signed_def split: list.splits if_splits prod.splits)

lemma add64_between: "0 \<le> b \<Longrightarrow> b < 2 ^ 63 \<Longrightarrow> 0 \<le> a \<Longrightarrow> a \<le> add64 a b \<Longrightarrow> add64 a b = a + b"
proof -
  assume *: "0 \<le> b" "b < 2 ^ 63" "0 \<le> a" "a \<le> add64 a b"
  define j where "j = (a + b + 2 ^ 63) div 2 ^ 64"
  have eq: "add64 a b = a + b - 2 ^ 64 * j" unfolding add64_def j_def by (simp add: minus_mult_div_eq_mod [symmetric])
  have "0 \<le> j" unfolding j_def using * by (intro pos_imp_zdiv_nonneg_iff [THEN iffD2]) auto
  moreover have "2 ^ 64 * j \<le> b" using * eq by linarith
  ultimately have "j = 0" using *(2) by (cases "j \<ge> 1") auto
  then show ?thesis using eq by simp
qed

definition inside :: "string \<Rightarrow> nat \<times> nat \<Rightarrow> bool" where
  "inside buf = (\<lambda>(i, n). i + n \<le> length buf)"

lemma slices_inside:
  "slices_loop buf offset rs = Some (r, k) \<Longrightarrow> list_all (inside buf) rs \<Longrightarrow>
     list_all (inside buf) (case r of None \<Rightarrow> [] | Some rs \<Rightarrow> rs) \<and> k \<le> length buf"
proof (induction buf offset rs rule: slices_loop.induct)
  case (1 buf offset rs)
  show ?case
  proof (cases "IndexByte (drop offset buf) nl")
    case None
    with 1(3,4) show ?thesis by (auto simp: slices_loop.simps [of buf offset])
  next
    case (Some idx)
    obtain sz good where at: "Atoi (take idx (drop offset buf)) = (sz, good)" by fastforce
    have in_buf: "offset + idx + 1 \<le> length buf" using IndexByte_less [OF Some] by simp
    let ?o = "offset + idx + 1"
    have "inside buf (?o, nat sz)" if "good" "\<not> sz < 0" "\<not> add64 (int ?o) sz \<ge> int (length buf)" "\<not> add64 (int ?o) sz < int ?o"
      using that add64_between [of sz "int ?o"] Atoi_less [OF at] by (simp add: inside_def)
    then show ?thesis
      using 1(1) [OF Some refl refl] 1(2) [OF Some refl refl _ at [symmetric]] 1(3,4) Some at in_buf
      unfolding slices_loop.simps [of buf offset] Let_def by (auto split: if_splits)
  qed
qed

lemma part_of_buffer: "inside (Buffer_Bytes b m) (i, n) \<Longrightarrow> buffer_ok b m \<Longrightarrow>
    read_slice m (b_arr b, b_off b + i, n) = part (Buffer_Bytes b m) (i, n)"
  by (simp add: inside_def Buffer_Bytes_length) (simp add: read_slice_def Buffer_Bytes_def drop_take add.commute min_def)

lemma mem_parse_run:
  assumes "buffer_ok b m" and "mem_parse b m = Some (r, b')"
  shows "parse (Buffer_Bytes b m) = Some (map_option (map (read_slice m)) r, Buffer_Bytes b' m) \<and>
    buffer_ok b' m \<and> b_arr b' = b_arr b \<and> (\<forall>rs. r = Some rs \<longrightarrow> list_all (\<lambda>v. fst v = b_arr b) rs)"
proof -
  let ?buf = "Buffer_Bytes b m"
  from assms(2) obtain ps k where ps: "slices_loop ?buf 0 [] = Some (ps, k)"
    "r = map_option (map (\<lambda>(i, n). (b_arr b, b_off b + i, n))) ps" "b' = b\<lparr>b_off := b_off b + k\<rparr>"
    by (auto simp: mem_parse_def split: Option.bind_splits)
  have ins: "list_all (inside ?buf) (case ps of None \<Rightarrow> [] | Some rs \<Rightarrow> rs)" "k \<le> b_len b - b_off b"
    using slices_inside [OF ps(1)] Buffer_Bytes_length [OF assms(1)] by auto
  have "map_option (map (read_slice m)) r = map_option (map (part ?buf)) ps"
    using ins(1) part_of_buffer [OF _ assms(1)] by (cases ps) (auto simp: ps(2) list_all_iff)
  moreover have "Buffer_Bytes b' m = drop k ?buf" by (simp add: ps(3) Buffer_Bytes_def drop_take add.commute)
  moreover have "parse ?buf = Some (map_option (map (part ?buf)) ps, drop k ?buf)"
    unfolding parse_def using parse_loop_slices [of ?buf 0 "[]"] ps(1) by simp
  moreover have "buffer_ok b' m" using assms(1) ins(2) by (auto simp: ps(3) buffer_ok_def)
  ultimately show ?thesis by (auto simp: ps(2,3) list_all_iff)
qed

lemma mem_parse_panics: "mem_parse b m = None \<Longrightarrow> parse (Buffer_Bytes b m) = None"
  using parse_loop_slices [of "Buffer_Bytes b m" 0 "[]"] by (auto simp: mem_parse_def parse_def split: Option.bind_splits)

text \<open>
  Read at once, the slices a \<open>Recv\<close> returns hold the blocks that \<open>Recv\<close> of \<open>Wire\<close> returns, and what is left in the
  buffer and on the way is the same.
\<close>

lemma mem_Recv_refines:
  assumes "buffer_ok b m" and "mem_Recv b segs m = Some (r, b', rest, m')"
  shows "Recv (Buffer_Bytes b m) segs = Some (map_sum id (map (read_slice m')) r, Buffer_Bytes b' m', rest) \<and>
    buffer_ok b' m' \<and> touches b m b' m' \<and> (\<forall>vs. r = Inr vs \<longrightarrow> list_all (\<lambda>v. fst v = b_arr b') vs)"
  using assms
proof (induction b segs m rule: mem_Recv.induct)
  case (1 b segs m)
  show ?case
  proof (cases "sock_Read segs")
    case None
    then show ?thesis using 1(2,3) by (auto simp: mem_Recv.simps [of b] Recv.simps [of _ segs])
  next
    case (Some x)
    obtain tmp segs' where x: "x = (tmp, segs')" by fastforce
    note read = Some [unfolded x]
    obtain b1 m1 where w: "Buffer_Write tmp b m = (b1, m1)" by fastforce
    note w1 = Buffer_Write_run [OF 1(2) w]
    have run: "mem_Recv b segs m = do {
        (resp, b) \<leftarrow> mem_parse b1 m1;
        (case resp of
           None \<Rightarrow> Some (Inr [], b, segs', m1)
         | Some resp \<Rightarrow> if resp \<noteq> [] then Some (Inr resp, b, segs', m1) else mem_Recv b segs' m1)
      }" by (simp add: mem_Recv.simps [of b] read w)
    with 1(3) obtain ps b2 where p: "mem_parse b1 m1 = Some (ps, b2)" by (auto split: Option.bind_splits)
    from mem_parse_run [OF _ p] w1 have p1: "parse (Buffer_Bytes b m @ tmp) = Some (map_option (map (read_slice m1)) ps, Buffer_Bytes b2 m1)"
      "buffer_ok b2 m1" "b_arr b2 = b_arr b1" "\<forall>rs. ps = Some rs \<longrightarrow> list_all (\<lambda>v. fst v = b_arr b1) rs" by auto
    have t: "touches b m b2 m1" using w1 p1(3) by (simp add: touches_def)
    have recv: "Recv (Buffer_Bytes b m) segs =
        (case map_option (map (read_slice m1)) ps of
           None \<Rightarrow> Some (Inr [], Buffer_Bytes b2 m1, segs')
         | Some resp \<Rightarrow> if resp \<noteq> [] then Some (Inr resp, Buffer_Bytes b2 m1, segs') else Recv (Buffer_Bytes b2 m1) segs')"
      by (simp add: Recv.simps [of "Buffer_Bytes b m"] read p1(1))
    show ?thesis
    proof (cases "ps = Some []")
      case True
      then have again: "mem_Recv b2 segs' m1 = Some (r, b', rest, m')" using 1(3) run p by simp
      from 1(1) [OF read refl w [symmetric] p refl True _ p1(2) again] True t touches_trans show ?thesis by (auto simp: recv)
    next
      case False
      then show ?thesis using 1(3) run p p1 t by (auto simp: recv split: option.splits)
    qed
  qed
qed

end
