(* ===== verification/PooledReads.thy ===== *)
theory PooledReads
  imports SharedBuffer GameRecords "HOL-Library.Code_Target_Nat"
begin

text \<open>
  Methods of the client over the pool of \<^verbatim>\<open>src/basic/ssdb/gossdb/gossdb.go\<close>, with the replies as slices of the
  receive buffers: \<open>C\<close> takes the connection at the head of the channel, \<open>Do\<close> puts it back at the tail before the
  reply is read.  A page of records (\<^verbatim>\<open>src/data/game_record.go\<close>) reads its keys one by one while it sends further
  requests, so what it reads depends on the number of connections and on the requests of other goroutines, the loop of
  pings among them: the model follows one goroutine, and what the others have done to the pool between its steps is an
  argument.
\<close>

section \<open>The pool\<close>

text \<open>The memory, the buffer and the segments on the way of every connection, and the channel of idle connections.\<close>

record pooled =
  p_mem :: store
  p_buf :: "nat \<Rightarrow> bytes_buffer"
  p_inbox :: "nat \<Rightarrow> string list"
  p_idle :: "nat list"

type_synonym 's peer = "'s \<Rightarrow> string \<Rightarrow> string list \<times> 's"

definition mem_Do ::
  "'s peer \<Rightarrow> arg list \<Rightarrow> nat \<Rightarrow> pooled \<Rightarrow> 's \<Rightarrow> ((neterr + slice list) \<times> pooled \<times> 's) option" where
  "mem_Do serve args c P s =
     (case Send args of
        None \<Rightarrow> Some (Inl BadArguments, P, s)
      | Some bytes \<Rightarrow>
          (case serve s bytes of (segs, s) \<Rightarrow> do {
             (r, b, rest, m) \<leftarrow> mem_Recv (p_buf P c) (p_inbox P c @ segs) (p_mem P);
             Some (r, P\<lparr>p_mem := m, p_buf := (p_buf P)(c := b), p_inbox := (p_inbox P)(c := rest)\<rparr>, s)
           }))"

text \<open>\<open>Start\<close> once the server accepts: a new \<open>SSDBClient\<close>, with an empty buffer and a new socket.\<close>

definition mem_Start :: "nat \<Rightarrow> pooled \<Rightarrow> pooled" where
  "mem_Start c P =
     (case new_buffer (p_mem P) of (b, m) \<Rightarrow>
        P\<lparr>p_mem := m, p_buf := (p_buf P)(c := b), p_inbox := (p_inbox P)(c := [])\<rparr>)"

text \<open>
  \<open>C().Do\<close>: \<open>None\<close> is a caller that waits for a connection or a panic.  Once the connection is back in the channel, and
  before the caller looks at the reply, other goroutines may use the pool: \<open>other\<close> is what they do to it.
\<close>

definition pool_Do ::
  "'s peer \<Rightarrow> (pooled \<Rightarrow> pooled) \<Rightarrow> arg list \<Rightarrow> pooled \<Rightarrow> 's \<Rightarrow> ((neterr + slice list) \<times> pooled \<times> 's) option" where
  "pool_Do serve other args P s =
     (case p_idle P of
        [] \<Rightarrow> None
      | c # cs \<Rightarrow> do {
          (resp, P, s) \<leftarrow> mem_Do serve args c (P\<lparr>p_idle := cs\<rparr>) s;
          (resp, P, s) \<leftarrow> (case resp of Inr _ \<Rightarrow> Some (resp, P, s) | Inl _ \<Rightarrow> mem_Do serve args c (mem_Start c P) s);
          Some (resp, other (P\<lparr>p_idle := p_idle P @ [c]\<rparr>), s)
        })"

text \<open>The shape of a method, with slices as values; the test of the status reads the buffer.\<close>

definition mem_ask ::
  "'s peer \<Rightarrow> (pooled \<Rightarrow> pooled) \<Rightarrow> string \<Rightarrow> arg list \<Rightarrow> 'a \<Rightarrow> (val list \<Rightarrow> bool) \<Rightarrow> (store \<Rightarrow> slice list \<Rightarrow> 'a option) \<Rightarrow> pooled \<Rightarrow> 's \<Rightarrow>
     (('a \<times> error option) \<times> pooled \<times> 's) option" where
  "mem_ask serve other op args bad want good P s = do {
     (r, P, s) \<leftarrow> pool_Do serve other args P s;
     (case r of
        Inl _ \<Rightarrow> Some ((bad, Some (EDo op)), P, s)
      | Inr vs \<Rightarrow>
          (let resp = map (read_slice (p_mem P)) vs in do {
             b \<leftarrow> (if want resp then starts_ok resp else Some False);
             (if b then do { r \<leftarrow> good (p_mem P) vs; Some ((r, None), P, s) }
              else Some ((bad, makeError resp), P, s))
           }))
   }"

definition mem_Qsize ::
  "'s peer \<Rightarrow> (pooled \<Rightarrow> pooled) \<Rightarrow> string \<Rightarrow> pooled \<Rightarrow> 's \<Rightarrow> ((int \<times> error option) \<times> pooled \<times> 's) option" where
  "mem_Qsize serve other name =
     mem_ask serve other ''Qsize'' [AStr ''qsize'', AStr name] (- 1) two_resp (\<lambda>m vs. int_of (map (read_slice m) vs))"

definition mem_Qrange ::
  "'s peer \<Rightarrow> (pooled \<Rightarrow> pooled) \<Rightarrow> string \<Rightarrow> u64 \<Rightarrow> u64 \<Rightarrow> pooled \<Rightarrow> 's \<Rightarrow> ((slice list \<times> error option) \<times> pooled \<times> 's) option" where
  "mem_Qrange serve other name offset limit =
     mem_ask serve other ''qrange'' [AStr ''qrange'', AStr name, AInt offset, AInt limit] [] some_resp (\<lambda>m vs. Some (drop 1 vs))"

text \<open>The value of \<open>Hget\<close>, \<open>None\<close> for \<open>nil\<close>.\<close>

definition mem_Hget ::
  "'s peer \<Rightarrow> (pooled \<Rightarrow> pooled) \<Rightarrow> string \<Rightarrow> string \<Rightarrow> pooled \<Rightarrow> 's \<Rightarrow> ((slice option \<times> error option) \<times> pooled \<times> 's) option" where
  "mem_Hget serve other setName key =
     mem_ask serve other ''Hget'' [AStr ''hget'', AStr setName, AStr key] None two_resp (\<lambda>m vs. map_option Some (go_nth vs 1))"

section \<open>A page of records\<close>

text \<open>
  The loop over the keys: \<open>v.String()\<close> reads the slice when its turn comes.  \<open>others i\<close> is what the other goroutines do to the
  pool after the request number \<open>i\<close> of the page.
\<close>

fun mem_read_games ::
  "'s peer \<Rightarrow> (nat \<Rightarrow> pooled \<Rightarrow> pooled) \<Rightarrow> nat \<Rightarrow> 'a codec \<Rightarrow> 'a \<Rightarrow> string \<Rightarrow> slice list \<Rightarrow> pooled \<Rightarrow> 's \<Rightarrow>
     ('a list \<times> pooled \<times> 's) option" where
  "mem_read_games serve others i J z name [] P s = Some ([], P, s)"
| "mem_read_games serve others i J z name (v # vs) P s = do {
     ((value, err), P, s) \<leftarrow> mem_Hget serve (others i) name (read_slice (p_mem P) v) P s;
     let text = (case value of None \<Rightarrow> '''' | Some v \<Rightarrow> read_slice (p_mem P) v);
     (rs, P, s) \<leftarrow> mem_read_games serve others (Suc i) J z name vs P s;
     Some ((if err \<noteq> None then [] else keep_json J z [text]) @ rs, P, s)
   }"

definition mem_page_games ::
  "'s peer \<Rightarrow> (nat \<Rightarrow> pooled \<Rightarrow> pooled) \<Rightarrow> 'a codec \<Rightarrow> 'a \<Rightarrow> string \<Rightarrow> string \<Rightarrow> string \<Rightarrow> int \<Rightarrow> int \<Rightarrow> pooled \<Rightarrow> 's \<Rightarrow>
     (('a list \<times> int \<times> error option) \<times> pooled \<times> 's) option" where
  "mem_page_games serve others J z key que userid offset limit P s = do {
     ((size, err), P, s) \<leftarrow> mem_Qsize serve (others 0) (que @ userid) P s;
     (if err \<noteq> None then Some (([], size, err), P, s)
      else do {
        ((rang, err), P, s) \<leftarrow> mem_Qrange serve (others 1) (que @ userid) (of_int offset) (of_int limit) P s;
        (if err \<noteq> None then Some (([], size, err), P, s)
         else do {
           (list, P, s) \<leftarrow> mem_read_games serve others 2 J z (key @ userid) rang P s;
           Some ((list, size, None), P, s)
         })
      })
   }"

text \<open>\<open>Connect\<close>: the connections \<open>0, \<dots>, n - 1\<close>, each with a new buffer.\<close>

fun mem_Connect :: "nat \<Rightarrow> pooled \<Rightarrow> pooled" where
  "mem_Connect 0 P = P"
| "mem_Connect (Suc n) P = (let P = mem_Start n (mem_Connect n P) in P\<lparr>p_idle := p_idle P @ [n]\<rparr>)"

definition no_pool :: pooled where
  "no_pool = \<lparr>p_mem = \<lparr>arrays = (\<lambda>_. ''''), fresh = 0\<rparr>, p_buf = (\<lambda>_. \<lparr>b_arr = 0, b_off = 0, b_len = 0\<rparr>),
     p_inbox = (\<lambda>_. []), p_idle = []\<rparr>"

definition pool_Connect :: "int \<Rightarrow> pooled" where
  "pool_Connect thread = mem_Connect (nat (if thread < 1 then 5 else thread)) no_pool"

section \<open>Pools whose connections are idle\<close>

text \<open>Different idle connections have different arrays, and nothing is left in any buffer or on the way.\<close>

definition pool_ok :: "pooled \<Rightarrow> bool" where
  "pool_ok P \<longleftrightarrow> distinct (p_idle P) \<and> inj_on (\<lambda>c. b_arr (p_buf P c)) (set (p_idle P)) \<and>
     (\<forall>c\<in>set (p_idle P). buffer_ok (p_buf P c) (p_mem P) \<and> Buffer_Bytes (p_buf P c) (p_mem P) = '''' \<and> p_inbox P c = [])"

lemma new_buffer_keeps:
  "buffer_ok b m \<Longrightarrow> Buffer_Bytes b m = s \<Longrightarrow> buffer_ok b (snd (new_buffer m)) \<and> Buffer_Bytes b (snd (new_buffer m)) = s"
  by (auto simp: new_buffer_def buffer_ok_def Buffer_Bytes_def)

lemma mem_Connect_ok: "pool_ok (mem_Connect n no_pool) \<and> p_idle (mem_Connect n no_pool) = [0..<n]"
proof (induction n)
  case (Suc n)
  let ?P = "mem_Connect n no_pool"
  have arr: "b_arr (p_buf ?P c) < fresh (p_mem ?P)" if "c < n" for c using Suc that by (auto simp: pool_ok_def buffer_ok_def)
  have P: "mem_Start n ?P = ?P\<lparr>p_mem := snd (new_buffer (p_mem ?P)), p_buf := (p_buf ?P)(n := fst (new_buffer (p_mem ?P))),
      p_inbox := (p_inbox ?P)(n := [])\<rparr>" by (simp add: mem_Start_def split: prod.splits)
  have "inj_on (\<lambda>c. b_arr (p_buf ?P c)) {0..<n}" using Suc by (auto simp: pool_ok_def)
  then have "inj_on (\<lambda>c. b_arr (((p_buf ?P)(n := fst (new_buffer (p_mem ?P)))) c)) (insert n {0..<n})"
    using arr by (subst inj_on_insert) (force simp: inj_on_def new_buffer_def)
  moreover have "buffer_ok (p_buf ?P c) (snd (new_buffer (p_mem ?P))) \<and> Buffer_Bytes (p_buf ?P c) (snd (new_buffer (p_mem ?P))) = ''''"
    if "c < n" for c using Suc that by (intro new_buffer_keeps) (auto simp: pool_ok_def)
  moreover have "buffer_ok (fst (new_buffer m)) (snd (new_buffer m)) \<and> Buffer_Bytes (fst (new_buffer m)) (snd (new_buffer m)) = ''''" for m
    by (simp add: new_buffer_def buffer_ok_def Buffer_Bytes_def)
  ultimately show ?case using Suc by (auto simp: Let_def P pool_ok_def simp del: inj_on_insert)
qed (simp add: pool_ok_def no_pool_def)

text \<open>The client as \<open>Client\<close> sees it, on a server \<open>f\<close> that answers every request.\<close>

definition direct_net :: "('s \<Rightarrow> string list \<Rightarrow> string list \<times> 's) \<Rightarrow> 's net" where
  "direct_net f = \<lparr>exchange = (\<lambda>s req. case f s req of (reply, s) \<Rightarrow> (Some reply, s)), reopen = (\<lambda>s. s)\<rparr>"

text \<open>What a call leaves of the memory of the other connections, and what stays of the connections \<open>ds\<close>.\<close>

definition used :: "nat \<Rightarrow> pooled \<Rightarrow> pooled \<Rightarrow> bool" where
  "used c P P' \<longleftrightarrow> touches (p_buf P c) (p_mem P) (p_buf P' c) (p_mem P') \<and> (\<forall>d. d \<noteq> c \<longrightarrow> p_buf P' d = p_buf P d)"

definition keeps_conns :: "nat list \<Rightarrow> pooled \<Rightarrow> pooled \<Rightarrow> bool" where
  "keeps_conns ds P P' \<longleftrightarrow> (\<forall>d\<in>set ds. p_buf P' d = p_buf P d \<and> arrays (p_mem P') (b_arr (p_buf P d)) = arrays (p_mem P) (b_arr (p_buf P d)))"

text \<open>
  What other goroutines do while they take \<open>k\<close> connections out of the channel: they use these, and put back what they are
  done with, at the tail.  Connections not taken yet stay as they were.
\<close>

definition takes :: "nat \<Rightarrow> pooled \<Rightarrow> pooled \<Rightarrow> bool" where
  "takes k P P' \<longleftrightarrow> (\<exists>ds. p_idle P' = drop k (p_idle P) @ ds) \<and> keeps_conns (drop k (p_idle P)) P P' \<and> (pool_ok P \<longrightarrow> pool_ok P')"

lemma keeps_conns_read: "keeps_conns ds P P' \<Longrightarrow> d \<in> set ds \<Longrightarrow> fst v = b_arr (p_buf P d) \<Longrightarrow> read_slice (p_mem P') v = read_slice (p_mem P) v"
  by (cases v) (auto simp: keeps_conns_def read_slice_def)

lemma keeps_conns_trans: "keeps_conns ds P P1 \<Longrightarrow> keeps_conns ds P1 P2 \<Longrightarrow> keeps_conns ds P P2"
  by (auto simp: keeps_conns_def)

lemma keeps_conns_sub: "keeps_conns ds P P' \<Longrightarrow> set es \<subseteq> set ds \<Longrightarrow> keeps_conns es P P'"
  by (auto simp: keeps_conns_def)

lemma takes_none: "takes 0 P P"
  by (simp add: takes_def keeps_conns_def)

lemma takes_more:
  assumes "takes j P P1" and "takes k P1 P2"
  shows "takes (j + k) P P2"
proof -
  from assms obtain ds es where d: "p_idle P1 = drop j (p_idle P) @ ds" "p_idle P2 = drop k (p_idle P1) @ es" by (auto simp: takes_def)
  then have idle: "p_idle P2 = drop (j + k) (p_idle P) @ drop (k - length (drop j (p_idle P))) ds @ es" by (simp add: add.commute)
  have "set (drop (j + k) (p_idle P)) \<subseteq> set (drop j (p_idle P))" by (metis add.commute drop_drop set_drop_subset)
  moreover have "set (drop (j + k) (p_idle P)) \<subseteq> set (drop k (p_idle P1))" using d(1) by (auto simp: add.commute)
  ultimately have "keeps_conns (drop (j + k) (p_idle P)) P P2"
    using assms keeps_conns_trans keeps_conns_sub unfolding takes_def by metis
  then show ?thesis using assms idle by (auto simp: takes_def)
qed

lemma used_ok:
  assumes "pool_ok P" and "p_idle P = c # cs" and "used c P P'" and "p_idle P' = cs @ [c]"
    and "buffer_ok (p_buf P' c) (p_mem P')" and "Buffer_Bytes (p_buf P' c) (p_mem P') = ''''" and "p_inbox P' = (p_inbox P)(c := [])"
  shows "pool_ok P'"
proof -
  have c: "c \<notin> set cs" and inj: "inj_on (\<lambda>c. b_arr (p_buf P c)) (set (c # cs))" using assms(1,2) by (auto simp: pool_ok_def)
  have old: "b_arr (p_buf P d) < fresh (p_mem P)" "arrays (p_mem P') (b_arr (p_buf P d)) = arrays (p_mem P) (b_arr (p_buf P d))"
    "p_buf P' d = p_buf P d" "buffer_ok (p_buf P d) (p_mem P)" "Buffer_Bytes (p_buf P d) (p_mem P) = ''''" "p_inbox P d = []"
    if "d \<in> set cs" for d
    using that assms(1,2,3) c inj by (auto simp: pool_ok_def used_def touches_def buffer_ok_def inj_on_def)
  have grow: "fresh (p_mem P) \<le> fresh (p_mem P')" "b_arr (p_buf P' c) = b_arr (p_buf P c) \<or> fresh (p_mem P) \<le> b_arr (p_buf P' c)"
    using assms(3) by (auto simp: used_def touches_def)
  have "b_arr (p_buf P' c) \<noteq> b_arr (p_buf P d)" if "d \<in> set cs" for d
    using grow(2) old(1) [OF that] inj c that by (auto simp: inj_on_def)
  moreover have "inj_on (\<lambda>c. b_arr (p_buf P' c)) (set cs)" using inj old(3) by (auto simp: inj_on_def)
  ultimately have "inj_on (\<lambda>c. b_arr (p_buf P' c)) (set (p_idle P'))" using old(3) by (force simp: assms(4) inj_on_def)
  moreover have "buffer_ok (p_buf P' d) (p_mem P') \<and> Buffer_Bytes (p_buf P' d) (p_mem P') = '''' \<and> p_inbox P' d = []" if "d \<in> set cs" for d
    using old [OF that] grow(1) c that by (auto simp: buffer_ok_def Buffer_Bytes_def assms(7))
  ultimately show ?thesis using assms(1,2,5,6) by (auto simp: pool_ok_def assms(4,7))
qed

lemma used_keeps:
  assumes "pool_ok P" and "p_idle P = c # cs" and "used c P P'"
  shows "keeps_conns cs P P'"
proof -
  have "b_arr (p_buf P d) < fresh (p_mem P) \<and> b_arr (p_buf P d) \<noteq> b_arr (p_buf P c) \<and> d \<noteq> c" if "d \<in> set cs" for d
    using that assms(1,2) by (auto simp: pool_ok_def buffer_ok_def inj_on_def)
  then show ?thesis using assms(3) by (auto simp: keeps_conns_def used_def touches_def)
qed

lemma pool_Do_run:
  assumes ok: "pool_ok P" and idle: "p_idle P = c # cs" and args: "ABad \<notin> set args" "request args \<noteq> []"
    and f: "f s (request args) = (reply, s')" "reply \<noteq> []"
    and len: "length (message (request args)) < 2 ^ 63" "length (message reply) \<le> 32768"
  shows "\<exists>vs P0. (\<forall>other. pool_Do (serve_with f) other args P s = Some (Inr vs, other P0, s')) \<and> map (read_slice (p_mem P0)) vs = reply \<and>
    pool_ok P0 \<and> p_idle P0 = cs @ [c] \<and> keeps_conns cs P P0 \<and> list_all (\<lambda>v. fst v = b_arr (p_buf P0 c)) vs"
proof -
  have serve: "serve_with f s (message (request args)) = ([message reply], s')"
    using parse_message [of "request args" "[]"] args(2) len(1) f(1) by (simp add: serve_with_def)
  have start: "buffer_ok (p_buf P c) (p_mem P)" "Buffer_Bytes (p_buf P c) (p_mem P) = ''''" "p_inbox P c = []"
    using ok idle by (auto simp: pool_ok_def)
  have small: "length (message reply) \<le> read_size" using len(2) by (simp add: read_size_def)
  have parsed: "parse (message reply) = Some (Some reply, '''')" using parse_message [of reply "[]"] f(2) len(2) by simp
  have recv: "Recv '''' [message reply] = Some (Inr reply, '''', [])"
    using Recv_small [OF small, of "''''" reply] parsed f(2) by simp
  show ?thesis
  proof (cases "mem_Recv (p_buf P c) [message reply] (p_mem P)")
    case None
    then obtain b m where w: "Buffer_Write (message reply) (p_buf P c) (p_mem P) = (b, m)" "mem_parse b m = None"
    proof -
      obtain b m where w: "Buffer_Write (message reply) (p_buf P c) (p_mem P) = (b, m)" by fastforce
      have "mem_parse b m = None"
      proof (rule ccontr)
        assume "mem_parse b m \<noteq> None"
        then obtain ps b2 where p: "mem_parse b m = Some (ps, b2)" by auto
        from mem_parse_run [OF _ p] Buffer_Write_run [OF start(1) w] start(2) parsed
        have "map_option (map (read_slice m)) ps = Some reply" by auto
        then have "ps \<noteq> None" "ps \<noteq> Some []" using f(2) by auto
        then show False using None w p small by (auto simp: mem_Recv.simps [of "p_buf P c"] sock_Read_small split: option.splits)
      qed
      with w that show ?thesis by blast
    qed
    then have False using mem_parse_panics [OF w(2)] Buffer_Write_run [OF start(1) w(1)] start(2) parsed by simp
    then show ?thesis ..
  next
    case (Some a)
    then obtain r b rest m where m: "mem_Recv (p_buf P c) [message reply] (p_mem P) = Some (r, b, rest, m)" by (cases a) auto
    note R = mem_Recv_refines [OF start(1) m, unfolded start(2) recv]
    from R obtain vs where vs: "r = Inr vs" "map (read_slice m) vs = reply" "rest = []" "Buffer_Bytes b m = ''''" by (cases r) auto
    let ?P = "P\<lparr>p_mem := m, p_buf := (p_buf P)(c := b), p_inbox := (p_inbox P)(c := []), p_idle := cs @ [c]\<rparr>"
    have run: "pool_Do (serve_with f) other args P s = Some (Inr vs, other ?P, s')" for other
      using args(1) serve m vs by (simp add: pool_Do_def mem_Do_def idle Send_message start(3))
    have used: "used c P ?P" using R by (simp add: used_def)
    have "pool_ok ?P" using ok idle used by (rule used_ok) (use R vs(4) in simp_all)
    then show ?thesis using run used_keeps [OF ok idle used] R vs by (intro exI [of _ vs] exI [of _ ?P]) simp
  qed
qed

text \<open>A request of another goroutine takes one connection; \<open>after_request\<close> is its effect on the pool.\<close>

definition after_request :: "'s peer \<Rightarrow> 's \<Rightarrow> arg list \<Rightarrow> pooled \<Rightarrow> pooled" where
  "after_request serve s args P = (case pool_Do serve (\<lambda>P. P) args P s of None \<Rightarrow> P | Some (_, P', _) \<Rightarrow> P')"

lemma takes_request:
  assumes "pool_ok P" and "p_idle P \<noteq> []" and "ABad \<notin> set args" "request args \<noteq> []"
    and "f s (request args) = (reply, s')" "reply \<noteq> []"
    and "length (message (request args)) < 2 ^ 63" "length (message reply) \<le> 32768"
  shows "takes 1 P (after_request (serve_with f) s args P) \<and> length (p_idle (after_request (serve_with f) s args P)) = length (p_idle P)"
proof -
  obtain c cs where idle: "p_idle P = c # cs" using assms(2) by (cases "p_idle P") auto
  from pool_Do_run [where f = f and s = s, OF assms(1) idle assms(3-8)] obtain vs P0 where
    P0: "pool_Do (serve_with f) (\<lambda>P. P) args P s = Some (Inr vs, P0, s')" "pool_ok P0" "p_idle P0 = cs @ [c]" "keeps_conns cs P P0"
    by fast
  have "after_request (serve_with f) s args P = P0" using P0(1) by (simp add: after_request_def)
  with P0 idle show ?thesis by (simp add: takes_def)
qed

text \<open>While others take fewer connections than there are, the reply of a request is there to be read.\<close>

definition rely :: "nat \<Rightarrow> (pooled \<Rightarrow> pooled) \<Rightarrow> bool" where
  "rely k other \<longleftrightarrow> (\<forall>P. pool_ok P \<longrightarrow> takes k P (other P))"

lemma pool_Do_rely:
  assumes "pool_ok P" and "p_idle P = c # cs" and "ABad \<notin> set args" "request args \<noteq> []"
    and "f s (request args) = (reply, s')" "reply \<noteq> []"
    and "length (message (request args)) < 2 ^ 63" "length (message reply) \<le> 32768"
    and "rely k other" and "k \<le> length cs"
  shows "\<exists>vs P0 P' ds. pool_Do (serve_with f) other args P s = Some (Inr vs, P', s') \<and> P' = other P0 \<and> p_idle P0 = cs @ [c] \<and>
    map (read_slice (p_mem P')) vs = reply \<and> pool_ok P' \<and> p_idle P' = drop k cs @ c # ds \<and> keeps_conns (drop k cs) P P' \<and>
    list_all (\<lambda>v. fst v = b_arr (p_buf P' c)) vs"
proof -
  from pool_Do_run [where f = f and s = s, OF assms(1-8)] obtain vs P0 where
    P0: "\<And>other. pool_Do (serve_with f) other args P s = Some (Inr vs, other P0, s')" "map (read_slice (p_mem P0)) vs = reply"
      "pool_ok P0" "p_idle P0 = cs @ [c]" "keeps_conns cs P P0" "list_all (\<lambda>v. fst v = b_arr (p_buf P0 c)) vs" by blast
  have t: "takes k P0 (other P0)" using assms(9) P0(3) by (simp add: rely_def)
  then obtain ds where ds: "p_idle (other P0) = drop k cs @ c # ds" and keep: "keeps_conns (drop k cs @ [c]) P0 (other P0)" and ok: "pool_ok (other P0)"
    using P0(3,4) assms(10) by (auto simp: takes_def)
  have "read_slice (p_mem (other P0)) v = read_slice (p_mem P0) v" if "v \<in> set vs" for v
    using keeps_conns_read [OF keep, of c v] P0(6) that by (simp add: list_all_iff)
  then have "map (read_slice (p_mem (other P0))) vs = reply" using P0(2) by (metis map_cong)
  moreover have "p_buf (other P0) c = p_buf P0 c" using keep by (simp add: keeps_conns_def)
  moreover have "keeps_conns (drop k cs) P (other P0)"
    using keeps_conns_trans [OF keeps_conns_sub [OF P0(5)] keeps_conns_sub [OF keep], of "drop k cs"] set_drop_subset [of k cs] by auto
  ultimately show ?thesis using P0 ds ok by (intro exI [of _ vs] exI [of _ P0] exI [of _ "other P0"] exI [of _ ds]) simp
qed

section \<open>Methods over the pool\<close>

text \<open>
  A method over the pool gives what the method of \<open>Client\<close> gives, if its result is read before its connection is used again;
  \<open>ab\<close> is that reading.
\<close>

lemma mem_ask_run:
  assumes ok: "pool_ok P" and idle: "p_idle P = c # cs" and other: "rely k other" "k \<le> length cs"
    and args: "ABad \<notin> set args" "request args \<noteq> []"
    and f: "fst (f s (request args)) \<noteq> []"
    and len: "length (message (request args)) < 2 ^ 63" "length (message (fst (f s (request args)))) \<le> 32768"
    and good: "\<And>m vs. good' (map (read_slice m) vs) = map_option (ab m) (good m vs)" "\<And>m. ab m bad = bad'"
  shows "ask (direct_net f) op args bad' want good' s =
      map_option (\<lambda>((x, err), P', s'). ((ab (p_mem P') x, err), s')) (mem_ask (serve_with f) other op args bad want good P s)"
    and "mem_ask (serve_with f) other op args bad want good P s = Some ((x, err), P', t) \<Longrightarrow>
      pool_ok P' \<and> (\<exists>P0. P' = other P0 \<and> p_idle P0 = cs @ [c]) \<and> (\<exists>ds. p_idle P' = drop k cs @ c # ds) \<and> keeps_conns (drop k cs) P P' \<and>
      (x = bad \<or> (\<exists>vs. good (p_mem P') vs = Some x \<and> list_all (\<lambda>v. fst v = b_arr (p_buf P' c)) vs))"
proof -
  obtain reply s' where fs: "f s (request args) = (reply, s')" by fastforce
  from pool_Do_rely [OF ok idle args, of f s reply s' k other] other f len fs obtain vs P0 P1 ds where
    run: "pool_Do (serve_with f) other args P s = Some (Inr vs, P1, s')" and vs: "map (read_slice (p_mem P1)) vs = reply"
    and P1: "pool_ok P1" "P1 = other P0" "p_idle P0 = cs @ [c]" "p_idle P1 = drop k cs @ c # ds" "keeps_conns (drop k cs) P P1"
      "list_all (\<lambda>v. fst v = b_arr (p_buf P1 c)) vs" by auto
  have "Client_Do (direct_net f) args s = (Some reply, s')"
    using args(1) fs by (simp add: Client_Do_def try_Do_def direct_net_def)
  then show "ask (direct_net f) op args bad' want good' s =
      map_option (\<lambda>((x, err), P', s'). ((ab (p_mem P') x, err), s')) (mem_ask (serve_with f) other op args bad want good P s)"
    using good(1) [of "p_mem P1" vs]
    by (auto simp: ask_def mem_ask_def run vs good(2) map_option_bind split: Option.bind_splits if_splits)
  show "pool_ok P' \<and> (\<exists>P0. P' = other P0 \<and> p_idle P0 = cs @ [c]) \<and> (\<exists>ds. p_idle P' = drop k cs @ c # ds) \<and> keeps_conns (drop k cs) P P' \<and>
      (x = bad \<or> (\<exists>vs. good (p_mem P') vs = Some x \<and> list_all (\<lambda>v. fst v = b_arr (p_buf P' c)) vs))"
    if "mem_ask (serve_with f) other op args bad want good P s = Some ((x, err), P', t)"
  proof -
    from that have "P' = P1" and x: "x = bad \<or> good (p_mem P1) vs = Some x"
      by (auto simp: mem_ask_def run Let_def split: Option.bind_splits if_splits)
    then show ?thesis using P1 by blast
  qed
qed

section \<open>Sizes of requests\<close>

lemma length_fmt_nat_le: "length (fmt_nat n) \<le> Suc n"
proof (induction n rule: fmt_nat.induct)
  case (1 n)
  show ?case
  proof (cases "n < 10")
    case False
    then have "length (fmt_nat (n div 10)) \<le> Suc (n div 10)" using 1 by simp
    moreover have "Suc (n div 10) \<le> n" using False by linarith
    ultimately show ?thesis using False by (simp add: fmt_nat_large)
  qed simp
qed

lemma length_fmt_nat_digits: "n < 10 ^ Suc k \<Longrightarrow> length (fmt_nat n) \<le> Suc k"
proof (induction k arbitrary: n)
  case (Suc k)
  show ?case
  proof (cases "n < 10")
    case False
    have "n div 10 < 10 ^ Suc k" using Suc.prems by (simp add: less_mult_imp_div_less)
    from Suc.IH [OF this] show ?thesis using False by (simp add: fmt_nat_large)
  qed simp
qed simp

lemma length_put_le: "length (put s) \<le> 2 * length s + 3"
  using length_fmt_nat_le [of "length s"] by (simp add: put_def)

lemma length_fmt_int64: "length (fmt_int (sint (n :: u64))) \<le> 20"
proof -
  have "- (2 ^ 63) \<le> sint n" "sint n < 2 ^ 63" using sint_range_size [of n] by (simp_all add: word_size)
  then have "nat \<bar>sint n\<bar> < 10 ^ Suc 18" by simp
  from length_fmt_nat_digits [OF this] show ?thesis by (auto simp: fmt_int_def)
qed

lemma length_message_member: "v \<in> set vs \<Longrightarrow> length v \<le> length (message vs)"
  by (induction vs) (auto simp: message_def put_def)

text \<open>Servers that answer every request, with replies that fit one read.\<close>

definition small_replies :: "('s \<Rightarrow> string list \<Rightarrow> string list \<times> 's) \<Rightarrow> bool" where
  "small_replies f \<longleftrightarrow> (\<forall>s req. fst (f s req) \<noteq> [] \<and> length (message (fst (f s req))) \<le> 32768)"

lemma small_repliesD: "small_replies f \<Longrightarrow> fst (f s req) \<noteq> [] \<and> length (message (fst (f s req))) \<le> 32768"
  by (simp add: small_replies_def)

lemma hget_request_small:
  "length name < 2 ^ 60 \<Longrightarrow> length k < 2 ^ 61 \<Longrightarrow> length (message [''hget'', name, k]) < 2 ^ 63"
  using length_put_le [of "''hget''"] length_put_le [of name] length_put_le [of k] by (simp add: message_def)

section \<open>The keys of a page\<close>

definition text_of :: "store \<Rightarrow> slice option \<Rightarrow> string" where
  "text_of m v = (case v of None \<Rightarrow> '''' | Some v \<Rightarrow> read_slice m v)"

lemma mem_Hget_run:
  assumes "small_replies f" and "length name < 2 ^ 60" and "length k < 2 ^ 61" and "pool_ok P" and "p_idle P = c # cs"
    and "rely n other" and "n \<le> length cs"
  shows "Hget (direct_net f) name k s = map_option (\<lambda>((x, err), P', s'). ((text_of (p_mem P') x, err), s')) (mem_Hget (serve_with f) other name k P s)"
    and "mem_Hget (serve_with f) other name k P s = Some ((x, err), P', t) \<Longrightarrow>
      pool_ok P' \<and> (\<exists>ds. p_idle P' = drop n cs @ c # ds) \<and> keeps_conns (drop n cs) P P'"
proof -
  have req: "request [AStr ''hget'', AStr name, AStr k] = [''hget'', name, k]" by simp
  have reply: "fst (f s [''hget'', name, k]) \<noteq> []" "length (message (fst (f s [''hget'', name, k]))) \<le> 32768"
    using small_repliesD [OF assms(1), of s "[''hget'', name, k]"] by auto
  have val: "value_of (map (read_slice m) vs) = map_option (text_of m) (map_option Some (go_nth vs 1))" for m vs
    by (auto simp: value_of_def go_nth_def text_of_def)
  note run = mem_ask_run [OF assms(4-7), of "[AStr ''hget'', AStr name, AStr k]" f s value_of text_of "\<lambda>m vs. map_option Some (go_nth vs 1)" None "''''",
      unfolded req, OF _ _ reply(1) hget_request_small [OF assms(2,3)] reply(2) val]
  show "Hget (direct_net f) name k s = map_option (\<lambda>((x, err), P', s'). ((text_of (p_mem P') x, err), s')) (mem_Hget (serve_with f) other name k P s)"
    unfolding Hget_def mem_Hget_def by (rule run(1)) (simp_all add: text_of_def)
  show "pool_ok P' \<and> (\<exists>ds. p_idle P' = drop n cs @ c # ds) \<and> keeps_conns (drop n cs) P P'"
    if "mem_Hget (serve_with f) other name k P s = Some ((x, err), P', t)"
    using run(2) [OF _ _ _ that [unfolded mem_Hget_def]] by (auto simp: text_of_def)
qed

text \<open>
  The keys still to be read are slices of the buffer of the connection \<open>c0\<close>.  The requests for them and those of the other
  goroutines, \<open>k i\<close> after the request number \<open>i\<close>, must not reach \<open>c0\<close> before the last key has been read.
\<close>

lemma mem_read_games_run:
  assumes "small_replies f" and "length name < 2 ^ 60" and "\<And>i. rely (k i) (others i)" and "pool_ok P" and "p_idle P = cs @ c0 # ds"
    and "length vs + (\<Sum>j<length vs. k (i + j)) \<le> Suc (length cs)"
    and "list_all (\<lambda>v. fst v = b_arr (p_buf P c0)) vs" and "list_all (\<lambda>v. length (read_slice (p_mem P) v) < 2 ^ 61) vs"
  shows "read_games (direct_net f) J z (\<lambda>v. (name, v)) (map (read_slice (p_mem P)) vs) s =
      map_option (\<lambda>(rs, P', s'). (rs, s')) (mem_read_games (serve_with f) others i J z name vs P s)"
  using assms(4-)
proof (induction vs arbitrary: cs ds P s i)
  case (Cons v vs)
  obtain c cs' where idle: "p_idle P = c # cs'" using Cons.prems(2) by (cases cs) auto
  let ?k = "read_slice (p_mem P) v" and ?S = "\<Sum>j<length vs. k (Suc i + j)"
  have key: "length ?k < 2 ^ 61" using Cons.prems(5) by simp
  have "(\<Sum>j<length (v # vs). k (i + j)) = k i + ?S"
    by (simp add: sum.lessThan_Suc_shift del: sum.lessThan_Suc)
  then have budget: "length vs + k i + ?S \<le> length cs" using Cons.prems(3) by simp
  have len: "length cs' = length cs + length ds" using Cons.prems(2) idle by (metis add_Suc_right length_Cons length_append nat.inject)
  have n: "k i \<le> length cs'" using budget len by linarith
  note get = mem_Hget_run [OF assms(1,2) key Cons.prems(1) idle assms(3) n]
  show ?case
  proof (cases "mem_Hget (serve_with f) (others i) name ?k P s")
    case None
    then show ?thesis using get(1) [of s] by simp
  next
    case (Some a)
    then obtain x err P1 t where x: "mem_Hget (serve_with f) (others i) name ?k P s = Some ((x, err), P1, t)" by (cases a) auto
    from get(2) [OF x] obtain es where P1: "pool_ok P1" "p_idle P1 = drop (k i) cs' @ c # es" "keeps_conns (drop (k i) cs') P P1" by blast
    have "read_games (direct_net f) J z (\<lambda>v. (name, v)) (map (read_slice (p_mem P)) vs) t =
        map_option (\<lambda>(rs, P', s'). (rs, s')) (mem_read_games (serve_with f) others (Suc i) J z name vs P1 t)"
    proof (cases "vs = []")
      case False
      then have "0 < length vs" by simp
      then have "0 < length cs" using budget by linarith
      then obtain cs'' where cs: "cs = c # cs''" "cs' = cs'' @ c0 # ds" using idle Cons.prems(2) by (cases cs) auto
      have "length cs = Suc (length cs'')" using cs(1) by simp
      then have k: "k i \<le> length cs''" using budget \<open>0 < length vs\<close> by linarith
      then have d: "drop (k i) cs' = drop (k i) cs'' @ c0 # ds" by (simp add: cs(2))
      have buf: "p_buf P1 c0 = p_buf P c0" using P1(3) by (simp add: d keeps_conns_def)
      have same: "read_slice (p_mem P1) w = read_slice (p_mem P) w" if "w \<in> set vs" for w
        using keeps_conns_read [OF P1(3), of c0 w] Cons.prems(4) that by (simp add: d list_all_iff)
      then have "map (read_slice (p_mem P)) vs = map (read_slice (p_mem P1)) vs" by simp
      also have "read_games (direct_net f) J z (\<lambda>v. (name, v)) \<dots> t =
          map_option (\<lambda>(rs, P', s'). (rs, s')) (mem_read_games (serve_with f) others (Suc i) J z name vs P1 t)"
        using P1 Cons.prems(4,5) same budget cs(1) k
        by (intro Cons.IH [of P1 "drop (k i) cs''" "ds @ c # es"]) (auto simp: d list_all_iff buf)
      finally show ?thesis .
    qed simp
    moreover have "Hget (direct_net f) name ?k s = Some ((text_of (p_mem P1) x, err), t)" using get(1) [of s] x by simp
    ultimately show ?thesis
      by (auto simp: x text_of_def [symmetric] split: Option.bind_splits)
  qed
qed simp

lemma qrange_request_small: "length name < 2 ^ 60 \<Longrightarrow>
    length (message [''qrange'', name, fmt_int (sint (a :: u64)), fmt_int (sint (b :: u64))]) < 2 ^ 63"
  using length_put_le [of "''qrange''"] length_put_le [of name] length_put_le [of "fmt_int (sint a)"] length_put_le [of "fmt_int (sint b)"]
    length_fmt_int64 [of a] length_fmt_int64 [of b] by (simp add: message_def)

lemma qsize_request_small: "length name < 2 ^ 60 \<Longrightarrow> length (message [''qsize'', name]) < 2 ^ 63"
  using length_put_le [of "''qsize''"] length_put_le [of name] by (simp add: message_def)

lemma mem_Qsize_run:
  assumes "small_replies f" and "length name < 2 ^ 60" and "pool_ok P" and "p_idle P = c # cs" and "rely n other" and "n \<le> length cs"
  shows "Qsize (direct_net f) name s = map_option (\<lambda>((x, err), P', s'). ((x, err), s')) (mem_Qsize (serve_with f) other name P s)"
    and "mem_Qsize (serve_with f) other name P s = Some ((x, err), P', t) \<Longrightarrow> pool_ok P' \<and> (\<exists>P0. P' = other P0 \<and> p_idle P0 = cs @ [c])"
proof -
  have req: "request [AStr ''qsize'', AStr name] = [''qsize'', name]" by simp
  have reply: "fst (f s [''qsize'', name]) \<noteq> []" "length (message (fst (f s [''qsize'', name]))) \<le> 32768"
    using small_repliesD [OF assms(1), of s "[''qsize'', name]"] by auto
  have val: "int_of (map (read_slice m) vs) = map_option (\<lambda>x. x) (int_of (map (read_slice m) vs))" for m vs
    by (simp add: map_option.id [unfolded id_def])
  note run = mem_ask_run [OF assms(3-6), of "[AStr ''qsize'', AStr name]" f s int_of "\<lambda>m x. x" "\<lambda>m vs. int_of (map (read_slice m) vs)" "- 1" "- 1",
      unfolded req, OF _ _ reply(1) qsize_request_small [OF assms(2)] reply(2) val]
  show "Qsize (direct_net f) name s = map_option (\<lambda>((x, err), P', s'). ((x, err), s')) (mem_Qsize (serve_with f) other name P s)"
    unfolding Qsize_def mem_Qsize_def by (rule run(1)) simp_all
  show "pool_ok P' \<and> (\<exists>P0. P' = other P0 \<and> p_idle P0 = cs @ [c])" if "mem_Qsize (serve_with f) other name P s = Some ((x, err), P', t)"
    using run(2) [OF _ _ _ that [unfolded mem_Qsize_def]] by simp
qed

lemma mem_Qrange_run:
  assumes "small_replies f" and "length name < 2 ^ 60" and "pool_ok P" and "p_idle P = c # cs" and "rely n other" and "n \<le> length cs"
  shows "Qrange (direct_net f) name a b s =
      map_option (\<lambda>((x, err), P', s'). ((map (read_slice (p_mem P')) x, err), s')) (mem_Qrange (serve_with f) other name a b P s)"
    and "mem_Qrange (serve_with f) other name a b P s = Some ((x, err), P', t) \<Longrightarrow>
      pool_ok P' \<and> (\<exists>ds. p_idle P' = drop n cs @ c # ds) \<and> list_all (\<lambda>v. fst v = b_arr (p_buf P' c)) x"
proof -
  let ?req = "[''qrange'', name, fmt_int (sint a), fmt_int (sint b)]"
  have req: "request [AStr ''qrange'', AStr name, AInt a, AInt b] = ?req" by simp
  have reply: "fst (f s ?req) \<noteq> []" "length (message (fst (f s ?req))) \<le> 32768"
    using small_repliesD [OF assms(1), of s ?req] by auto
  have val: "rest_of (map (read_slice m) vs) = map_option (map (read_slice m)) (Some (drop 1 vs))" for m vs
    by (simp add: rest_of_def drop_map)
  note run = mem_ask_run [OF assms(3-6), of "[AStr ''qrange'', AStr name, AInt a, AInt b]" f s rest_of "\<lambda>m. map (read_slice m)"
      "\<lambda>m vs. Some (drop 1 vs)" "[]" "[]", unfolded req, OF _ _ reply(1) qrange_request_small [OF assms(2)] reply(2) val]
  show "Qrange (direct_net f) name a b s =
      map_option (\<lambda>((x, err), P', s'). ((map (read_slice (p_mem P')) x, err), s')) (mem_Qrange (serve_with f) other name a b P s)"
    using run(1) [of "''qrange''" some_resp]
    by (simp add: Qrange_def QueueStore.slice_def qslice_cmd_def go_nth_def mem_Qrange_def)
  show "pool_ok P' \<and> (\<exists>ds. p_idle P' = drop n cs @ c # ds) \<and> list_all (\<lambda>v. fst v = b_arr (p_buf P' c)) x"
    if "mem_Qrange (serve_with f) other name a b P s = Some ((x, err), P', t)"
    using run(2) [OF _ _ _ that [unfolded mem_Qrange_def]] by (auto simp: list_all_iff dest: in_set_dropD)
qed

text \<open>What \<open>Qrange\<close> returns is part of the reply, so it is small and there are not too many entries.\<close>

lemma Qrange_reply:
  assumes "Qrange (direct_net f) name a b s = Some ((ks, err), t)"
  shows "ks = [] \<or> ks = drop 1 (fst (f s [''qrange'', name, fmt_int (sint a), fmt_int (sint b)]))"
  using assms
  by (auto simp: Qrange_def QueueStore.slice_def qslice_cmd_def go_nth_def ask_def Client_Do_def try_Do_def direct_net_def rest_of_def
      split: Option.bind_splits if_splits prod.splits)

text \<open>
  C19.  A page of records is read correctly over the pool as long as its entries and the requests that other goroutines make
  in the meantime (\<open>k i\<close> after the request number \<open>i\<close> of the page) are together no more than the connections that are idle
  (\<open>K\<close>) when the keys are asked for: its records, their number, the error and what the server saw are then those of a
  caller that copies every reply when it arrives.  The keys are slices of the buffer of one connection, and that connection
  is used again only when the last of them has been read.  Every reply fits one read.
\<close>

theorem page_over_pool:
  assumes "small_replies f" and "length (key @ userid) < 2 ^ 60" and "length (que @ userid) < 2 ^ 60" and "pool_ok P"
    and "\<And>i. rely (k i) (others i)" and "k 0 < length (p_idle P)"
    and "\<And>P'. length (p_idle P') = length (p_idle P) \<Longrightarrow> K \<le> length (p_idle (others 0 P'))" and "k 1 < K"
    and "\<And>s n. n = length (fst (f s [''qrange'', que @ userid, fmt_int (sint (of_int offset :: u64)), fmt_int (sint (of_int limit :: u64))])) \<Longrightarrow>
           n + (\<Sum>i<n. k (Suc i)) \<le> Suc K"
  shows "map_option (\<lambda>(r, P', s'). (r, s')) (mem_page_games (serve_with f) others J z key que userid offset limit P s) =
    page_games (direct_net f) J z key que userid offset limit s"
proof -
  obtain c cs where idle: "p_idle P = c # cs" using assms(6) by (cases "p_idle P") auto
  have k0: "k 0 \<le> length cs" using assms(6) idle by simp
  note size = mem_Qsize_run [OF assms(1,3,4) idle assms(5) k0]
  show ?thesis
  proof (cases "mem_Qsize (serve_with f) (others 0) (que @ userid) P s")
    case None
    then show ?thesis using size(1) [of s] by (simp add: mem_page_games_def page_games_def)
  next
    case (Some y)
    then obtain n err P1 t where n: "mem_Qsize (serve_with f) (others 0) (que @ userid) P s = Some ((n, err), P1, t)" by (cases y) auto
    from size(2) [OF n] obtain P0 where P0: "pool_ok P1" "P1 = others 0 P0" "p_idle P0 = cs @ [c]" by blast
    then have K: "K \<le> length (p_idle P1)" using assms(7) [of P0] idle by simp
    then obtain c1 cs1 where P1: "p_idle P1 = c1 # cs1" using assms(8) by (cases "p_idle P1") auto
    have k1: "k 1 \<le> length cs1" and K1: "K \<le> Suc (length cs1)" using K P1 assms(8) by simp_all
    note rang = mem_Qrange_run [OF assms(1,3) P0(1) P1 assms(5) k1, of "of_int offset" "of_int limit"]
    show ?thesis
    proof (cases "mem_Qrange (serve_with f) (others 1) (que @ userid) (of_int offset) (of_int limit) P1 t")
      case None
      then show ?thesis using size(1) [of s] n rang(1) [of t] by (auto simp: mem_page_games_def page_games_def)
    next
      case (Some y)
      then obtain vs err' P2 t' where vs: "mem_Qrange (serve_with f) (others 1) (que @ userid) (of_int offset) (of_int limit) P1 t = Some ((vs, err'), P2, t')"
        by (cases y) auto
      from rang(2) [OF vs] obtain ds where P2: "pool_ok P2" "p_idle P2 = drop (k 1) cs1 @ c1 # ds" "list_all (\<lambda>v. fst v = b_arr (p_buf P2 c1)) vs" by blast
      have ks: "Qrange (direct_net f) (que @ userid) (of_int offset) (of_int limit) t = Some ((map (read_slice (p_mem P2)) vs, err'), t')"
        using rang(1) [of t] vs by simp
      let ?reply = "fst (f t [''qrange'', que @ userid, fmt_int (sint (of_int offset :: u64)), fmt_int (sint (of_int limit :: u64))])"
      define keys where "keys = map (read_slice (p_mem P2)) vs"
      from Qrange_reply [OF ks] have "keys = [] \<or> keys = drop 1 ?reply" unfolding keys_def .
      then have sub: "set keys \<subseteq> set ?reply" "length keys \<le> length ?reply - 1" by (auto dest: in_set_dropD)
      have "length x < 2 ^ 61" if "x \<in> set ?reply" for x
      proof -
        have "length x \<le> 32768" using length_message_member [OF that] small_repliesD [OF assms(1), of t] order_trans by blast
        then show ?thesis by simp
      qed
      then have small: "list_all (\<lambda>v. length (read_slice (p_mem P2) v) < 2 ^ 61) vs" using sub(1) by (auto simp: list_all_iff keys_def)
      have "Suc (length vs) \<le> length ?reply" using sub(2) small_repliesD [OF assms(1), of t] by (cases ?reply) (auto simp: keys_def)
      then have "Suc (length vs) + (\<Sum>i<Suc (length vs). k (Suc i)) \<le> length ?reply + (\<Sum>i<length ?reply. k (Suc i))"
        by (intro add_mono sum_mono2) auto
      also have "\<dots> \<le> Suc K" using assms(9) [of _ t] by blast
      finally have "length vs + (\<Sum>j<length vs. k (2 + j)) \<le> Suc (length (drop (k 1) cs1))"
        using K1 by (simp add: sum.lessThan_Suc_shift del: sum.lessThan_Suc)
      from mem_read_games_run [OF assms(1,2,5) P2(1,2) this P2(3) small, of J z t'] show ?thesis
        using size(1) [of s] n ks vs by (auto simp: mem_page_games_def page_games_def split: Option.bind_splits)
    qed
  qed
qed

text \<open>
  A server that holds \<open>n\<close> games of one player under keys of one character, and the page read from it with a codec that
  accepts any text but the empty one.  It tells the three requests apart by their first byte.
\<close>

definition games_peer :: "nat \<Rightarrow> unit peer" where
  "games_peer n s bytes =
     (let keys = map fmt_nat [1..<n + 1]; k = take 1 (drop (length bytes - 3) bytes) in
      ([message (if hd bytes = CHR ''5'' then [''ok'', fmt_nat n]
        else if hd bytes = CHR ''6'' then ''ok'' # keys
        else if k \<in> set keys then [''ok'', ''game no. '' @ k]
        else [''not_found''])], ()))"

definition text_codec :: "string codec" where
  "text_codec = \<lparr>enc = (\<lambda>s. s), dec = (\<lambda>s x. (s, s \<noteq> ''''))\<rparr>"

definition game_page :: "int \<Rightarrow> nat \<Rightarrow> (string list \<times> int \<times> error option) option" where
  "game_page threads n =
     map_option fst (mem_page_games (games_peer n) (\<lambda>_ P. P) text_codec '''' ''g:'' ''q:'' ''7'' 0 30 (pool_Connect threads) ())"

text \<open>
  The budget is needed.  For example, with two connections and three games, the reply to the second \<open>Hget\<close> is written over
  the keys, the third request asks for a key that does not exist, and the page shows two games while it reports three.
\<close>

lemma long_page_loses_records: "game_page 2 3 = Some ([''game no. 1'', ''game no. 2''], 3, None)"
  by code_simp

text \<open>Two games, three connections, and a goroutine that asks for \<open>info\<close> while the keys are read: nothing is lost.\<close>

definition two_games :: "unit \<Rightarrow> string list \<Rightarrow> string list \<times> unit" where
  "two_games s req =
     (if hd req = ''qsize'' then [''ok'', ''2''] else if hd req = ''qrange'' then [''ok'', ''1'', ''2'']
      else [''ok'', if last req = ''1'' then ''game no. 1'' else ''game no. 2''], ())"

lemma two_games_small: "small_replies two_games"
  by (auto simp: small_replies_def two_games_def message_def put_def fmt_nat_large)

definition others_ask :: "nat \<Rightarrow> pooled \<Rightarrow> pooled" where
  "others_ask i = (if i = 1 then after_request (serve_with two_games) () [AStr ''info''] else (\<lambda>P. P))"

lemma others_ask_rely: "rely (if i = 1 then 1 else 0) (others_ask i)"
proof (cases "i = 1")
  case True
  have "takes 1 P (after_request (serve_with two_games) () [AStr ''info''] P)" if "pool_ok P" for P
  proof (cases "p_idle P = []")
    case True
    then show ?thesis using that by (simp add: after_request_def pool_Do_def takes_def keeps_conns_def)
  next
    case False
    then show ?thesis
      using takes_request [OF that, of "[AStr ''info'']" two_games "()"] two_games_small small_repliesD [of two_games "()" "[''info'']"]
      by (cases "two_games () [''info'']") (auto simp: message_def put_def fmt_nat_large)
  qed
  then show ?thesis using True by (simp add: rely_def others_ask_def)
qed (simp add: rely_def others_ask_def takes_none)

theorem page_over_pool_witness:
  "map_option (\<lambda>(r, P', s'). (r, s'))
     (mem_page_games (serve_with two_games) others_ask text_codec '''' ''g:'' ''q:'' ''7'' 0 30 (pool_Connect 3) ()) =
     Some (([''game no. 1'', ''game no. 2''], 2, None), ())"
proof -
  have P: "pool_ok (pool_Connect 3)" "p_idle (pool_Connect 3) = [0, 1, 2]"
    using mem_Connect_ok [of 3] by (simp_all add: pool_Connect_def upt_rec numeral_3_eq_3)
  have "map_option (\<lambda>(r, P', s'). (r, s'))
      (mem_page_games (serve_with two_games) others_ask text_codec '''' ''g:'' ''q:'' ''7'' 0 30 (pool_Connect 3) ()) =
      page_games (direct_net two_games) text_codec '''' ''g:'' ''q:'' ''7'' 0 30 ()"
    by (rule page_over_pool [where K = 3, OF two_games_small _ _ P(1) others_ask_rely])
      (simp_all add: P(2) two_games_def others_ask_def numeral_3_eq_3)
  also have "\<dots> = Some (([''game no. 1'', ''game no. 2''], 2, None), ())" by code_simp
  finally show ?thesis .
qed

end
