(* ===== verification/IpLocation.thy ===== *)
theory IpLocation
  imports Encodings
begin

text \<open>
  The place of an address, \<^verbatim>\<open>src/basic/iplocation/iplocation.go\<close>: a binary search in the index of a data file whose
  bytes are explicit, and the texts of the record it finds.  The decoder of the GBK texts and the part of \<open>net.ParseIP\<close>
  for IPv6 texts are parameters.
\<close>

section \<open>Reading the file\<close>

text \<open>
  \<open>ReadAt\<close> fills a slice with the bytes at an offset; at the end of the file the rest of the slice keeps what it
  held, and a negative offset reads nothing.
\<close>

definition ReadAt :: "u8 list \<Rightarrow> int \<Rightarrow> u8 list \<Rightarrow> u8 list" where
  "ReadAt file pos dst = (if 0 \<le> pos then go_copy dst (drop (nat pos) file) else dst)"

definition LE_Uint32 :: "u8 list \<Rightarrow> int" where
  "LE_Uint32 b = uint (b ! 0) + 2 ^ 8 * uint (b ! 1) + 2 ^ 16 * uint (b ! 2) + 2 ^ 24 * uint (b ! 3)"

definition BE_Uint32 :: "u8 list \<Rightarrow> int" where
  "BE_Uint32 b = uint (join4 (b ! 0) (b ! 1) (b ! 2) (b ! 3))"

definition readLong3 :: "u8 list \<Rightarrow> int \<Rightarrow> int" where
  "readLong3 file offset = LE_Uint32 ((ReadAt file offset (replicate 4 0))[3 := 0])"

text \<open>The text at an offset: byte by byte up to a zero, at most 1024 bytes; \<open>n\<close> bytes are still to be read.\<close>

fun readString_loop :: "u8 list \<Rightarrow> int \<Rightarrow> nat \<Rightarrow> u8 list" where
  "readString_loop file pos 0 = []"
| "readString_loop file pos (Suc n) =
     (let b = ReadAt file pos [0] ! 0 in if b = 0 then [] else b # readString_loop file (pos + 1) n)"

definition readString :: "u8 list \<Rightarrow> int \<Rightarrow> u8 list" where
  "readString file offset = readString_loop file offset 1024"

definition readArea :: "u8 list \<Rightarrow> int \<Rightarrow> u8 list" where
  "readArea file offset =
     (let m = ReadAt file offset [0] ! 0 in
      if m = 1 \<or> m = 2 then
        (let areaOffset = readLong3 file (offset + 1) in if areaOffset = 0 then [] else readString file areaOffset)
      else readString file offset)"

text \<open>The country and the area of the record at an offset.\<close>

definition getIpLocation :: "u8 list \<Rightarrow> int \<Rightarrow> u8 list \<times> u8 list" where
  "getIpLocation file offset =
     (let m = ReadAt file (offset + 4) [0] ! 0 in
      if m = 1 then
        (let countryOffset = readLong3 file (offset + 5); mod2 = ReadAt file countryOffset [m] ! 0
         in if mod2 = 2 then
              (readString file (readLong3 file (countryOffset + 1)), readArea file (countryOffset + 4))
            else (let country = readString file countryOffset
                  in (country, readArea file (countryOffset + int (length country) + 1))))
      else if m = 2 then
        (readString file (readLong3 file (offset + 5)), readArea file (offset + 8))
      else (let country = readString file (offset + 4)
            in (country, readArea file (offset + 4 + int (length country) + 1))))"

section \<open>Addresses\<close>

text \<open>\<open>net.ParseIP\<close> and \<open>To4\<close>: decimal numbers below \<open>0xFFFFFF\<close> with the number of their digits, then four of them below 256.\<close>

fun dtoi_loop :: "string \<Rightarrow> nat \<Rightarrow> (nat \<times> string) option" where
  "dtoi_loop [] n = Some (n, [])"
| "dtoi_loop (c # cs) n =
     (if is_digit c then
        (let n = n * 10 + digit_val c in if n \<ge> 0xFFFFFF then None else dtoi_loop cs n)
      else Some (n, c # cs))"

definition dtoi :: "string \<Rightarrow> (nat \<times> string) option" where
  "dtoi s = (case s of [] \<Rightarrow> None | c # _ \<Rightarrow> if is_digit c then dtoi_loop s 0 else None)"

fun parse_parts :: "nat \<Rightarrow> bool \<Rightarrow> string \<Rightarrow> u8 list option" where
  "parse_parts 0 _ s = (if s = '''' then Some [] else None)"
| "parse_parts (Suc n) first s =
     (if s = '''' then None
      else if \<not> first \<and> hd s \<noteq> CHR ''.'' then None
      else (case dtoi (if first then s else tl s) of
              None \<Rightarrow> None
            | Some (x, s) \<Rightarrow> if x > 255 then None else map_option (Cons (of_nat x)) (parse_parts n False s)))"

definition ParseIP_To4 :: "(string \<Rightarrow> u8 list option) \<Rightarrow> string \<Rightarrow> u8 list option" where
  "ParseIP_To4 parseIPv6 s =
     (case filter (\<lambda>c. c = CHR ''.'' \<or> c = CHR '':'') s of
        [] \<Rightarrow> None
      | c # _ \<Rightarrow> if c = CHR ''.'' then parse_parts 4 True s else parseIPv6 s)"

section \<open>Query\<close>

text \<open>
  A round of the loop probes the middle of the index: the position, the first address, the offset of the record and
  the last address, all read through the one buffer \<open>buf\<close>.
\<close>

definition Query_probe :: "u8 list \<Rightarrow> u8 list \<Rightarrow> int \<Rightarrow> int \<Rightarrow> int \<times> int \<times> int \<times> int \<times> u8 list" where
  "Query_probe file buf head tail =
     (let idxNum = go_quot (tail - head) 7;
          pos = head + go_quot idxNum 2 * 7;
          buf1 = ReadAt file pos (take 7 buf) @ drop 7 buf;
          buf2 = buf1[7 := 0];
          rpos = LE_Uint32 (drop 4 buf2);
          buf3 = ReadAt file rpos (take 4 buf2) @ drop 4 buf2
      in (pos, LE_Uint32 buf1, rpos, LE_Uint32 buf3, buf3))"

text \<open>
  The loop, with \<open>n\<close> rounds left for the address with the number \<open>ipq\<close>.  A round that finds the record does not end the
  loop; the same record is found again in every later round.
\<close>

fun Query_loop :: "u8 list \<Rightarrow> int \<Rightarrow> nat \<Rightarrow> u8 list \<Rightarrow> int \<Rightarrow> int \<Rightarrow> bool \<Rightarrow> int \<Rightarrow> bool \<times> int" where
  "Query_loop file ipq 0 buf head tail got rpos = (got, rpos)"
| "Query_loop file ipq (Suc n) buf head tail got rpos =
     (case Query_probe file buf head tail of (pos, ip, rpos, ip2, buf) \<Rightarrow>
        if ipq > ip2 then Query_loop file ipq n buf pos tail got rpos
        else if ipq < ip then Query_loop file ipq n buf head pos got rpos
        else Query_loop file ipq n buf head tail True rpos)"

record ip2location_resp =
  loc_Ok :: bool
  loc_IP :: string
  loc_Country :: string
  loc_Area :: string

definition Query ::
  "(u8 list \<Rightarrow> string option) \<Rightarrow> (string \<Rightarrow> u8 list option) \<Rightarrow> u8 list \<Rightarrow> string \<Rightarrow> ip2location_resp" where
  "Query gbk parseIPv6 file ipaddress =
     (let buf = ReadAt file 0 (replicate 8 0) @ replicate 24 0;
          indexStart = LE_Uint32 buf;
          indexEnd = LE_Uint32 (drop 4 buf);
          (got, rpos) = (case ParseIP_To4 parseIPv6 ipaddress of
             Some ip4 \<Rightarrow> if length ip4 = 4 then Query_loop file (BE_Uint32 ip4) 33 buf indexStart indexEnd False 0 else (False, 0)
           | None \<Rightarrow> (False, 0))
      in if got then
           (let (country, area) = getIpLocation file rpos
            in \<lparr>loc_Ok = True, loc_IP = ipaddress, loc_Country = (case gbk country of Some s \<Rightarrow> s | None \<Rightarrow> ''''),
                loc_Area = (case gbk area of Some s \<Rightarrow> s | None \<Rightarrow> '''')\<rparr>)
         else \<lparr>loc_Ok = False, loc_IP = ipaddress, loc_Country = '''', loc_Area = ''''\<rparr>)"

section \<open>The index\<close>

text \<open>
  A file whose index lists the address ranges \<open>es\<close>, each with its first and last address and the offset of its
  record, in increasing order and without overlaps.
\<close>

definition index_start :: "u8 list \<Rightarrow> nat" where
  "index_start file = nat (LE_Uint32 (take 4 file))"

definition index_ok :: "u8 list \<Rightarrow> (int \<times> int \<times> int) list \<Rightarrow> bool" where
  "index_ok file es \<longleftrightarrow> es \<noteq> [] \<and> 8 \<le> length file \<and> index_start file + 7 * length es \<le> length file \<and>
     LE_Uint32 (take 4 (drop 4 file)) = int (index_start file + 7 * (length es - 1)) \<and>
     (\<forall>i < length es. case es ! i of (lo, hi, r) \<Rightarrow>
        (let at = index_start file + 7 * i in
           LE_Uint32 (take 4 (drop at file)) = lo \<and> LE_Uint32 (take 3 (drop (at + 4) file) @ [0]) = r \<and>
           nat r + 4 \<le> length file \<and> LE_Uint32 (take 4 (drop (nat r) file)) = hi \<and> lo \<le> hi)) \<and>
     (\<forall>i. Suc i < length es \<longrightarrow> fst (snd (es ! i)) < fst (es ! Suc i))"

text \<open>The position of an entry.\<close>

definition idx :: "u8 list \<Rightarrow> nat \<Rightarrow> int" where
  "idx file i = int (index_start file + 7 * i)"

definition covers :: "int \<times> int \<times> int \<Rightarrow> int \<Rightarrow> bool" where
  "covers = (\<lambda>(lo, hi, r) ip. lo \<le> ip \<and> ip \<le> hi)"

lemma ReadAt_inside: "nat pos + length dst \<le> length bs \<Longrightarrow> 0 \<le> pos \<Longrightarrow> ReadAt bs pos dst = take (length dst) (drop (nat pos) bs)"
  by (simp add: ReadAt_def go_copy_def)

lemma LE_Uint32_prefix: "4 \<le> length a \<Longrightarrow> LE_Uint32 (a @ b) = LE_Uint32 (take 4 a)"
  using nth_append_left [of 0 a b] nth_append_left [of 1 a b] nth_append_left [of 2 a b] nth_append_left [of 3 a b]
  by (cases "a = []") (simp_all add: LE_Uint32_def)

lemma LE_Uint32_nonneg: "0 \<le> LE_Uint32 b"
  by (simp add: LE_Uint32_def)

lemma LE_Uint32_less: "LE_Uint32 b < 2 ^ 32"
proof -
  have "uint x \<le> 255" for x :: u8 using uint_bounded [of x] by simp
  from this [of "b ! 0"] this [of "b ! 1"] this [of "b ! 2"] this [of "b ! 3"] show ?thesis
    by (simp add: LE_Uint32_def)
qed

text \<open>One round at the entry \<open>p\<close> compares the address with that entry and reads its offset.\<close>

lemma Query_loop_round:
  assumes "index_ok file es" and "length buf = 32" and "p < length es" and "es ! p = (lo, hi, r)"
    and "front + go_quot (go_quot (back - front) 7) 2 * 7 = idx file p"
  shows "\<exists>buf'. length buf' = 32 \<and> Query_loop file ipq (Suc n) buf front back got rpos =
     (if ipq > hi then Query_loop file ipq n buf' (idx file p) back got r
      else if ipq < lo then Query_loop file ipq n buf' front (idx file p) got r
      else Query_loop file ipq n buf' front back True r)"
proof -
  let ?at = "index_start file + 7 * p"
  have e: "LE_Uint32 (take 4 (drop ?at file)) = lo" "LE_Uint32 (take 3 (drop (?at + 4) file) @ [0]) = r"
    "nat r + 4 \<le> length file" "LE_Uint32 (take 4 (drop (nat r) file)) = hi"
    using assms(1,3,4) by (auto simp: index_ok_def Let_def)
  have r0: "0 \<le> r" using LE_Uint32_nonneg e(2) by metis
  have at: "?at + 7 \<le> length file" using assms(1,3) by (auto simp: index_ok_def)
  let ?b1 = "ReadAt file (int ?at) (take 7 buf) @ drop 7 buf"
  have "ReadAt file (int k) (take 7 buf) = take 7 (drop k file)" if "k + 7 \<le> length file" for k
    using ReadAt_inside [where pos = "int k" and dst = "take 7 buf" and bs = "file"] that assms(2) by simp
  from this [OF at] have b1: "?b1 = take 7 (drop ?at file) @ drop 7 buf" by simp
  have l: "length (take 7 (drop ?at file)) = 7" using at by simp
  have ip: "LE_Uint32 ?b1 = lo" unfolding b1 e(1) [symmetric] using l by (subst LE_Uint32_prefix) (simp_all add: min_def)
  have "drop 4 (?b1[7 := 0]) = (take 3 (drop (?at + 4) file) @ [0]) @ drop 8 buf"
  proof (rule nth_equalityI)
    show "length (drop 4 (?b1[7 := 0])) = length ((take 3 (drop (?at + 4) file) @ [0]) @ drop 8 buf)"
      using at assms(2) unfolding b1 by simp
    fix i assume "i < length (drop 4 (?b1[7 := 0]))"
    then have i: "i < 28" using at assms(2) unfolding b1 by simp
    consider "i < 3" | "i = 3" | "3 < i" by linarith
    then show "drop 4 (?b1[7 := 0]) ! i = ((take 3 (drop (?at + 4) file) @ [0]) @ drop 8 buf) ! i"
      using i at assms(2) unfolding b1 by cases (simp_all add: nth_append ac_simps)
  qed
  then have rp: "LE_Uint32 (drop 4 (?b1[7 := 0])) = r"
    using LE_Uint32_prefix [of "take 3 (drop (?at + 4) file) @ [0]" "drop 8 buf"] at e(2) by simp
  have len: "length (?b1[7 := 0]) = 32" unfolding b1 using l assms(2) by simp
  let ?b2 = "ReadAt file r (take 4 (?b1[7 := 0])) @ drop 4 (?b1[7 := 0])"
  have b2: "?b2 = take 4 (drop (nat r) file) @ drop 4 (?b1[7 := 0])"
    using ReadAt_inside [where pos = r and dst = "take 4 (?b1[7 := 0])" and bs = "file"] e(3) r0 len by (simp only: length_take) simp
  have ip2: "LE_Uint32 ?b2 = hi" unfolding b2 using e(3,4) by (subst LE_Uint32_prefix) simp_all
  have "length ?b2 = 32" unfolding b2 using e(3) len by (simp only: length_append length_drop) simp
  then show ?thesis
    by (intro exI [of _ ?b2] conjI) (simp_all only: Query_loop.simps Query_probe_def Let_def assms(5) idx_def ip rp ip2 prod.case)
qed

section \<open>The search\<close>

lemma go_quot_nat: "go_quot (int a) (int b) = int (a div b)"
  by (cases "a = 0 \<or> b = 0") (auto simp: go_quot_def zdiv_int)

lemma middle:
  assumes "h \<le> t"
  shows "idx file h + go_quot (go_quot (idx file t - idx file h) 7) 2 * 7 = idx file (h + (t - h) div 2)"
proof -
  have "idx file t - idx file h = int (7 * (t - h))" using assms by (simp add: idx_def of_nat_diff)
  then have "go_quot (go_quot (idx file t - idx file h) 7) 2 = int ((t - h) div 2)"
    using go_quot_nat [of "7 * (t - h)" 7] go_quot_nat [of "t - h" 2] by simp
  then show ?thesis by (simp add: idx_def)
qed

lemma index_entry: "index_ok file es \<Longrightarrow> j < length es \<Longrightarrow> fst (es ! j) \<le> fst (snd (es ! j))"
  by (cases "es ! j") (auto simp: index_ok_def Let_def)

lemma index_sorted:
  assumes "index_ok file es" and "i < j" and "j < length es"
  shows "fst (snd (es ! i)) < fst (es ! j)"
  using assms(2,3)
proof (induction j)
  case (Suc j)
  have nxt: "fst (snd (es ! j)) < fst (es ! Suc j)" using assms(1) Suc.prems by (auto simp: index_ok_def)
  show ?case
  proof (cases "i = j")
    case False
    then have "fst (snd (es ! i)) < fst (es ! j)" using Suc by simp
    then show ?thesis using nxt index_entry [OF assms(1), of j] Suc.prems by linarith
  qed (use nxt in simp)
qed simp

lemma covers_iff: "covers e ip \<longleftrightarrow> fst e \<le> ip \<and> ip \<le> fst (snd e)"
  by (cases e) (auto simp: covers_def)

lemma not_covers_below:
  assumes "index_ok file es" and "p < length es" and "fst (snd (es ! p)) < ip" and "j \<le> p"
  shows "\<not> covers (es ! j) ip"
proof (cases "j = p")
  case False
  then have "fst (snd (es ! j)) < fst (es ! p)" using index_sorted [OF assms(1) _ assms(2), of j] assms(4) by simp
  then show ?thesis using index_entry [OF assms(1,2)] assms(3) by (simp add: covers_iff)
qed (use assms(3) in \<open>simp add: covers_iff\<close>)

lemma not_covers_above:
  assumes "index_ok file es" and "j < length es" and "ip < fst (es ! p)" and "p \<le> j"
  shows "\<not> covers (es ! j) ip"
proof (cases "j = p")
  case False
  then have "fst (snd (es ! p)) < fst (es ! j)" "p < length es" using index_sorted [OF assms(1) _ assms(2), of p] assms(2,4) by auto
  then show ?thesis using index_entry [OF assms(1), of p] assms(3) by (simp add: covers_iff)
qed (use assms(3) in \<open>simp add: covers_iff\<close>)

lemma Query_loop_stays:
  assumes "index_ok file es" and "h \<le> t" and "p = h + (t - h) div 2" and "p < length es" and "covers (es ! p) ip"
  shows "length buf = 32 \<Longrightarrow> Query_loop file ip k buf (idx file h) (idx file t) True (snd (snd (es ! p))) = (True, snd (snd (es ! p)))"
proof (induction k arbitrary: buf)
  case (Suc k)
  obtain lo hi r where e: "es ! p = (lo, hi, r)" by (cases "es ! p") auto
  from Query_loop_round [OF assms(1) Suc.prems assms(4) e middle [OF assms(2), folded assms(3)], of ip k True r]
  obtain buf' where "length buf' = 32"
    "Query_loop file ip (Suc k) buf (idx file h) (idx file t) True r = Query_loop file ip k buf' (idx file h) (idx file t) True r"
    using assms(5) by (auto simp: covers_iff e simp del: Query_loop.simps)
  with Suc.IH e show ?case by simp
qed simp

lemma Query_loop_stuck:
  assumes "index_ok file es" and "h < length es" and "ip < fst (es ! h)"
  shows "length buf = 32 \<Longrightarrow> \<not> fst (Query_loop file ip k buf (idx file h) (idx file h) False rpos)"
proof (induction k arbitrary: buf rpos)
  case (Suc k)
  obtain lo hi r where e: "es ! h = (lo, hi, r)" by (cases "es ! h") auto
  from Query_loop_round [OF assms(1) Suc.prems assms(2) e, of "idx file h" "idx file h" ip k False rpos] middle [of h h "file"]
  obtain buf' where b: "length buf' = 32"
    "Query_loop file ip (Suc k) buf (idx file h) (idx file h) False rpos = Query_loop file ip k buf' (idx file h) (idx file h) False r"
    using assms(3) by (auto simp: e simp del: Query_loop.simps split: if_splits)
  show ?case using Suc.IH [OF b(1)] b(2) by simp
qed simp

text \<open>The rounds that are left suffice: \<open>Suc k\<close> rounds search any \<open>2\<^sup>k\<close> entries, and find exactly those before the end.\<close>

lemma Query_loop_search:
  assumes "index_ok file es" and "h < t" and "t < length es" and "t - h \<le> 2 ^ k" and "length buf = 32"
  shows "(\<exists>j. h \<le> j \<and> j < t \<and> covers (es ! j) ip \<and>
        Query_loop file ip (Suc k) buf (idx file h) (idx file t) False rpos = (True, snd (snd (es ! j)))) \<or>
      (\<forall>j. h \<le> j \<and> j < t \<longrightarrow> \<not> covers (es ! j) ip) \<and> \<not> fst (Query_loop file ip (Suc k) buf (idx file h) (idx file t) False rpos)"
  using assms(2-)
proof (induction k arbitrary: h t buf rpos)
  case 0
  then have t: "t = Suc h" by simp
  obtain lo hi r where e: "es ! h = (lo, hi, r)" by (cases "es ! h") auto
  have p: "h < length es" using "0.prems" by simp
  have j: "h \<le> j \<and> j < t \<longleftrightarrow> j = h" for j using t by auto
  from Query_loop_round [OF assms(1) "0.prems"(4) p e, of "idx file h" "idx file t" ip 0 False rpos] middle [of h t "file"] t
  obtain buf' where "Query_loop file ip (Suc 0) buf (idx file h) (idx file t) False rpos =
      (if ip > hi then (False, r) else if ip < lo then (False, r) else (True, r))" by (auto simp del: Query_loop.simps(2))
  then show ?case unfolding j conj_assoc [symmetric] using e by (auto simp: covers_iff simp del: Query_loop.simps)
next
  case (Suc k)
  define p where "p = h + (t - h) div 2"
  have p: "h \<le> p" "p < t" "p < length es" using Suc.prems(1,2) by (auto simp: p_def)
  obtain lo hi r where e: "es ! p = (lo, hi, r)" by (cases "es ! p") auto
  let ?Q = "Query_loop file ip (Suc (Suc k)) buf (idx file h) (idx file t) False rpos"
  from Query_loop_round [OF assms(1) Suc.prems(4) p(3) e, of "idx file h" "idx file t" ip "Suc k" False rpos] middle [of h t "file"] Suc.prems(1)
  obtain buf' where b: "length buf' = 32"
    and Q: "?Q = (if ip > hi then Query_loop file ip (Suc k) buf' (idx file p) (idx file t) False r
      else if ip < lo then Query_loop file ip (Suc k) buf' (idx file h) (idx file p) False r
      else Query_loop file ip (Suc k) buf' (idx file h) (idx file t) True r)" unfolding p_def [symmetric] by auto
  consider "ip > hi" | "ip < lo" "\<not> ip > hi" "h = p" | "ip < lo" "\<not> ip > hi" "h < p" | "covers (es ! p) ip"
    using p(1) by (fastforce simp: covers_iff e)
  then show ?case
  proof cases
    case 1
    have "t - p \<le> 2 ^ k" using Suc.prems(1,3) unfolding p_def by simp
    note ih = Suc.IH [OF p(2) Suc.prems(2) this b, of r]
    have "h \<le> j \<and> j < t \<and> covers (es ! j) ip \<longleftrightarrow> p \<le> j \<and> j < t \<and> covers (es ! j) ip" for j
      using not_covers_below [OF assms(1) p(3), of ip j] 1 e p(1) by (cases "j \<le> p") auto
    then show ?thesis using ih 1 unfolding Q by (simp del: Query_loop.simps) blast
  next
    case 2
    then have "\<not> covers (es ! j) ip" if "h \<le> j" "j < t" for j
      using not_covers_above [OF assms(1), of j ip p] that e Suc.prems(2) by simp
    moreover have "\<not> fst ?Q" using Query_loop_stuck [OF assms(1) p(3), of ip buf' "Suc k" r] b 2 e unfolding Q by (simp del: Query_loop.simps)
    ultimately show ?thesis by blast
  next
    case 3
    have "p - h \<le> 2 ^ k" using Suc.prems(3) unfolding p_def by simp
    note ih = Suc.IH [OF 3(3) p(3) this b, of r]
    have "h \<le> j \<and> j < t \<and> covers (es ! j) ip \<longleftrightarrow> h \<le> j \<and> j < p \<and> covers (es ! j) ip" for j
      using not_covers_above [OF assms(1), of j ip p] 3 e p(2) Suc.prems(2) by (cases "p \<le> j") auto
    then show ?thesis using ih 3 unfolding Q by (simp del: Query_loop.simps) blast
  next
    case 4
    then have "?Q = Query_loop file ip (Suc k) buf' (idx file h) (idx file t) True r"
      unfolding Q by (auto simp: covers_iff e simp del: Query_loop.simps)
    then have "?Q = (True, snd (snd (es ! p)))"
      using Query_loop_stays [OF assms(1) _ p_def p(3) 4 b, of "Suc k"] Suc.prems(1) e by (simp del: Query_loop.simps)
    then show ?thesis using p 4 by blast
  qed
qed

section \<open>The place of an address\<close>

lemma dtoi_loop_fmt: "n < 0xFFFFFF \<Longrightarrow> dtoi_loop (fmt_nat n @ s) 0 = dtoi_loop s n"
proof (induction n arbitrary: s rule: fmt_nat.induct)
  case (1 n)
  show ?case
  proof (cases "n < 10")
    case True
    then show ?thesis by (simp add: is_digit_char)
  next
    case False
    have "dtoi_loop (fmt_nat (n div 10) @ digit_char (n mod 10) # s) 0 = dtoi_loop (digit_char (n mod 10) # s) (n div 10)"
      using 1 False by simp
    then show ?thesis using False 1(2) by (simp add: fmt_nat_large)
  qed
qed

lemma dtoi_fmt: "x < 256 \<Longrightarrow> dtoi (fmt_nat x @ s) = dtoi_loop s x"
proof -
  assume x: "x < 256"
  obtain c cs where c: "fmt_nat x = c # cs" by (cases "fmt_nat x") auto
  then have "is_digit c" using fmt_nat_first by blast
  then show ?thesis using dtoi_loop_fmt [of x s] x by (simp add: dtoi_def c del: dtoi_loop.simps)
qed

lemma dtoi_loop_dot [simp]: "dtoi_loop (CHR ''.'' # s) n = Some (n, CHR ''.'' # s)"
  by (simp add: is_digit_def)

lemma unat_byte: "unat (x :: u8) < 256" "\<not> 255 < unat (x :: u8)"
  using unsigned_less [of x, where ?'a = nat] by simp_all

lemma ParseIP_ip_String: "ParseIP_To4 six (ip_String (a, b, c, d)) = Some [a, b, c, d]"
proof -
  have sep: "filter (\<lambda>c. c = CHR ''.'' \<or> c = CHR '':'') (fmt_nat n) = []" for n
    using fmt_nat_digits [of "CHR ''.''" n] fmt_nat_digits [of "CHR '':''" n] by (auto simp: filter_empty_conv is_digit_def)
  have four: "(4 :: nat) = Suc (Suc (Suc (Suc 0)))" by simp
  have "parse_parts 4 True (ip_String (a, b, c, d)) = Some [a, b, c, d]"
    using dtoi_fmt [OF unat_byte(1), of d "[]"] unfolding four
    by (simp add: ip_String_def dtoi_fmt unat_byte del: dtoi_loop.simps(2))
  moreover have "filter (\<lambda>c. c = CHR ''.'' \<or> c = CHR '':'') (ip_String (a, b, c, d)) = ''...''"
    by (simp add: ip_String_def sep)
  ultimately show ?thesis by (simp add: ParseIP_To4_def)
qed

definition gbk_text :: "(u8 list \<Rightarrow> string option) \<Rightarrow> u8 list \<Rightarrow> string" where
  "gbk_text gbk s = (case gbk s of Some t \<Rightarrow> t | None \<Rightarrow> '''')"

lemma Query_header:
  assumes "index_ok file es"
  shows "ReadAt file 0 (replicate 8 0) @ replicate 24 0 = take 8 file @ replicate 24 0"
    and "LE_Uint32 (take 8 file @ replicate 24 0) = idx file 0"
    and "LE_Uint32 (drop 4 (take 8 file @ replicate 24 0)) = idx file (length es - 1)"
proof -
  have l: "8 \<le> length file" using assms by (simp add: index_ok_def)
  show "ReadAt file 0 (replicate 8 0) @ replicate 24 0 = take 8 file @ replicate 24 0"
    using ReadAt_inside [where pos = 0 and dst = "replicate 8 0" and bs = "file"] l by simp
  show "LE_Uint32 (take 8 file @ replicate 24 0) = idx file 0"
    using LE_Uint32_prefix [of "take 8 file" "replicate 24 0"] l LE_Uint32_nonneg [of "take 4 file"]
    by (simp add: idx_def index_start_def min_def)
  have "drop 4 (take 8 file @ replicate 24 0) = take 4 (drop 4 file) @ replicate 24 0" using l by (simp add: drop_take)
  then show "LE_Uint32 (drop 4 (take 8 file @ replicate 24 0)) = idx file (length es - 1)"
    using LE_Uint32_prefix [of "take 4 (drop 4 file)" "replicate 24 0"] l assms by (simp add: idx_def index_ok_def)
qed

lemma index_small: "index_ok file es \<Longrightarrow> length es - 1 \<le> 2 ^ 32"
proof -
  assume "index_ok file es"
  then have "int (index_start file + 7 * (length es - 1)) < 2 ^ 32" using LE_Uint32_less [of "take 4 (drop 4 file)"] by (simp add: index_ok_def)
  then have "int (length es - 1) \<le> int (2 ^ 32)" by simp
  then show ?thesis by (simp only: of_nat_le_iff)
qed

lemma Query_search:
  assumes "index_ok file es" and "2 \<le> length es"
  shows "(\<forall>j < length es - 1. covers (es ! j) (uint n) \<longrightarrow> Query gbk six file (ip_String (InetTontoa n)) =
       \<lparr>loc_Ok = True, loc_IP = ip_String (InetTontoa n), loc_Country = gbk_text gbk (fst (getIpLocation file (snd (snd (es ! j))))),
        loc_Area = gbk_text gbk (snd (getIpLocation file (snd (snd (es ! j)))))\<rparr>) \<and>
    (loc_Ok (Query gbk six file (ip_String (InetTontoa n))) \<longleftrightarrow> (\<exists>j < length es - 1. covers (es ! j) (uint n)))"
proof -
  let ?ip = "[byte_of 24 n, byte_of 16 n, byte_of 8 n, byte_of 0 n]" and ?buf = "take 8 file @ replicate 24 0" and ?m = "length es - 1"
  have ip: "ParseIP_To4 six (ip_String (InetTontoa n)) = Some ?ip" by (simp add: InetTontoa_bytes ParseIP_ip_String)
  have be: "BE_Uint32 ?ip = uint n" using join4_bytes [of n] by (simp add: BE_Uint32_def)
  define Q where "Q = Query_loop file (uint n) 33 ?buf (idx file 0) (idx file ?m) False 0"
  have run: "Query gbk six file (ip_String (InetTontoa n)) =
      (if fst Q then \<lparr>loc_Ok = True, loc_IP = ip_String (InetTontoa n), loc_Country = gbk_text gbk (fst (getIpLocation file (snd Q))),
        loc_Area = gbk_text gbk (snd (getIpLocation file (snd Q)))\<rparr>
       else \<lparr>loc_Ok = False, loc_IP = ip_String (InetTontoa n), loc_Country = '''', loc_Area = ''''\<rparr>)"
    unfolding Query_def Let_def Query_header [OF assms(1)] ip Q_def
    by (simp add: be gbk_text_def split: prod.splits del: Query_loop.simps)
  have one: "j = k" if "j < ?m" "k < ?m" "covers (es ! j) (uint n)" "covers (es ! k) (uint n)" for j k
    using index_sorted [OF assms(1), of j k] index_sorted [OF assms(1), of k j] that
    by (cases j k rule: linorder_cases) (fastforce simp: covers_iff)+
  have "length ?buf = 32" using assms(1) by (simp add: index_ok_def)
  from Query_loop_search [OF assms(1), of 0 ?m 32 ?buf "uint n" 0] this assms(2) index_small [OF assms(1)]
  have "(\<exists>j < ?m. covers (es ! j) (uint n) \<and> Q = (True, snd (snd (es ! j)))) \<or> (\<forall>j < ?m. \<not> covers (es ! j) (uint n)) \<and> \<not> fst Q"
    by (simp add: Q_def del: Query_loop.simps)
  then consider j where "j < ?m" "covers (es ! j) (uint n)" "Q = (True, snd (snd (es ! j)))"
    | "\<forall>j < ?m. \<not> covers (es ! j) (uint n)" "\<not> fst Q" by blast
  then show ?thesis
  proof cases
    case (1 j)
    have found: "fst Q" "k < ?m \<Longrightarrow> covers (es ! k) (uint n) \<Longrightarrow> snd Q = snd (snd (es ! k))" for k
      using one [OF _ 1(1) _ 1(2), of k] 1(3) by auto
    have "\<exists>j < ?m. covers (es ! j) (uint n)" using 1(1,2) by blast
    then show ?thesis unfolding run using found by (intro conjI allI impI) simp_all
  next
    case 2
    then show ?thesis unfolding run by simp
  qed
qed

text \<open>
  C29.  The search in the address index is exact, but for the last entry: with an index of at least two ordered,
  disjoint ranges, whatever its size, 33 rounds find every address in a range but the last, with the country and
  area of the record of its range, and report every other address as unknown.  The probe never reaches the last entry.
\<close>

theorem Query_exact:
  assumes "index_ok file es" and "2 \<le> length es"
  shows "(\<forall>j < length es - 1. covers (es ! j) (uint n) \<longrightarrow> Query gbk six file (ip_String (InetTontoa n)) =
       \<lparr>loc_Ok = True, loc_IP = ip_String (InetTontoa n), loc_Country = gbk_text gbk (fst (getIpLocation file (snd (snd (es ! j))))),
        loc_Area = gbk_text gbk (snd (getIpLocation file (snd (snd (es ! j)))))\<rparr>) \<and>
    (loc_Ok (Query gbk six file (ip_String (InetTontoa n))) \<longleftrightarrow> (\<exists>j < length es - 1. covers (es ! j) (uint n)))"
  using assms by (rule Query_search)

text \<open>A file with two ranges, the first up to \<open>0.0.0.255\<close>.\<close>

definition sample_file :: "u8 list" where
  "sample_file = [24, 0, 0, 0, 31, 0, 0, 0,  255, 0, 0, 0, 65, 0, 66, 0,  255, 255, 255, 255, 67, 0, 68, 0,
     0, 0, 0, 0, 8, 0, 0,  0, 1, 0, 0, 16, 0, 0]"

definition sample_index :: "(int \<times> int \<times> int) list" where
  "sample_index = [(0, 255, 8), (256, 4294967295, 16)]"

lemma sample_ok: "index_ok sample_file sample_index"
proof -
  have start: "index_start sample_file = 24" by (simp add: index_start_def LE_Uint32_def sample_file_def)
  show ?thesis unfolding index_ok_def start
    by (auto simp: sample_index_def sample_file_def LE_Uint32_def Let_def less_Suc_eq)
qed

lemma Query_exact_witness:
  "loc_Ok (Query (\<lambda>s. None) (\<lambda>s. None) sample_file (ip_String (InetTontoa 7))) \<and>
   \<not> loc_Ok (Query (\<lambda>s. None) (\<lambda>s. None) sample_file (ip_String (InetTontoa 300)))"
  using Query_exact [OF sample_ok, of 7 "\<lambda>s. None" "\<lambda>s. None"] Query_exact [OF sample_ok, of 300 "\<lambda>s. None" "\<lambda>s. None"]
  by (simp add: sample_index_def covers_def)

section \<open>The texts of a record\<close>

lemma ReadAt_byte: "ReadAt (pre @ b # post) (int (length pre)) [x] = [b]"
  by (simp add: ReadAt_def go_copy_def)

lemma readString_loop_at:
  "0 \<notin> set s \<Longrightarrow> length s < n \<Longrightarrow> readString_loop (pre @ s @ 0 # post) (int (length pre)) n = s"
proof (induction s arbitrary: pre n)
  case Nil
  then obtain k where "n = Suc k" by (cases n) auto
  then show ?case by (simp add: ReadAt_byte)
next
  case (Cons b s)
  then obtain k where k: "n = Suc k" by (cases n) auto
  have "readString_loop ((pre @ [b]) @ s @ 0 # post) (int (length (pre @ [b]))) k = s" using Cons.prems k by (intro Cons.IH) auto
  then show ?case using Cons.prems ReadAt_byte [of pre b "s @ 0 # post"] by (simp add: k add.commute)
qed

text \<open>A text of at most 1023 bytes, ended by a zero, is read back, and so are the two texts of a record without a mode byte.\<close>

lemma readString_at: "0 \<notin> set s \<Longrightarrow> length s < 1024 \<Longrightarrow> readString (pre @ s @ 0 # post) (int (length pre)) = s"
  unfolding readString_def by (rule readString_loop_at)

lemma getIpLocation_plain:
  assumes "c # country = text1" "a # area = text2" and "c \<noteq> 1" "c \<noteq> 2" "a \<noteq> 1" "a \<noteq> 2"
    and "0 \<notin> set text1" "0 \<notin> set text2" and "length text1 < 1024" "length text2 < 1024" and "length end4 = 4"
  shows "getIpLocation (pre @ end4 @ text1 @ [0] @ text2 @ [0] @ post) (int (length pre)) = (text1, text2)"
proof -
  let ?f = "pre @ end4 @ text1 @ [0] @ text2 @ [0] @ post"
  have m: "ReadAt ?f (int (length pre) + 4) [0] ! 0 = c"
    using ReadAt_byte [of "pre @ end4" c "country @ [0] @ text2 @ [0] @ post" 0] assms(1,11) by (simp add: assms(1) [symmetric])
  have s: "readString ?f (int (length pre) + 4) = text1"
    using readString_at [OF assms(7,9), of "pre @ end4" "text2 @ [0] @ post"] assms(11) by simp
  have p: "int (length pre) + 4 + int (length text1) + 1 = int (length (pre @ end4 @ text1 @ [0]))" using assms(11) by simp
  have m2: "ReadAt ?f (int (length pre) + 4 + int (length text1) + 1) [0] ! 0 = a"
    unfolding p using ReadAt_byte [of "pre @ end4 @ text1 @ [0]" a "area @ [0] @ post" 0] by (simp add: assms(2) [symmetric])
  have s2: "readString ?f (int (length pre) + 4 + int (length text1) + 1) = text2"
    unfolding p using readString_at [OF assms(8,10), of "pre @ end4 @ text1 @ [0]" post] by simp
  show ?thesis using m s m2 s2 assms(3-6) by (simp add: getIpLocation_def readArea_def Let_def)
qed

end
