(* ===== verification/LoginRecords.thy ===== *)
theory LoginRecords
  imports IpLocation GameRecords
begin

text \<open>
  The logins of a player, \<^verbatim>\<open>src/operation/loginrecord.go\<close>: a page of the list of logins, each shown with the place of
  its address (\<open>IpLocation\<close>) and the present nickname of the player.
\<close>

section \<open>Records and handler\<close>

record user_active =
  ua_Userid :: string
  ua_Nickname :: string
  ua_Address :: string
  ua_IP :: u32
  ua_Time :: u32
  ua_Action :: u32
  ua_Device :: string

definition empty_active :: user_active where
  "empty_active = \<lparr>ua_Userid = '''', ua_Nickname = '''', ua_Address = '''', ua_IP = 0, ua_Time = 0, ua_Action = 0, ua_Device = ''''\<rparr>"

definition KEY_USER_ACTIVE :: string where "KEY_USER_ACTIVE = ''user_active:''"

text \<open>The lookup of an address is the argument \<open>query\<close>.\<close>

fun fill_logins ::
  "'w net \<Rightarrow> user_active codec \<Rightarrow> (string \<Rightarrow> ip2location_resp) \<Rightarrow> val list \<Rightarrow> 'w \<Rightarrow> (user_active list \<times> 'w) option" where
  "fill_logins N J query [] w = Some ([], w)"
| "fill_logins N J query (v # vs) w = do {
     let item = fst (as_json J v empty_active);
     let ipdata = query (ip_String (InetTontoa (ua_IP item)));
     let item = (if loc_Ok ipdata then item\<lparr>ua_Address := loc_Country ipdata\<rparr> else item);
     ((user, err), w) \<leftarrow> GetNickname N (new_user (ua_Userid item)) w;
     let item = (if err = None then item\<lparr>ua_Nickname := str_field ''Nickname'' user\<rparr> else item);
     (items, w) \<leftarrow> fill_logins N J query vs w;
     Some (item # items, w)
   }"

definition getLoginRecord ::
  "'w net \<Rightarrow> user_active codec \<Rightarrow> (string \<Rightarrow> ip2location_resp) \<Rightarrow> string \<Rightarrow> int \<Rightarrow> int \<Rightarrow> 'w \<Rightarrow>
     ((user_active list \<times> int \<times> error option) \<times> 'w) option" where
  "getLoginRecord N J query userid offset limit w = do {
     ((size, err), w) \<leftarrow> Qsize N (KEY_USER_ACTIVE @ userid) w;
     (if err \<noteq> None then Some (([], size, err), w)
      else do {
        ((rang, err), w) \<leftarrow> Qrange N (KEY_USER_ACTIVE @ userid) (of_int offset) (of_int limit) w;
        (if err \<noteq> None then Some (([], size, err), w)
         else do {
           (list, w) \<leftarrow> fill_logins N J query rang w;
           Some ((list, size, None), w)
         })
      })
   }"

definition LoginRecord ::
  "'w net \<Rightarrow> user_active codec \<Rightarrow> (string \<Rightarrow> ip2location_resp) \<Rightarrow> request \<Rightarrow> 'w \<Rightarrow> (user_active listing \<times> 'w) option" where
  "LoginRecord N J query c w =
     (let page = page_of c; pageMax = pageMax_of c; userid = form c ''Userid'' in do {
        ((list, size, err), w) \<leftarrow> getLoginRecord N J query userid ((page - 1) * pageMax) pageMax w;
        Some (if err \<noteq> None \<or> size = 0 then NoListing else Listing list size, w)
      })"

section \<open>What a page shows\<close>

text \<open>A login as the page shows it: the country when the address is known, and the stored nickname.\<close>

definition shown_login :: "(string \<Rightarrow> ip2location_resp) \<Rightarrow> (string \<Rightarrow> string \<rightharpoonup> string) \<Rightarrow> user_active \<Rightarrow> user_active" where
  "shown_login query t item =
     (let ipdata = query (ip_String (InetTontoa (ua_IP item)))
      in item\<lparr>ua_Address := if loc_Ok ipdata then loc_Country ipdata else ua_Address item,
              ua_Nickname := case t (KEY_USER @ ua_Userid item) ''Nickname'' of None \<Rightarrow> '''' | Some s \<Rightarrow> s\<rparr>)"

lemma new_user_nickname [simp]:
  "user_key (new_user u) = KEY_USER @ u" "str_field ''Nickname'' (set_str ''Nickname'' s (new_user u)) = s"
  by (simp_all add: user_key_def str_field_def set_str_def new_user_def)

lemma shown_login_place:
  assumes "index_ok file es" and "2 \<le> length es"
  shows "shown_login (Query gbk six file) t r = r\<lparr>ua_Address := ua_Address (shown_login (Query gbk six file) t r),
         ua_Nickname := case t (KEY_USER @ ua_Userid r) ''Nickname'' of None \<Rightarrow> '''' | Some s \<Rightarrow> s\<rparr> \<and>
       (\<forall>j < length es - 1. covers (es ! j) (uint (ua_IP r)) \<longrightarrow>
          ua_Address (shown_login (Query gbk six file) t r) = gbk_text gbk (fst (getIpLocation file (snd (snd (es ! j)))))) \<and>
       ((\<forall>j < length es - 1. \<not> covers (es ! j) (uint (ua_IP r))) \<longrightarrow> ua_Address (shown_login (Query gbk six file) t r) = ua_Address r)"
  using Query_search [OF assms, of "ua_IP r" gbk six] by (auto simp: shown_login_def Let_def simp del: One_nat_def)

context ssdb
begin

lemma fill_logins_run:
  "fill_logins N J query vs w = Some (map (\<lambda>v. shown_login query (tab w) (fst (as_json J v empty_active))) vs, w)"
  by (induction vs) (simp_all add: GetNickname_def Hget_run shown_login_def Let_def)

lemma LoginRecord_run:
  assumes "length (lst w (KEY_USER_ACTIVE @ form c ''Userid'')) < 2 ^ 63" and "page_of c * pageMax_of c < 2 ^ 63"
    and "lst w (KEY_USER_ACTIVE @ form c ''Userid'') \<noteq> []"
  shows "LoginRecord N J query c w = Some (Listing
    (map (\<lambda>v. shown_login query (tab w) (fst (as_json J v empty_active)))
       (take (nat (pageMax_of c)) (drop (nat ((page_of c - 1) * pageMax_of c)) (lst w (KEY_USER_ACTIVE @ form c ''Userid'')))))
    (int (length (lst w (KEY_USER_ACTIVE @ form c ''Userid'')))), w)"
proof -
  let ?o = "(page_of c - 1) * pageMax_of c" and ?m = "pageMax_of c"
  have p: "1 \<le> page_of c" "30 \<le> ?m" "?m \<le> 200" by (auto simp: page_of_def pageMax_of_def Let_def)
  then have "0 \<le> ?o" "?o \<le> page_of c * ?m" by (simp_all add: mult_right_mono)
  then have "?o < 2 ^ 63" using assms(2) by linarith
  then have o: "int (nat ?o) = ?o" "nat ?o < 2 ^ 63" "int (nat ?m) = ?m" "nat ?m < 2 ^ 63" using \<open>0 \<le> ?o\<close> p by (simp_all add: nat_less_iff)
  have "Qrange N (KEY_USER_ACTIVE @ form c ''Userid'') (of_int ?o) (of_int ?m) w =
      Some ((take (nat ?m) (drop (nat ?o) (lst w (KEY_USER_ACTIVE @ form c ''Userid''))), None), w)"
    using Qrange_run [OF o(2,4)] o(1,3) by (metis of_int_of_nat_eq)
  then show ?thesis using assms(3) by (simp add: LoginRecord_def Let_def getLoginRecord_def Qsize_run [OF assms(1)] fill_logins_run)
qed

end

text \<open>
  The page of logins, for a caller that copies every reply (\<open>PooledReads\<close> shows what becomes of replies read later): with an address file whose index is in order, the handler returns the logins of the
  asked page in their order, unchanged but for two fields, and the number of all logins of the player.  The address
  becomes the country of the range that contains the login's address, where it is not the last range, and stays as stored otherwise; the
  nickname is the one stored for the player of the login.
\<close>

lemma LoginRecord_page:
  assumes "ssdb N tab lst" and "index_ok file es" and "2 \<le> length es"
    and "lst w (KEY_USER_ACTIVE @ form c ''Userid'') = map (enc J) items" and "items \<noteq> []" and "length items < 2 ^ 63"
    and "\<And>r. r \<in> set items \<Longrightarrow> dec J (enc J r) empty_active = (r, True)"
    and "page_of c * pageMax_of c < 2 ^ 63"
  shows "\<exists>list. LoginRecord N J (Query gbk six file) c w = Some (Listing list (int (length items)), w) \<and>
    length list = min (nat (pageMax_of c)) (length items - nat ((page_of c - 1) * pageMax_of c)) \<and>
    (\<forall>i < length list. let r = items ! (nat ((page_of c - 1) * pageMax_of c) + i) in
       list ! i = r\<lparr>ua_Address := ua_Address (list ! i),
         ua_Nickname := case tab w (KEY_USER @ ua_Userid r) ''Nickname'' of None \<Rightarrow> '''' | Some s \<Rightarrow> s\<rparr> \<and>
       (\<forall>j < length es - 1. covers (es ! j) (uint (ua_IP r)) \<longrightarrow>
          ua_Address (list ! i) = gbk_text gbk (fst (getIpLocation file (snd (snd (es ! j)))))) \<and>
       ((\<forall>j < length es - 1. \<not> covers (es ! j) (uint (ua_IP r))) \<longrightarrow> ua_Address (list ! i) = ua_Address r))"
proof -
  let ?o = "nat ((page_of c - 1) * pageMax_of c)" and ?m = "nat (pageMax_of c)" and ?q = "Query gbk six file"
  let ?list = "map (shown_login ?q (tab w)) (take ?m (drop ?o items))"
  have sub: "set (take ?m (drop ?o items)) \<subseteq> set items" by (meson in_set_takeD in_set_dropD subsetI)
  then have "map (\<lambda>v. shown_login ?q (tab w) (fst (as_json J v empty_active))) (take ?m (drop ?o (map (enc J) items))) = ?list"
    using assms(7) by (auto simp: take_map drop_map as_json_def)
  then have run: "LoginRecord N J ?q c w = Some (Listing ?list (int (length items)), w)"
    using ssdb.LoginRecord_run [OF assms(1), of w c J ?q] assms(4-6,8) by simp
  define L where "L = ?list"
  have nth: "L ! i = shown_login ?q (tab w) (items ! (?o + i))" if "i < length L" for i
    using that unfolding L_def by (cases "?o \<le> length items") simp_all
  show ?thesis
  proof (intro exI [of _ L] conjI allI impI)
    show "LoginRecord N J ?q c w = Some (Listing L (int (length items)), w)" using run by (simp add: L_def)
    show "length L = min ?m (length items - ?o)" by (simp add: L_def)
    fix i assume "i < length L"
    show "let r = items ! (?o + i) in
       L ! i = r\<lparr>ua_Address := ua_Address (L ! i),
         ua_Nickname := case tab w (KEY_USER @ ua_Userid r) ''Nickname'' of None \<Rightarrow> '''' | Some s \<Rightarrow> s\<rparr> \<and>
       (\<forall>j < length es - 1. covers (es ! j) (uint (ua_IP r)) \<longrightarrow>
          ua_Address (L ! i) = gbk_text gbk (fst (getIpLocation file (snd (snd (es ! j)))))) \<and>
       ((\<forall>j < length es - 1. \<not> covers (es ! j) (uint (ua_IP r))) \<longrightarrow> ua_Address (L ! i) = ua_Address r)"
      unfolding Let_def nth [OF \<open>i < length L\<close>] by (rule shown_login_place [OF assms(2,3)])
  qed
qed

definition sample_login :: user_active where
  "sample_login = empty_active\<lparr>ua_Userid := ''7'', ua_IP := 9\<rparr>"

definition login_codec :: "user_active codec" where
  "login_codec = \<lparr>enc = (\<lambda>_. ''L''), dec = (\<lambda>s x. (sample_login, True))\<rparr>"

lemma LoginRecord_page_example:
  "\<exists>r. LoginRecord ref_net login_codec (Query (\<lambda>s. Some (map (char_of \<circ> unat) s)) (\<lambda>s. None) sample_file) ref_request
      (put_lst ref_empty KEY_USER_ACTIVE [''L'']) = Some (Listing [r] 1, put_lst ref_empty KEY_USER_ACTIVE [''L'']) \<and> ua_Userid r = ''7''"
proof -
  let ?w = "put_lst ref_empty KEY_USER_ACTIVE [''L'']" and ?J = "login_codec"
  have c: "page_of ref_request = 1" "pageMax_of ref_request = 30" "form ref_request ''Userid'' = ''''"
    by (simp_all add: page_of_def pageMax_of_def ref_request_def Atoi_def ParseInt_def)
  from LoginRecord_page [OF ref_server.ssdb_axioms sample_ok, where w = ?w and c = ref_request and J = ?J and items = "[sample_login]"
      and gbk = "\<lambda>s. Some (map (char_of \<circ> unat) s)" and six = "\<lambda>s. None"]
  obtain list where "LoginRecord ref_net ?J (Query (\<lambda>s. Some (map (char_of \<circ> unat) s)) (\<lambda>s. None) sample_file) ref_request ?w =
      Some (Listing list 1, ?w)" "length list = 1" "ua_Userid (list ! 0) = ''7''"
    by (auto simp: c login_codec_def sample_index_def sample_login_def Let_def)
  then show ?thesis by (intro exI [of _ "list ! 0"]) (auto simp: length_Suc_conv)
qed

end
