(* ===== verification/CsvText.thy ===== *)
theory CsvText
  imports Utf8
begin

text \<open>
  Comma separated text as \<^verbatim>\<open>src/basic/csv\<close> reads and writes it through \<open>encoding/csv\<close>: the reader and the writer with
  their default settings, on the code points of the text.  \<open>None\<close> is an error about quotes.
\<close>

abbreviation comma :: nat where "comma \<equiv> 44"
abbreviation quote :: nat where "quote \<equiv> 34"
abbreviation lf :: nat where "lf \<equiv> 10"
abbreviation cr :: nat where "cr \<equiv> 13"

section \<open>Reading\<close>

text \<open>
  What \<open>readRune\<close> delivers of a text: a line feed swallows the carriage return before it, and a carriage return at the
  end of the text is the end.
\<close>

fun fold_cr :: "nat list \<Rightarrow> nat list" where
  "fold_cr [] = []"
| "fold_cr [r] = (if r = cr then [] else [r])"
| "fold_cr (r # r2 # rs) = (if r = cr \<and> r2 = lf then lf # fold_cr rs else r # fold_cr (r2 # rs))"

text \<open>
  A field gives whether there is one, its text, the delimiter that ended it (\<open>None\<close> at the end of the text) and what
  follows.
\<close>

type_synonym field_read = "bool \<times> nat list \<times> nat option \<times> nat list"

definition prepend :: "nat \<Rightarrow> field_read option \<Rightarrow> field_read option" where
  "prepend r = map_option (\<lambda>(have, t, delim, rs). (have, r # t, delim, rs))"

fun quoted :: "nat list \<Rightarrow> field_read option" where
  "quoted [] = None"
| "quoted [r] = (if r = quote then Some (True, [], None, []) else None)"
| "quoted (r # c # rs) =
     (if r = quote then
        if c = comma \<or> c = lf then Some (True, [], Some c, rs)
        else if c \<noteq> quote then None
        else prepend c (quoted rs)
      else prepend r (quoted (c # rs)))"

fun unquoted :: "nat \<Rightarrow> nat list \<Rightarrow> field_read option" where
  "unquoted r [] = Some (True, [r], None, [])"
| "unquoted r (r1 # rs) =
     (if r1 = comma \<or> r1 = lf then Some (True, [r], Some r1, rs)
      else if r1 = quote then None
      else prepend r (unquoted r1 rs))"

text \<open>\<open>start\<close> is set for the first field of a record, which does not exist when the line is empty.\<close>

fun parseField :: "bool \<Rightarrow> nat list \<Rightarrow> field_read option" where
  "parseField start [] = Some (\<not> start, [], None, [])"
| "parseField start (r # rs) =
     (if r = comma then Some (True, [], Some comma, rs)
      else if r = lf then Some (\<not> start, [], Some lf, rs)
      else if r = quote then quoted rs
      else unquoted r rs)"

lemma quoted_less: "quoted rs = Some (h, t, d, rs') \<Longrightarrow> length rs' < length rs"
  by (induction rs arbitrary: t rule: quoted.induct) (fastforce simp: prepend_def split: if_splits)+

lemma unquoted_less: "unquoted r rs = Some (h, t, d, rs') \<Longrightarrow> length rs' \<le> length rs"
  by (induction r rs arbitrary: t rule: unquoted.induct) (fastforce simp: prepend_def split: if_splits)+

lemma parseField_less: "parseField start rs = Some (h, t, d, rs') \<Longrightarrow> rs \<noteq> [] \<Longrightarrow> length rs' < length rs"
  by (cases rs) (fastforce dest: quoted_less unquoted_less split: if_splits)+

lemma parseField_comma: "parseField start rs = Some (h, t, Some comma, rs') \<Longrightarrow> length rs' < length rs"
  using parseField_less by (cases "rs = []") auto

text \<open>The fields of a record, up to a line feed or the end; \<open>None\<close> is an error.\<close>

function parseRecord :: "bool \<Rightarrow> nat list \<Rightarrow> (nat list list \<times> nat option \<times> nat list) option" where
  "parseRecord start rs =
     (case parseField start rs of
        None \<Rightarrow> None
      | Some (have, t, delim, rs1) \<Rightarrow>
          (if delim = Some comma then
             map_option (\<lambda>(ts, d, rs2). ((if have then [t] else []) @ ts, d, rs2)) (parseRecord False rs1)
           else Some (if have then [t] else [], delim, rs1)))"
  by pat_completeness auto
termination
  by (relation "measure (\<lambda>(_, rs). length rs)") (auto dest: parseField_comma)

declare parseRecord.simps [simp del]

lemma parseRecord_less: "parseRecord start rs = Some (ts, d, rs') \<Longrightarrow> rs \<noteq> [] \<Longrightarrow> length rs' < length rs"
proof (induction start rs arbitrary: ts rule: parseRecord.induct)
  case (1 start rs)
  obtain h t d1 rs1 where f: "parseField start rs = Some (h, t, d1, rs1)"
    using "1.prems"(1) by (auto simp: parseRecord.simps [of start] split: option.splits)
  have l: "length rs1 < length rs" using parseField_less [OF f "1.prems"(2)] .
  show ?case
  proof (cases "d1 = Some comma")
    case True
    then obtain ts1 where r: "parseRecord False rs1 = Some (ts1, d, rs')"
      using "1.prems" f by (auto simp: parseRecord.simps [of start])
    show ?thesis
    proof (cases "rs1 = []")
      case False
      then show ?thesis using "1.IH" [OF f refl refl refl True r] l by simp
    next
      case True
      with r have "rs' = []" by (simp add: parseRecord.simps)
      then show ?thesis using "1.prems"(2) by simp
    qed
  next
    case False
    then show ?thesis using "1.prems"(1) f l by (simp add: parseRecord.simps [of start])
  qed
qed

text \<open>\<open>Read\<close> skips empty lines; the number of fields of the first record is that of all records.\<close>

datatype record_read = Rec "nat list list" "nat list" | ReadEOF | ReadError

function next_record :: "nat list \<Rightarrow> record_read" where
  "next_record rs =
     (if rs = [] then ReadEOF
      else (case parseRecord True rs of
              None \<Rightarrow> ReadError
            | Some (ts, d, rs1) \<Rightarrow> if ts \<noteq> [] then Rec ts rs1 else if d = None then ReadEOF else next_record rs1))"
  by pat_completeness auto
termination
  by (relation "measure length") (auto dest: parseRecord_less)

declare next_record.simps [simp del]

lemma next_record_less: "next_record rs = Rec ts rs' \<Longrightarrow> length rs' < length rs"
proof (induction rs rule: next_record.induct)
  case (1 rs)
  then show ?case using parseRecord_less [of True rs]
    by (subst (asm) (2) next_record.simps) (fastforce split: if_splits option.splits)
qed

definition Reader_Read :: "nat \<Rightarrow> nat list \<Rightarrow> record_read" where
  "Reader_Read n rs =
     (case next_record rs of
        Rec ts rs1 \<Rightarrow> if n > 0 \<and> length ts \<noteq> n then ReadError else Rec ts rs1
      | x \<Rightarrow> x)"

text \<open>The records up to the end or the first error, once the number of fields \<open>n\<close> is known.\<close>

function read_rows :: "nat \<Rightarrow> nat list \<Rightarrow> nat list list list" where
  "read_rows n rs = (case Reader_Read n rs of Rec ts rs1 \<Rightarrow> ts # read_rows n rs1 | _ \<Rightarrow> [])"
  by pat_completeness auto
termination
  by (relation "measure (\<lambda>(_, rs). length rs)") (auto simp: Reader_Read_def dest: next_record_less split: record_read.splits if_splits)

declare read_rows.simps [simp del]

section \<open>Writing\<close>

text \<open>\<open>unicode.IsSpace\<close>.\<close>

definition is_space :: "nat \<Rightarrow> bool" where
  "is_space r \<longleftrightarrow> (9 \<le> r \<and> r \<le> 13) \<or> r \<in> {32, 0x85, 0xA0, 0x1680, 0x2028, 0x2029, 0x202F, 0x205F, 0x3000} \<or> (0x2000 \<le> r \<and> r \<le> 0x200A)"

definition fieldNeedsQuotes :: "string \<Rightarrow> bool" where
  "fieldNeedsQuotes field =
     (let rs = go_runes field in
      field \<noteq> '''' \<and> (field = [CHR 0x5C, CHR ''.''] \<or> comma \<in> set rs \<or> quote \<in> set rs \<or> cr \<in> set rs \<or> lf \<in> set rs \<or> is_space (hd rs)))"

definition write_field :: "string \<Rightarrow> string" where
  "write_field field =
     (if fieldNeedsQuotes field
      then of_runes ([quote] @ concat (map (\<lambda>r. if r = quote then [quote, quote] else [r]) (go_runes field)) @ [quote])
      else field)"

fun Writer_Write :: "string list \<Rightarrow> string" where
  "Writer_Write [] = [char_of lf]"
| "Writer_Write [f] = write_field f @ [char_of lf]"
| "Writer_Write (f # g # fs) = write_field f @ [char_of comma] @ Writer_Write (g # fs)"

section \<open>What is written is read back\<close>

text \<open>The runes a field and a record are written as.\<close>

definition rune_field :: "nat list \<Rightarrow> nat list" where
  "rune_field rs =
     (if fieldNeedsQuotes (of_runes rs) then [quote] @ concat (map (\<lambda>r. if r = quote then [quote, quote] else [r]) rs) @ [quote] else rs)"

fun rune_record :: "nat list list \<Rightarrow> nat list" where
  "rune_record [] = [lf]"
| "rune_record [f] = rune_field f @ [lf]"
| "rune_record (f # g # fs) = rune_field f @ [comma] @ rune_record (g # fs)"

lemma of_runes_append: "of_runes (a @ b) = of_runes a @ of_runes b"
  by (simp add: of_runes_def of_bytes_def)

lemma of_runes_single: "r < 128 \<Longrightarrow> of_runes [r] = [char_of r]"
  by (rule of_runes_ascii [of "[r]", simplified]) auto

lemma of_runes_Nil [simp]: "of_runes [] = ''''"
  by (simp add: of_runes_def of_bytes_def)

lemma of_runes_empty: "of_runes rs = '''' \<longleftrightarrow> rs = []"
  by (cases rs) (auto simp: of_runes_def of_bytes_def encode_rune_def)

lemma scalar_runes: "list_all scalar rs \<Longrightarrow> go_runes (of_runes rs) = rs"
  by (rule runes_round_trip) (simp add: list_all_iff)

lemma write_field_runes: "list_all scalar rs \<Longrightarrow> write_field (of_runes rs) = of_runes (rune_field rs)"
  by (simp add: write_field_def rune_field_def scalar_runes)

lemma Writer_Write_runes:
  "list_all (list_all scalar) fs \<Longrightarrow> Writer_Write (map of_runes fs) = of_runes (rune_record fs)"
proof (induction fs rule: rune_record.induct)
  case (3 f g fs)
  then have "Writer_Write (map of_runes (g # fs)) = of_runes (rune_record (g # fs))" by simp
  with 3 show ?case by (simp add: write_field_runes of_runes_append of_runes_single [symmetric] del: append.simps(2))
qed (simp_all add: write_field_runes of_runes_append of_runes_single)

text \<open>A plain field needs no quotes, a quoted one has its quotes doubled.\<close>

definition plain :: "nat list \<Rightarrow> bool" where
  "plain rs \<longleftrightarrow> comma \<notin> set rs \<and> quote \<notin> set rs \<and> cr \<notin> set rs \<and> lf \<notin> set rs"

lemma unquoted_plain:
  "plain (r # rs) \<Longrightarrow> d = comma \<or> d = lf \<Longrightarrow> unquoted r (rs @ d # rest) = Some (True, r # rs, Some d, rest)"
  by (induction rs arbitrary: r) (auto simp: plain_def prepend_def)

lemma quoted_escaped:
  "d = comma \<or> d = lf \<Longrightarrow>
     quoted (concat (map (\<lambda>r. if r = quote then [quote, quote] else [r]) rs) @ quote # d # rest) = Some (True, rs, Some d, rest)"
proof (induction rs)
  case (Cons r rs)
  let ?s = "concat (map (\<lambda>r. if r = quote then [quote, quote] else [r]) rs) @ quote # d # rest"
  obtain c s where s: "?s = c # s" by (cases ?s) auto
  show ?case using Cons s by (auto simp: prepend_def)
qed auto

lemma parseField_written:
  assumes "list_all scalar f" and "d = comma \<or> d = lf"
  shows "parseField start (rune_field f @ d # rest) = Some (f \<noteq> [] \<or> d = comma \<or> \<not> start, f, Some d, rest)"
proof (cases "fieldNeedsQuotes (of_runes f)")
  case True
  then have "f \<noteq> []" by (auto simp: fieldNeedsQuotes_def)
  then show ?thesis using True quoted_escaped [OF assms(2), of f rest] by (simp add: rune_field_def)
next
  case False
  then have "plain f" using scalar_runes [OF assms(1)] by (auto simp: fieldNeedsQuotes_def plain_def Let_def of_runes_empty)
  then show ?thesis using False assms(2) unquoted_plain [of "hd f" "tl f" d rest]
    by (cases f) (auto simp: rune_field_def plain_def)
qed

lemma parseRecord_written:
  assumes "list_all (list_all scalar) fs" and "fs \<noteq> []" and "start \<Longrightarrow> fs \<noteq> [[]]"
  shows "parseRecord start (rune_record fs @ rest) = Some (fs, Some lf, rest)"
  using assms
proof (induction fs arbitrary: start rule: rune_record.induct)
  case (2 f)
  then show ?case using parseField_written [of f lf start rest] by (auto simp: parseRecord.simps)
next
  case (3 f g fs)
  have "parseRecord False (rune_record (g # fs) @ rest) = Some (g # fs, Some lf, rest)" using 3 by auto
  then show ?case using parseField_written [of f comma start "rune_record (g # fs) @ rest"] "3.prems"(1) by (simp add: parseRecord.simps [of start])
qed simp

lemma next_record_written:
  assumes "list_all (list_all scalar) fs" and "fs \<noteq> []" and "fs \<noteq> [[]]"
  shows "next_record (rune_record fs @ rest) = Rec fs rest"
proof -
  have "rune_record fs \<noteq> []" using assms(2) by (cases fs rule: rune_record.cases) auto
  then show ?thesis using parseRecord_written [OF assms(1,2), of True rest] assms(2,3) by (simp add: next_record.simps)
qed

lemma read_rows_written:
  assumes "list_all (list_all (list_all scalar)) rows" and "list_all (\<lambda>fs. fs \<noteq> [[]] \<and> length fs = n) rows" and "n > 0"
  shows "read_rows n (concat (map rune_record rows)) = rows"
  using assms(1,2)
proof (induction rows)
  case Nil
  then show ?case by (simp add: read_rows.simps Reader_Read_def next_record.simps)
next
  case (Cons fs rows)
  have "next_record (rune_record fs @ concat (map rune_record rows)) = Rec fs (concat (map rune_record rows))"
    using Cons.prems assms(3) by (intro next_record_written) auto
  then show ?case using Cons by (subst read_rows.simps) (simp add: Reader_Read_def)
qed

text \<open>Texts in which no line feed follows a carriage return, and the runes the reader sees of them.\<close>

fun no_crlf :: "nat list \<Rightarrow> bool" where
  "no_crlf (a # b # rs) = (\<not> (a = cr \<and> b = lf) \<and> no_crlf (b # rs))"
| "no_crlf _ = True"

lemma no_crlf_append: "no_crlf (a @ b) \<longleftrightarrow> no_crlf a \<and> no_crlf b \<and> (a = [] \<or> b = [] \<or> \<not> (last a = cr \<and> hd b = lf))"
proof (induction a)
  case (Cons x a)
  then show ?case by (cases a; cases b) auto
qed simp

lemma no_crlf_Cons [simp]: "a \<noteq> cr \<Longrightarrow> no_crlf (a # rs) = no_crlf rs"
  by (cases rs) auto

lemma fold_cr_id: "no_crlf rs \<Longrightarrow> rs = [] \<or> last rs \<noteq> cr \<Longrightarrow> fold_cr rs = rs"
  by (induction rs rule: fold_cr.induct) auto

lemma no_crlf_escaped: "no_crlf rs \<Longrightarrow> no_crlf (concat (map (\<lambda>r. if r = quote then [quote, quote] else [r]) rs) @ [quote])"
proof (induction rs rule: no_crlf.induct)
  case (1 a b rs)
  let ?s = "concat (map (\<lambda>r. if r = quote then [quote, quote] else [r]) rs) @ [quote]"
  have "no_crlf ((if b = quote then [quote, quote] else [b]) @ ?s)" using 1 by simp
  then show ?case using "1.prems" by (auto split: if_splits)
qed auto

lemma plain_no_crlf: "cr \<notin> set rs \<Longrightarrow> no_crlf rs"
  by (induction rs rule: no_crlf.induct) auto

lemma rune_field_no_crlf:
  assumes "list_all scalar f" and "no_crlf f"
  shows "no_crlf (rune_field f) \<and> (rune_field f = [] \<or> last (rune_field f) \<noteq> cr)"
proof (cases "fieldNeedsQuotes (of_runes f)")
  case True
  let ?e = "concat (map (\<lambda>r. if r = quote then [quote, quote] else [r]) f) @ [quote]"
  have "no_crlf (quote # ?e)" using no_crlf_escaped [OF assms(2)] by (cases ?e) auto
  then show ?thesis using True by (simp add: rune_field_def)
next
  case False
  then have "cr \<notin> set f" using scalar_runes [OF assms(1)] by (auto simp: fieldNeedsQuotes_def Let_def of_runes_empty)
  then show ?thesis using False plain_no_crlf [of f] by (metis last_in_set rune_field_def)
qed

lemma rune_record_no_crlf:
  "list_all (\<lambda>f. list_all scalar f \<and> no_crlf f) fs \<Longrightarrow> no_crlf (rune_record fs) \<and> last (rune_record fs) = lf \<and> rune_record fs \<noteq> []"
  by (induction fs rule: rune_record.induct) (auto simp: no_crlf_append dest!: rune_field_no_crlf)

lemma rune_records_no_crlf:
  "list_all (list_all (\<lambda>f. list_all scalar f \<and> no_crlf f)) rows \<Longrightarrow>
     no_crlf (concat (map rune_record rows)) \<and> (concat (map rune_record rows) = [] \<or> last (concat (map rune_record rows)) \<noteq> cr)"
proof (induction rows)
  case (Cons fs rows)
  then have "no_crlf (rune_record fs) \<and> last (rune_record fs) = lf \<and> rune_record fs \<noteq> []" by (intro rune_record_no_crlf) simp
  then show ?case using Cons by (auto simp: no_crlf_append last_append)
qed simp

text \<open>A whole document: the first record and those after it, as texts.\<close>

definition read_document :: "string \<Rightarrow> (string list \<times> string list list) option" where
  "read_document doc =
     (case Reader_Read 0 (fold_cr (go_runes doc)) of
        Rec cols rest \<Rightarrow> Some (map of_runes cols, map (map of_runes) (read_rows (length cols) rest))
      | _ \<Rightarrow> None)"

text \<open>The texts the format can carry: well-formed text without a carriage return before a line feed.\<close>

definition csv_text :: "string \<Rightarrow> bool" where
  "csv_text s \<longleftrightarrow> (let rs = go_runes s in of_runes rs = s \<and> list_all scalar rs \<and> no_crlf rs)"

lemma csv_text_runes: "csv_text s \<Longrightarrow> of_runes (go_runes s) = s \<and> list_all scalar (go_runes s) \<and> no_crlf (go_runes s)"
  by (simp add: csv_text_def Let_def)

lemma scalar_marks [simp]: "scalar quote" "scalar comma" "scalar lf"
  by (simp_all add: scalar_def)

lemma rune_field_scalar: "list_all scalar f \<Longrightarrow> list_all scalar (rune_field f)"
  by (auto simp: rune_field_def list_all_iff split: if_splits)

lemma rune_record_scalar: "list_all (list_all scalar) fs \<Longrightarrow> list_all scalar (rune_record fs)"
  by (induction fs rule: rune_record.induct) (auto simp: rune_field_scalar)

lemma document_read_back:
  assumes "list_all (list_all csv_text) (cols # rows)" and "list_all (\<lambda>fs. length fs = length cols) rows"
    and "cols \<noteq> []" and "[''''] \<notin> set (cols # rows)"
  shows "read_document (concat (map Writer_Write (cols # rows))) = Some (cols, rows)"
proof -
  let ?R = "map (map go_runes) (cols # rows)"
  have R: "list_all (list_all (\<lambda>f. list_all scalar f \<and> no_crlf f)) ?R" using assms(1) csv_text_runes by (auto simp: list_all_iff)
  then have S: "list_all (list_all (list_all scalar)) ?R" by (auto simp: list_all_iff)
  have again: "map of_runes (map go_runes fs) = fs" if "fs \<in> set (cols # rows)" for fs
    using assms(1) that csv_text_runes by (auto simp: list_all_iff intro!: map_idI)
  have "Writer_Write fs = of_runes (rune_record (map go_runes fs))" if "fs \<in> set (cols # rows)" for fs
    using Writer_Write_runes [of "map go_runes fs"] again [OF that] S that by (auto simp: list_all_iff)
  then have "map Writer_Write (cols # rows) = map (\<lambda>fs. of_runes (rune_record (map go_runes fs))) (cols # rows)" by simp
  moreover have "concat (map (\<lambda>fs. of_runes (rune_record (map go_runes fs))) xs) = of_runes (concat (map rune_record (map (map go_runes) xs)))" for xs
    by (induction xs) (simp_all add: of_runes_append)
  ultimately have doc: "concat (map Writer_Write (cols # rows)) = of_runes (concat (map rune_record ?R))" by (simp only:)
  have "list_all scalar (concat (map rune_record R))" if "list_all (list_all (list_all scalar)) R" for R
    using that by (induction R) (simp_all add: rune_record_scalar)
  from this [OF S] have "list_all scalar (concat (map rune_record ?R))" .
  then have "go_runes (concat (map Writer_Write (cols # rows))) = concat (map rune_record ?R)" by (simp only: doc scalar_runes)
  then have runes: "fold_cr (go_runes (concat (map Writer_Write (cols # rows)))) = concat (map rune_record ?R)"
    using fold_cr_id rune_records_no_crlf [OF R] by metis
  have ne: "map go_runes fs \<noteq> [[]]" if "fs \<in> set (cols # rows)" for fs
    using again [OF that] assms(4) that by (cases fs) auto
  have n: "next_record (rune_record (map go_runes cols) @ concat (map rune_record (tl ?R))) = Rec (map go_runes cols) (concat (map rune_record (tl ?R)))"
    using S assms(3) ne [of cols] by (intro next_record_written) auto
  have "read_rows (length cols) (concat (map rune_record (tl ?R))) = tl ?R"
    using S assms(2,3) ne by (intro read_rows_written) (auto simp: list_all_iff)
  moreover have "map (map of_runes) (tl ?R) = rows" "map of_runes (map go_runes cols) = cols" using again by (simp_all add: map_idI)
  ultimately show ?thesis using runes n by (simp add: read_document_def Reader_Read_def)
qed

end
