(* ===== verification/CsvCodec.thy ===== *)
theory CsvCodec
  imports CsvText HashStore
begin

text \<open>
  Slices of structs as comma separated text, \<^verbatim>\<open>src/basic/csv\<close>: \<open>Marshal\<close> and \<open>Unmarshal\<close>.  A struct type is the list of
  its fields, a struct the list of its field names and values.  The types that encode or decode themselves and the
  parsing of floats are parameters.  The outer \<open>None\<close> of a result is a panic, the inner one an error.
\<close>

section \<open>Struct types\<close>

text \<open>A row has the names of the columns and its data.\<close>

type_synonym csv_row = "string list \<times> string list"

text \<open>
  The kinds of field that are neither basic nor slices: complex numbers, with the text that \<open>%+.3g\<close> gives, interfaces,
  structures, and the rest (pointers, maps, arrays, functions, channels).
\<close>

datatype other_kind = OComplex "gval \<Rightarrow> string" | OInterface | OStruct | ORest

record struct_field =
  sf_Name :: string
  sf_Type :: kind
  sf_csv :: string
  sf_true :: string
  sf_false :: string
  sf_exported :: bool
  sf_unmarshal :: "(string \<Rightarrow> csv_row \<Rightarrow> gval) option"
  sf_marshal :: "(gval \<Rightarrow> string option) option"
  sf_other :: other_kind

definition fieldHeaderName :: "struct_field \<Rightarrow> string option" where
  "fieldHeaderName f =
     (if sf_csv f = ''-'' then None else if sf_csv f = '''' then Some (sf_Name f) else Some (sf_csv f))"

definition Row_At :: "csv_row \<Rightarrow> nat \<Rightarrow> string option" where
  "Row_At r i = go_nth (snd r) (int i)"

text \<open>The first column of the name; \<open>None\<close> inside is the error.\<close>

fun index_of :: "string \<Rightarrow> string list \<Rightarrow> nat option" where
  "index_of n [] = None"
| "index_of n (c # cs) = (if c = n then Some 0 else map_option Suc (index_of n cs))"

definition Row_Named :: "csv_row \<Rightarrow> string \<Rightarrow> string option option" where
  "Row_Named r n = (case index_of n (fst r) of None \<Rightarrow> Some None | Some i \<Rightarrow> map_option Some (Row_At r i))"

section \<open>Unmarshal\<close>

text \<open>The zero value of a type.\<close>

definition zero_val :: "kind \<Rightarrow> gval" where
  "zero_val k = (case k of
     KString \<Rightarrow> GStr '''' | KUint64 \<Rightarrow> GUint64 0 | KUint32 \<Rightarrow> GUint32 0 | KUint16 \<Rightarrow> GUint16 0 | KUint8 \<Rightarrow> GUint8 0 | KUint \<Rightarrow> GUint 0
   | KInt64 \<Rightarrow> GInt64 0 | KInt32 \<Rightarrow> GInt32 0 | KInt16 \<Rightarrow> GInt16 0 | KInt8 \<Rightarrow> GInt8 0 | KInt \<Rightarrow> GInt 0
   | KFloat64 \<Rightarrow> GFloat64 ''0'' | KFloat32 \<Rightarrow> GFloat32 ''0'' | KBool \<Rightarrow> GBool False | KSlice \<Rightarrow> GBytes ''''
   | KInvalid \<Rightarrow> GNil | KOther \<Rightarrow> GOther '''' None)"

text \<open>\<open>SetInt\<close> cuts the number to the size of the field.\<close>

definition SetInt :: "kind \<Rightarrow> int \<Rightarrow> gval" where
  "SetInt k i = (case k of KInt8 \<Rightarrow> GInt8 (of_int i) | KInt16 \<Rightarrow> GInt16 (of_int i) | KInt32 \<Rightarrow> GInt32 (of_int i)
     | KInt64 \<Rightarrow> GInt64 (of_int i) | _ \<Rightarrow> GInt (of_int i))"

definition decodeBool :: "struct_field \<Rightarrow> string \<Rightarrow> bool" where
  "decodeBool f val = (if val = sf_true f then True else if val = sf_false f then False else True)"

text \<open>The decoder that \<open>assignDecoder\<close> chooses by the type: the new value of the cell, or its error.\<close>

definition decode_cell :: "(nat \<Rightarrow> string \<Rightarrow> string option) \<Rightarrow> struct_field \<Rightarrow> gval \<Rightarrow> string \<Rightarrow> gval option" where
  "decode_cell parseFloat f cell val = (case sf_Type f of
     KString \<Rightarrow> Some (GStr val)
   | KUint32 \<Rightarrow> (case ParseUint 32 val of (i, good) \<Rightarrow> if good then Some (GUint32 (of_nat i)) else None)
   | KInt \<Rightarrow> (case Atoi val of (i, good) \<Rightarrow> if good then Some (SetInt KInt i) else None)
   | KInt8 \<Rightarrow> (case Atoi val of (i, good) \<Rightarrow> if good then Some (SetInt KInt8 i) else None)
   | KInt16 \<Rightarrow> (case Atoi val of (i, good) \<Rightarrow> if good then Some (SetInt KInt16 i) else None)
   | KInt32 \<Rightarrow> (case Atoi val of (i, good) \<Rightarrow> if good then Some (SetInt KInt32 i) else None)
   | KInt64 \<Rightarrow> (case Atoi val of (i, good) \<Rightarrow> if good then Some (SetInt KInt64 i) else None)
   | KFloat32 \<Rightarrow> map_option GFloat32 (parseFloat 32 val)
   | KFloat64 \<Rightarrow> map_option GFloat64 (parseFloat 64 val)
   | KBool \<Rightarrow> Some (GBool (decodeBool f val))
   | _ \<Rightarrow> Some cell)"

text \<open>A field with its column; a type that decodes itself is asked first.\<close>

type_synonym cfield = "nat \<times> struct_field"

definition run_decoder ::
  "(nat \<Rightarrow> string \<Rightarrow> string option) \<Rightarrow> cfield \<Rightarrow> gval \<Rightarrow> csv_row \<Rightarrow> gval option option" where
  "run_decoder parseFloat cf cell row = do {
     val \<leftarrow> Row_At row (fst cf);
     Some (case sf_unmarshal (snd cf) of
             Some u \<Rightarrow> Some (u val row)
           | None \<Rightarrow> decode_cell parseFloat (snd cf) cell val)
   }"

text \<open>The column of a name in \<open>cMap\<close>: the last one with that name.\<close>

fun cMap :: "string list \<Rightarrow> nat \<Rightarrow> string \<rightharpoonup> nat" where
  "cMap [] i = Map.empty"
| "cMap (c # cs) i = [c \<mapsto> i] ++ cMap cs (Suc i)"

definition exportedFields :: "struct_field list \<Rightarrow> struct_field list" where
  "exportedFields t = filter sf_exported t"

definition mapFieldsToCols :: "struct_field list \<Rightarrow> string list \<Rightarrow> cfield list" where
  "mapFieldsToCols t cols =
     [(i, f). f \<leftarrow> exportedFields t,
              i \<leftarrow> (case fieldHeaderName f of None \<Rightarrow> [] | Some name \<Rightarrow> (case cMap cols 0 name of None \<Rightarrow> [] | Some i \<Rightarrow> [i]))]"

definition put_field :: "string \<Rightarrow> gval \<Rightarrow> gobject \<Rightarrow> gobject" where
  "put_field n v el = map (\<lambda>(m, w). (m, if m = n then v else w)) el"

definition get_field :: "string \<Rightarrow> gobject \<Rightarrow> gval" where
  "get_field n el = (case map_of el n of Some v \<Rightarrow> v | None \<Rightarrow> GNil)"

fun set_row ::
  "(nat \<Rightarrow> string \<Rightarrow> string option) \<Rightarrow> cfield list \<Rightarrow> csv_row \<Rightarrow> gobject \<Rightarrow> gobject option option" where
  "set_row pf [] row el = Some (Some el)"
| "set_row pf (cf # cfs) row el = do {
     r \<leftarrow> run_decoder pf cf (get_field (sf_Name (snd cf)) el) row;
     (case r of
        None \<Rightarrow> Some None
      | Some v \<Rightarrow> set_row pf cfs row (put_field (sf_Name (snd cf)) v el))
   }"

definition zero_struct :: "struct_field list \<Rightarrow> gobject" where
  "zero_struct t = map (\<lambda>f. (sf_Name f, zero_val (sf_Type f))) t"

text \<open>The rows up to the first that cannot be decoded; that error is not reported.\<close>

fun unmarshal_rows ::
  "(nat \<Rightarrow> string \<Rightarrow> string option) \<Rightarrow> struct_field list \<Rightarrow> cfield list \<Rightarrow> string list \<Rightarrow> string list list \<Rightarrow> gobject list option" where
  "unmarshal_rows pf t cfs cols [] = Some []"
| "unmarshal_rows pf t cfs cols (raw # raws) = do {
     r \<leftarrow> set_row pf cfs (cols, raw) (zero_struct t);
     (case r of
        None \<Rightarrow> Some []
      | Some el \<Rightarrow> do { els \<leftarrow> unmarshal_rows pf t cfs cols raws; Some (el # els) })
   }"

definition Unmarshal :: "(nat \<Rightarrow> string \<Rightarrow> string option) \<Rightarrow> struct_field list \<Rightarrow> string \<Rightarrow> gobject list option option" where
  "Unmarshal pf t doc =
     (case read_document doc of
        None \<Rightarrow> Some None
      | Some (cols, raws) \<Rightarrow> map_option Some (unmarshal_rows pf t (mapFieldsToCols t cols) cols raws))"

section \<open>Marshal\<close>

definition encodeBool :: "bool \<Rightarrow> struct_field \<Rightarrow> string" where
  "encodeBool b st =
     (let v = (if b then ''true'' else ''false''); tv = (if b then sf_true st else sf_false st)
      in if tv \<noteq> '''' then tv else v)"

text \<open>
  The type of the field may have a method \<open>MarshalCSV\<close>.  Then taking the value out panics when the field is not exported, and
  the assertion that the value has the method when it is \<open>nil\<close>.
\<close>

definition encodeInterface :: "gval \<Rightarrow> struct_field \<Rightarrow> string option" where
  "encodeInterface fv st =
     (case sf_marshal st of
        None \<Rightarrow> Some ''''
      | Some m \<Rightarrow> if fv = GNil \<or> \<not> sf_exported st then None else Some (case m fv of None \<Rightarrow> '''' | Some b \<Rightarrow> b))"

text \<open>
  The text of a value; \<open>None\<close> is a panic, which an unsupported type causes.  A field of an interface type has the kind of
  an interface, whatever value it holds.
\<close>

definition encodeCol :: "struct_field \<Rightarrow> gval \<Rightarrow> string option" where
  "encodeCol st fv =
   (if sf_Type st = KOther then
      (case sf_other st of
         OComplex sprintf \<Rightarrow> Some (sprintf fv)
       | OInterface \<Rightarrow> encodeInterface fv st
       | OStruct \<Rightarrow> encodeInterface fv st
       | ORest \<Rightarrow> None)
    else case fv of
     GStr s \<Rightarrow> Some s
   | GInt i \<Rightarrow> Some (fmt_int (sint i)) | GInt8 i \<Rightarrow> Some (fmt_int (sint i)) | GInt16 i \<Rightarrow> Some (fmt_int (sint i))
   | GInt32 i \<Rightarrow> Some (fmt_int (sint i)) | GInt64 i \<Rightarrow> Some (fmt_int (sint i))
   | GFloat32 s \<Rightarrow> Some s | GFloat64 s \<Rightarrow> Some s
   | GBool b \<Rightarrow> Some (encodeBool b st)
   | GUint i \<Rightarrow> Some (fmt_nat (unat i)) | GUint8 i \<Rightarrow> Some (fmt_nat (unat i)) | GUint16 i \<Rightarrow> Some (fmt_nat (unat i))
   | GUint32 i \<Rightarrow> Some (fmt_nat (unat i)) | GUint64 i \<Rightarrow> Some (fmt_nat (unat i))
   | _ \<Rightarrow> None)"

definition colNames :: "struct_field list \<Rightarrow> string list" where
  "colNames t = [h. f \<leftarrow> t, h \<leftarrow> (case fieldHeaderName f of None \<Rightarrow> [] | Some h \<Rightarrow> [h])]"

fun encodeRow :: "struct_field list \<Rightarrow> gobject \<Rightarrow> string list option" where
  "encodeRow [] v = Some []"
| "encodeRow (f # t) v =
     (if sf_csv f = ''-'' then encodeRow t v
      else do { c \<leftarrow> encodeCol f (get_field (sf_Name f) v); r \<leftarrow> encodeRow t v; Some (c # r) })"

fun encodeAll :: "struct_field list \<Rightarrow> gobject list \<Rightarrow> string list list option" where
  "encodeAll t [] = Some []"
| "encodeAll t (v # vs) = do { row \<leftarrow> encodeRow t v; rows \<leftarrow> encodeAll t vs; Some (row # rows) }"

definition Marshal :: "struct_field list \<Rightarrow> gobject list \<Rightarrow> string option" where
  "Marshal t data =
     (if data = [] then None
      else do { rows \<leftarrow> encodeAll t data; Some (concat (map Writer_Write (colNames t # rows))) })"

section \<open>Round trip\<close>

text \<open>
  A field that keeps its value: exported, not skipped, of a type with a decoder, and for a \<open>bool\<close> with two different
  texts for the two values.
\<close>

definition keeps :: "struct_field \<Rightarrow> gval \<Rightarrow> bool" where
  "keeps f v \<longleftrightarrow> sf_exported f \<and> sf_csv f \<noteq> ''-'' \<and> sf_unmarshal f = None \<and> kind_of v = sf_Type f \<and>
     (case v of
        GStr s \<Rightarrow> csv_text s
      | GBool _ \<Rightarrow> csv_text (sf_true f) \<and> csv_text (sf_false f) \<and> sf_true f \<noteq> '''' \<and> sf_false f \<noteq> '''' \<and> sf_true f \<noteq> sf_false f
      | GUint32 _ \<Rightarrow> True | GInt _ \<Rightarrow> True | GInt8 _ \<Rightarrow> True | GInt16 _ \<Rightarrow> True | GInt32 _ \<Rightarrow> True | GInt64 _ \<Rightarrow> True
      | _ \<Rightarrow> False)"

lemma csv_text_ascii: "(\<And>c. c \<in> set s \<Longrightarrow> (of_char c :: nat) < 128 \<and> c \<noteq> CHR 0x0D) \<Longrightarrow> csv_text s"
proof -
  assume *: "\<And>c. c \<in> set s \<Longrightarrow> (of_char c :: nat) < 128 \<and> c \<noteq> CHR 0x0D"
  have runes: "go_runes s = map of_char s" using * by (intro go_runes_ascii) blast
  moreover have "of_runes (map of_char s) = s" using * by (subst of_runes_ascii) (auto simp: comp_def)
  moreover have "list_all scalar (map of_char s)" using * by (force simp: list_all_iff scalar_def)
  moreover have "no_crlf (map of_char s)"
  proof (rule plain_no_crlf)
    have "c = CHR 0x0D" if "of_char c = (13 :: nat)" for c
    proof -
      have "of_char c = (of_char (CHR 0x0D) :: nat)" using that by simp
      then show ?thesis by (simp only: of_char_eq_iff)
    qed
    then show "cr \<notin> set (map of_char s)" using * by force
  qed
  ultimately show ?thesis by (simp add: csv_text_def)
qed

lemma csv_text_fmt_nat: "csv_text (fmt_nat n)"
proof (rule csv_text_ascii)
  fix c assume "c \<in> set (fmt_nat n)"
  then have "is_digit c" by (rule fmt_nat_digits)
  then show "(of_char c :: nat) < 128 \<and> c \<noteq> CHR 0x0D" by (auto simp: is_digit_def)
qed

lemma csv_text_fmt_int: "csv_text (fmt_int n)"
proof (rule csv_text_ascii)
  fix c assume "c \<in> set (fmt_int n)"
  then have "c = CHR ''-'' \<or> is_digit c" by (auto simp: fmt_int_def dest: fmt_nat_digits split: if_splits)
  then show "(of_char c :: nat) < 128 \<and> c \<noteq> CHR 0x0D" by (auto simp: is_digit_def)
qed

lemma Atoi_sint: "Atoi (fmt_int (sint (w :: 'a::len word))) = (sint w, True)" if "LENGTH('a) \<le> 64"
proof -
  have "- (2 ^ (LENGTH('a) - 1)) \<le> sint w" "sint w < 2 ^ (LENGTH('a) - 1)" using sint_range_size [of w] by (simp_all add: word_size)
  moreover have "(2 :: int) ^ (LENGTH('a) - 1) \<le> 2 ^ 63" using that by (intro power_increasing) auto
  ultimately show ?thesis using ParseInt_fmt [of 64 "sint w"] by (simp add: Atoi_def)
qed

text \<open>The text of a kept value is carried by the format and decodes to the value.\<close>

lemma keeps_text:
  assumes "keeps f v"
  shows "\<exists>s. encodeCol f v = Some s \<and> csv_text s \<and> decode_cell pf f cell s = Some v"
proof -
  have u32: "ParseUint 32 (fmt_nat (unat i)) = (unat i, True)" for i :: u32
    using ParseUint_fmt [of "unat i" 32] unsigned_less [of i, where ?'a = nat] by simp
  show ?thesis using assms
    by (cases v) (auto simp: keeps_def encodeCol_def decode_cell_def encodeBool_def decodeBool_def SetInt_def u32 Atoi_sint
        csv_text_fmt_nat csv_text_fmt_int split: if_splits)
qed

text \<open>A struct of a type whose fields all keep their values.\<close>

definition fits :: "struct_field list \<Rightarrow> gobject \<Rightarrow> bool" where
  "fits t v \<longleftrightarrow> map fst v = map sf_Name t \<and> list_all (\<lambda>f. keeps f (get_field (sf_Name f) v)) t"

definition header :: "struct_field \<Rightarrow> string" where
  "header f = (if sf_csv f = '''' then sf_Name f else sf_csv f)"

lemma header_name: "sf_csv f \<noteq> ''-'' \<Longrightarrow> fieldHeaderName f = Some (header f)"
  by (simp add: fieldHeaderName_def header_def)

lemma keepsD: "keeps f v \<Longrightarrow> sf_exported f \<and> sf_csv f \<noteq> ''-'' \<and> sf_unmarshal f = None"
  by (simp add: keeps_def)

lemma colNames_eq: "list_all (\<lambda>f. sf_csv f \<noteq> ''-'') t \<Longrightarrow> colNames t = map header t"
  by (induction t) (simp_all add: colNames_def header_name)

lemma encodeRow_eq:
  "list_all (\<lambda>f. keeps f (get_field (sf_Name f) v)) t \<Longrightarrow>
     encodeRow t v = Some (map (\<lambda>f. the (encodeCol f (get_field (sf_Name f) v))) t)"
proof (induction t)
  case (Cons f t)
  then show ?case using keeps_text [of f "get_field (sf_Name f) v"] keepsD [of f "get_field (sf_Name f) v"] by fastforce
qed simp

lemma encodeAll_eq: "list_all (fits t) vs \<Longrightarrow>
    encodeAll t vs = Some (map (\<lambda>v. map (\<lambda>f. the (encodeCol f (get_field (sf_Name f) v))) t) vs)"
  by (induction vs) (simp_all add: encodeRow_eq fits_def)

lemma cMap_dom: "dom (cMap cs k) = set cs"
  by (induction cs arbitrary: k) auto

lemma cMap_nth: "distinct cs \<Longrightarrow> i < length cs \<Longrightarrow> cMap cs k (cs ! i) = Some (k + i)"
proof (induction cs arbitrary: k i)
  case (Cons c cs)
  show ?case
  proof (cases i)
    case 0
    have "cMap cs (Suc k) c = None" using Cons.prems(1) cMap_dom [of cs "Suc k"] by (auto simp: domIff)
    then show ?thesis using 0 by (simp add: map_add_def)
  next
    case (Suc j)
    then show ?thesis using Cons by (simp add: map_add_def)
  qed
qed simp

lemma mapFieldsToCols_eq:
  assumes "list_all (\<lambda>f. sf_exported f \<and> sf_csv f \<noteq> ''-'') t" and "distinct (map header t)"
  shows "mapFieldsToCols t (map header t) = enumerate 0 t"
proof -
  have at: "cMap (map header t) 0 (header (t ! i)) = Some i" if "i < length t" for i
    using cMap_nth [OF assms(2), of i 0] that by simp
  have "\<exists>i. cMap (map header t) 0 (header f) = Some i" if "f \<in> set t" for f
    using that at by (metis in_set_conv_nth)
  then have "concat (map (\<lambda>f. map (\<lambda>i. (i, f)) (case fieldHeaderName f of None \<Rightarrow> [] | Some name \<Rightarrow>
      (case cMap (map header t) 0 name of None \<Rightarrow> [] | Some i \<Rightarrow> [i]))) s) = map (\<lambda>f. (the (cMap (map header t) 0 (header f)), f)) s"
    if "set s \<subseteq> set t" for s
    using that assms(1) by (induction s) (fastforce simp: header_name list_all_iff)+
  moreover have "exportedFields t = t" using assms(1) by (auto simp: exportedFields_def list_all_iff intro!: filter_True)
  moreover have "map (\<lambda>f. (the (cMap (map header t) 0 (header f)), f)) t = enumerate 0 t"
    by (rule nth_equalityI) (simp_all add: at nth_enumerate_eq)
  ultimately show ?thesis by (simp add: mapFieldsToCols_def)
qed

lemma put_fields:
  "foldl (\<lambda>el f. put_field (sf_Name f) (g (sf_Name f)) el) el t = map (\<lambda>(m, w). (m, if m \<in> sf_Name ` set t then g m else w)) el"
proof (induction t arbitrary: el)
  case (Cons f t)
  show ?case unfolding foldl.simps Cons.IH by (auto simp: put_field_def)
qed simp

lemma set_row_eq:
  "(\<And>i f. (i, f) \<in> set cfs \<Longrightarrow> sf_unmarshal f = None \<and> i < length data \<and> (\<forall>cell. decode_cell pf f cell (data ! i) = Some (g (sf_Name f)))) \<Longrightarrow>
     set_row pf cfs (cols, data) el = Some (Some (foldl (\<lambda>el f. put_field (sf_Name f) (g (sf_Name f)) el) el (map snd cfs)))"
proof (induction cfs arbitrary: el)
  case (Cons cf cfs)
  obtain i f where cf: "cf = (i, f)" by (cases cf)
  have "run_decoder pf cf (get_field (sf_Name f) el) (cols, data) = Some (Some (g (sf_Name f)))"
    using Cons.prems [of i f] by (simp add: cf run_decoder_def Row_At_def)
  moreover have "set_row pf cfs (cols, data) (put_field (sf_Name f) (g (sf_Name f)) el) =
      Some (Some (foldl (\<lambda>el f. put_field (sf_Name f) (g (sf_Name f)) el) (put_field (sf_Name f) (g (sf_Name f)) el) (map snd cfs)))"
    using Cons.prems by (intro Cons.IH) auto
  ultimately show ?case by (simp add: cf)
qed simp

lemma get_field_all: "distinct (map fst v) \<Longrightarrow> map (\<lambda>n. (n, get_field n v)) (map fst v) = v"
  by (auto simp: get_field_def intro!: map_idI)

lemma set_row_fits:
  assumes "fits t v" and "distinct (map sf_Name t)"
  shows "set_row pf (enumerate 0 t) (cols, map (\<lambda>f. the (encodeCol f (get_field (sf_Name f) v))) t) (zero_struct t) = Some (Some v)"
proof -
  have d: "decode_cell pf f cell (the (encodeCol f (get_field (sf_Name f) v))) = Some (get_field (sf_Name f) v)" "sf_unmarshal f = None"
    if "f \<in> set t" for f cell
    using assms(1) that keeps_text [of f "get_field (sf_Name f) v" pf cell] keepsD [of f "get_field (sf_Name f) v"] by (auto simp: fits_def list_all_iff)
  have "set_row pf (enumerate 0 t) (cols, map (\<lambda>f. the (encodeCol f (get_field (sf_Name f) v))) t) (zero_struct t) =
      Some (Some (foldl (\<lambda>el f. put_field (sf_Name f) ((\<lambda>n. get_field n v) (sf_Name f)) el) (zero_struct t) (map snd (enumerate 0 t))))"
  proof (rule set_row_eq)
    fix i f assume "(i, f) \<in> set (enumerate 0 t)"
    then have "i < length t" "f = t ! i" by (auto simp: in_set_enumerate_eq)
    then show "sf_unmarshal f = None \<and> i < length (map (\<lambda>f. the (encodeCol f (get_field (sf_Name f) v))) t) \<and>
        (\<forall>cell. decode_cell pf f cell (map (\<lambda>f. the (encodeCol f (get_field (sf_Name f) v))) t ! i) = Some ((\<lambda>n. get_field n v) (sf_Name f)))"
      using d by simp
  qed
  also have "foldl (\<lambda>el f. put_field (sf_Name f) ((\<lambda>n. get_field n v) (sf_Name f)) el) (zero_struct t) (map snd (enumerate 0 t)) =
      map (\<lambda>f. (sf_Name f, get_field (sf_Name f) v)) t"
    using put_fields [of "\<lambda>n. get_field n v" "zero_struct t" t] by (simp add: zero_struct_def)
  also have "\<dots> = map (\<lambda>n. (n, get_field n v)) (map fst v)" using assms(1) by (simp add: fits_def comp_def)
  also have "\<dots> = v" using assms by (intro get_field_all) (simp add: fits_def)
  finally show ?thesis .
qed

lemma unmarshal_rows_fits:
  assumes "distinct (map sf_Name t)" and "list_all (fits t) vs"
  shows "unmarshal_rows pf t (enumerate 0 t) cols (map (\<lambda>v. map (\<lambda>f. the (encodeCol f (get_field (sf_Name f) v))) t) vs @ raws) =
    map_option (\<lambda>els. vs @ els) (unmarshal_rows pf t (enumerate 0 t) cols raws)"
  using assms(2)
proof (induction vs)
  case Nil
  then show ?case by (simp add: option.map_ident)
next
  case (Cons v vs)
  then show ?case by (cases "unmarshal_rows pf t (enumerate 0 t) cols raws") (simp_all add: set_row_fits [OF _ assms(1)])
qed

lemma fits_fields: "fits t v \<Longrightarrow> list_all (\<lambda>f. sf_exported f \<and> sf_csv f \<noteq> ''-'') t"
  using keepsD by (auto simp: fits_def list_all_iff)

lemma encoded_text: "fits t v \<Longrightarrow> list_all csv_text (map (\<lambda>f. the (encodeCol f (get_field (sf_Name f) v))) t)"
  using keeps_text by (fastforce simp: fits_def list_all_iff)

lemma read_written:
  assumes "distinct (map header t)" and "list_all csv_text (map header t)" and "2 \<le> length t" and "vs \<noteq> []" and "list_all (fits t) vs"
    and "list_all (\<lambda>raw. length raw = length t \<and> list_all csv_text raw) raws"
  shows "read_document (concat (map Writer_Write (colNames t # map (\<lambda>v. map (\<lambda>f. the (encodeCol f (get_field (sf_Name f) v))) t) vs @ raws))) =
      Some (map header t, map (\<lambda>v. map (\<lambda>f. the (encodeCol f (get_field (sf_Name f) v))) t) vs @ raws) \<and>
    mapFieldsToCols t (map header t) = enumerate 0 t"
proof -
  have t: "list_all (\<lambda>f. sf_exported f \<and> sf_csv f \<noteq> ''-'') t" using assms(4,5) fits_fields by (cases vs) auto
  then have cols: "colNames t = map header t" by (intro colNames_eq) (auto simp: list_all_iff)
  let ?rows = "map (\<lambda>v. map (\<lambda>f. the (encodeCol f (get_field (sf_Name f) v))) t) vs @ raws"
  have single: "[''''] \<notin> set (map header t # ?rows)"
    using assms(3,6) by (auto simp: list_all_iff dest: arg_cong [of _ _ length])
  have ne: "map header t \<noteq> []" using assms(3) by auto
  have "list_all csv_text (map (\<lambda>f. the (encodeCol f (get_field (sf_Name f) v))) t)" if "v \<in> set vs" for v
    by (rule encoded_text) (use assms(5) that in \<open>simp add: list_all_iff\<close>)
  then have texts: "list_all (list_all csv_text) (map header t # ?rows)"
    using assms(2,6) unfolding list_all_iff [of "list_all csv_text"] list_all_iff [of "\<lambda>raw. _ raw \<and> _ raw"] by auto
  have "list_all (\<lambda>fs. length fs = length (map header t)) ?rows" using assms(6) by (auto simp: list_all_iff)
  from document_read_back [OF texts this ne single] show ?thesis unfolding cols using mapFieldsToCols_eq [OF t assms(1)] by blast
qed

text \<open>
  C30.  A slice of structs survives \<open>Marshal\<close> and \<open>Unmarshal\<close>: for a type of at least two exported fields with different
  names and headers, of the types that have a decoder, every non-empty slice is written without a panic and read back equal,
  with every number of the field's size and every text that is well formed and has no line feed after a carriage return.
\<close>

theorem Marshal_Unmarshal:
  assumes "distinct (map sf_Name t)" and "distinct (map header t)" and "list_all csv_text (map header t)" and "2 \<le> length t"
    and "vs \<noteq> []" and "list_all (fits t) vs"
  shows "\<exists>doc. Marshal t vs = Some doc \<and> Unmarshal pf t doc = Some (Some vs)"
proof -
  let ?rows = "map (\<lambda>v. map (\<lambda>f. the (encodeCol f (get_field (sf_Name f) v))) t) vs"
  have "Marshal t vs = Some (concat (map Writer_Write (colNames t # ?rows)))"
    using assms(5,6) by (simp add: Marshal_def encodeAll_eq)
  moreover have "Unmarshal pf t (concat (map Writer_Write (colNames t # ?rows))) = Some (Some vs)"
    using read_written [OF assms(2-6), of "[]"] unmarshal_rows_fits [OF assms(1,6), of pf "map header t" "[]"]
    by (simp add: Unmarshal_def)
  ultimately show ?thesis by blast
qed

text \<open>
  C38.  A row that cannot be decoded ends the table without an error: \<open>Unmarshal\<close> reports success and returns the rows
  before it, and all rows after it are lost.
\<close>

theorem Unmarshal_stops_silently:
  assumes "distinct (map sf_Name t)" and "distinct (map header t)" and "list_all csv_text (map header t)" and "2 \<le> length t"
    and "vs \<noteq> []" and "list_all (fits t) vs"
    and "list_all (\<lambda>raw. length raw = length t \<and> list_all csv_text raw) (bad # rest)"
    and "set_row pf (enumerate 0 t) (map header t, bad) (zero_struct t) = Some None"
  shows "Unmarshal pf t (concat (map Writer_Write
      (colNames t # map (\<lambda>v. map (\<lambda>f. the (encodeCol f (get_field (sf_Name f) v))) t) vs @ bad # rest))) = Some (Some vs)"
  using read_written [OF assms(2-7)] unmarshal_rows_fits [OF assms(1,6), of pf "map header t" "bad # rest"] assms(8)
  by (simp add: Unmarshal_def)

text \<open>A type with a number and a text, and one with a \<open>bool\<close> without texts of its own.\<close>

definition plain_col :: "string \<Rightarrow> kind \<Rightarrow> string \<Rightarrow> struct_field" where
  "plain_col name k tag = \<lparr>sf_Name = name, sf_Type = k, sf_csv = tag, sf_true = '''', sf_false = '''', sf_exported = True,
     sf_unmarshal = None, sf_marshal = None, sf_other = ORest\<rparr>"

definition sample_type :: "struct_field list" where
  "sample_type = [plain_col ''Id'' KUint32 ''id'', plain_col ''Name'' KString '''']"

definition sample_row :: gobject where
  "sample_row = [(''Id'', GUint32 7), (''Name'', GStr ''a,b'')]"

lemma sample_fits: "fits sample_type sample_row" "distinct (map sf_Name sample_type)" "distinct (map header sample_type)"
  "list_all csv_text (map header sample_type)" "2 \<le> length sample_type"
proof -
  have a: "csv_text ''a,b''" "csv_text ''id''" "csv_text ''Name''" by (rule csv_text_ascii, auto)+
  then show "fits sample_type sample_row" "distinct (map sf_Name sample_type)" "distinct (map header sample_type)"
    "list_all csv_text (map header sample_type)" "2 \<le> length sample_type"
    by (simp_all add: fits_def sample_type_def sample_row_def plain_col_def keeps_def get_field_def header_def)
qed

lemma Marshal_Unmarshal_witness: "\<exists>doc. Marshal sample_type [sample_row] = Some doc \<and> Unmarshal (\<lambda>_ _. None) sample_type doc = Some (Some [sample_row])"
  using sample_fits by (intro Marshal_Unmarshal) simp_all

lemma Unmarshal_stops_silently_witness:
  "Unmarshal (\<lambda>_ _. None) sample_type (concat (map Writer_Write [[''id'', ''Name''], [fmt_nat 7, ''a,b''], [''x'', ''y''], [''8'', ''z'']])) =
     Some (Some [sample_row])"
proof -
  have "csv_text ''x''" "csv_text ''y''" "csv_text ''8''" "csv_text ''z''" by (rule csv_text_ascii, auto)+
  moreover have "set_row (\<lambda>_ _. None) (enumerate 0 sample_type) (map header sample_type, [''x'', ''y'']) (zero_struct sample_type) = Some None"
    by (simp add: sample_type_def plain_col_def run_decoder_def Row_At_def go_nth_def decode_cell_def ParseUint_def is_digit_def zero_struct_def)
  ultimately have "Unmarshal (\<lambda>_ _. None) sample_type (concat (map Writer_Write (colNames sample_type #
      map (\<lambda>v. map (\<lambda>f. the (encodeCol f (get_field (sf_Name f) v))) sample_type) [sample_row] @ [''x'', ''y''] # [[''8'', ''z'']]))) = Some (Some [sample_row])"
    using sample_fits by (intro Unmarshal_stops_silently) (simp_all add: sample_type_def)
  then show ?thesis
    by (simp add: colNames_def sample_type_def plain_col_def fieldHeaderName_def sample_row_def get_field_def encodeCol_def)
qed

end
