(* ===== verification/CsvTables.thy ===== *)
theory CsvTables
  imports CsvCodec AlgoHu
begin

text \<open>
  The tables of \<^verbatim>\<open>src/csv\<close>, read once from the files under \<^verbatim>\<open>bin/csv\<close>: for each file the struct type with its tags, the
  loading and the getters.  A table is the list of its rows and the rows by their key.  \<open>None\<close> is the panic of \<open>init\<close>; a
  getter that returns the address of a missing entry of a map gives a zero struct.
\<close>

section \<open>Loading\<close>

type_synonym parse_float = "nat \<Rightarrow> string \<Rightarrow> string option"
type_synonym 'k table = "gobject list \<times> ('k \<rightharpoonup> gobject)"

definition u32_of :: "string \<Rightarrow> gobject \<Rightarrow> u32" where
  "u32_of n v = (case get_field n v of GUint32 x \<Rightarrow> x | _ \<Rightarrow> 0)"

definition load_table :: "parse_float \<Rightarrow> struct_field list \<Rightarrow> string \<Rightarrow> gobject list option" where
  "load_table pf t doc = (case Unmarshal pf t doc of Some (Some l) \<Rightarrow> Some l | _ \<Rightarrow> None)"

definition by_key :: "(gobject \<Rightarrow> 'k) \<Rightarrow> gobject list \<Rightarrow> 'k \<rightharpoonup> gobject" where
  "by_key key l = foldl (\<lambda>m v. m(key v \<mapsto> v)) Map.empty l"

definition init_table :: "parse_float \<Rightarrow> struct_field list \<Rightarrow> (gobject \<Rightarrow> 'k) \<Rightarrow> string \<Rightarrow> 'k table option" where
  "init_table pf t key doc = map_option (\<lambda>l. (l, by_key key l)) (load_table pf t doc)"

section \<open>The tables\<close>

definition AccData :: "struct_field list" where
  "AccData =
    [plain_col ''Id'' KUint32 ''id'', plain_col ''Accday'' KUint32 ''accday'', plain_col ''Rewards'' KUint32 ''rewards'']"

definition init_AccData :: "parse_float \<Rightarrow> string \<Rightarrow> u32 table option" where
  "init_AccData pf doc = init_table pf AccData (u32_of ''Id'') doc"

definition GetAcc :: "u32 table \<Rightarrow> u32 \<Rightarrow> gobject" where
  "GetAcc T i = (case snd T i of Some v \<Rightarrow> v | None \<Rightarrow> zero_struct AccData)"

definition ActivityData :: "struct_field list" where
  "ActivityData =
    [plain_col ''Id'' KUint32 ''id'', plain_col ''Type'' KUint32 ''sequence'', plain_col ''Count'' KUint32 ''stage'',
     plain_col ''Rewards'' KUint32 ''rewards'', plain_col ''Starttime'' KUint32 ''starttime'', plain_col ''Endtime'' KUint32 ''endtime'']"

definition init_ActivityData :: "parse_float \<Rightarrow> string \<Rightarrow> u32 table option" where
  "init_ActivityData pf doc = init_table pf ActivityData (u32_of ''Id'') doc"

definition GetActivityData :: "u32 table \<Rightarrow> gobject list" where
  "GetActivityData T = fst T"

definition GetActivity :: "u32 table \<Rightarrow> u32 \<Rightarrow> gobject" where
  "GetActivity T i = (case snd T i of Some v \<Rightarrow> v | None \<Rightarrow> zero_struct ActivityData)"

definition CsvBankrupt :: "struct_field list" where
  "CsvBankrupt =
    [plain_col ''Id'' KUint32 ''id'', plain_col ''Coin'' KUint32 ''coin'', plain_col ''Condition'' KUint32 ''condition'']"

definition init_CsvBankrupt :: "parse_float \<Rightarrow> string \<Rightarrow> u32 table option" where
  "init_CsvBankrupt pf doc = init_table pf CsvBankrupt (u32_of ''Id'') doc"

definition GetBankruptListLen :: "u32 table \<Rightarrow> nat" where
  "GetBankruptListLen T = length (fst T)"

definition GetBankrupt :: "u32 table \<Rightarrow> u32 \<Rightarrow> gobject" where
  "GetBankrupt T i = (case snd T i of Some v \<Rightarrow> v | None \<Rightarrow> zero_struct CsvBankrupt)"

definition ConData :: "struct_field list" where
  "ConData =
    [plain_col ''Id'' KUint32 ''id'', plain_col ''Notstopday'' KUint32 ''notstopday'', plain_col ''Rewards'' KUint32 ''rewards'']"

definition init_ConData :: "parse_float \<Rightarrow> string \<Rightarrow> u32 table option" where
  "init_ConData pf doc = init_table pf ConData (u32_of ''Id'') doc"

definition GetCon :: "u32 table \<Rightarrow> u32 \<Rightarrow> gobject" where
  "GetCon T i = (case snd T i of Some v \<Rightarrow> v | None \<Rightarrow> zero_struct ConData)"

definition ExpData :: "struct_field list" where
  "ExpData =
    [plain_col ''Id'' KUint32 ''id'', plain_col ''Exp'' KUint32 ''exp'']"

definition init_ExpData :: "parse_float \<Rightarrow> string \<Rightarrow> u32 table option" where
  "init_ExpData pf doc = init_table pf ExpData (u32_of ''Id'') doc"

definition GetExp :: "u32 table \<Rightarrow> u32 \<Rightarrow> gobject option" where
  "GetExp T i = snd T i"

definition ExpOutputData :: "struct_field list" where
  "ExpOutputData =
    [plain_col ''Id'' KUint32 ''id'', plain_col ''AddExp'' KUint32 ''addexp'']"

definition init_ExpOutputData :: "parse_float \<Rightarrow> string \<Rightarrow> u32 table option" where
  "init_ExpOutputData pf doc = init_table pf ExpOutputData (u32_of ''Id'') doc"

text \<open>The experience for a winning hand: the most valuable kind that is set decides.\<close>

definition exp_key :: "u32 \<Rightarrow> u32" where
  "exp_key huType =
     (if huType AND HU_ONE_SUIT_LONG_SEVEN_PAIR > 0 then 8
      else if huType AND HU_LONG_SEVEN_PAIR > 0 then 7
      else if huType AND HU_ONE_SUIT_SEVEN_PAIR > 0 then 6
      else if huType AND HU_ONE_SUIT_BIG_PAIR > 0 then 5
      else if huType AND HU_ALL_OF_ONE > 0 then 4
      else if huType AND HU_SEVEN_PAIR > 0 then 3
      else if huType AND HU_BIG_PAIR > 0 then 2
      else if huType AND PING_HU > 0 then 1
      else 0)"

definition OutputExp :: "u32 table \<Rightarrow> u32 \<Rightarrow> u32" where
  "OutputExp T huType = (case snd T (exp_key huType) of Some v \<Rightarrow> u32_of ''AddExp'' v | None \<Rightarrow> 0)"

definition CsvMatch :: "struct_field list" where
  "CsvMatch =
    [plain_col ''Kind'' KUint32 ''kind'', plain_col ''Level'' KUint32 ''level'', plain_col ''Playercount'' KUint32 ''playercount'',
     plain_col ''Consume'' KUint32 ''consume'', plain_col ''Roomtype'' KUint32 ''roomtype'', plain_col ''Cost'' KUint32 ''cost'',
     plain_col ''Plan'' KUint32 ''plan'', plain_col ''Starttime'' KString ''starttime'', plain_col ''Endtime'' KString ''endtime'',
     plain_col ''Weekystart'' KUint32 ''weekystart'', plain_col ''Weekyend'' KUint32 ''weekyend'', plain_col ''Dailystart'' KUint32 ''dailystart'',
     plain_col ''Dailyend'' KUint32 ''dailyend'', plain_col ''Championnumbers'' KUint32 ''championnumbers'', plain_col ''ChampionAward'' KUint32 ''championAward'',
     plain_col ''Runnernumber'' KUint32 ''runnernumber'', plain_col ''RunnerAward'' KUint32 ''runnerAward'', plain_col ''Thirdnumber'' KUint32 ''thirdnumber'',
     plain_col ''Thirdaward'' KUint32 ''thirdaward'', plain_col ''Gametimes'' KUint32 ''gametimes'', plain_col ''Matchtimes'' KUint32 ''matchtimes'',
     plain_col ''Dieout'' KUint32 ''dieout'', plain_col ''Status'' KUint32 ''status'']"

definition init_CsvMatch :: "parse_float \<Rightarrow> string \<Rightarrow> u32 table option" where
  "init_CsvMatch pf doc = init_table pf CsvMatch (u32_of ''Kind'') doc"

definition GetMatchMap :: "u32 table \<Rightarrow> u32 \<rightharpoonup> gobject" where
  "GetMatchMap T = snd T"

definition GetMatchRoom :: "u32 table \<Rightarrow> u32 \<Rightarrow> gobject" where
  "GetMatchRoom T i = (case snd T i of Some v \<Rightarrow> v | None \<Rightarrow> zero_struct CsvMatch)"

definition CsvRankRewards :: "struct_field list" where
  "CsvRankRewards =
    [plain_col ''Id'' KUint32 ''id'', plain_col ''Kind'' KUint32 ''kind'', plain_col ''Rank'' KUint32 ''rank'',
     plain_col ''Rewards'' KUint32 ''rewards'']"

definition rank_key :: "u32 \<Rightarrow> u32 \<Rightarrow> string" where
  "rank_key kind rank = fmt_nat (unat kind) @ fmt_nat (unat rank)"

definition init_CsvRankRewards :: "parse_float \<Rightarrow> string \<Rightarrow> string table option" where
  "init_CsvRankRewards pf doc = init_table pf CsvRankRewards (\<lambda>v. rank_key (u32_of ''Kind'' v) (u32_of ''Rank'' v)) doc"

definition GetRankRewards :: "string table \<Rightarrow> u32 \<Rightarrow> u32 \<Rightarrow> gobject option" where
  "GetRankRewards T kind rank = snd T (rank_key kind rank)"

definition RewardsData :: "struct_field list" where
  "RewardsData =
    [plain_col ''Typeid'' KUint32 ''typeid'', plain_col ''Widgetid'' KUint32 ''widgetid'', plain_col ''Num'' KUint32 ''num'']"

definition group_rewards :: "gobject list \<Rightarrow> u32 \<rightharpoonup> gobject list" where
  "group_rewards l = foldl (\<lambda>m v. m(u32_of ''Typeid'' v \<mapsto> (case m (u32_of ''Typeid'' v) of None \<Rightarrow> [] | Some list \<Rightarrow> list) @ [v])) Map.empty l"

definition init_RewardsData :: "parse_float \<Rightarrow> string \<Rightarrow> (u32 \<rightharpoonup> gobject list) option" where
  "init_RewardsData pf doc = map_option group_rewards (load_table pf RewardsData doc)"

definition GetRewards :: "(u32 \<rightharpoonup> gobject list) \<Rightarrow> u32 \<Rightarrow> gobject list" where
  "GetRewards m i = (case m i of Some l \<Rightarrow> l | None \<Rightarrow> [])"

definition CsvRoom :: "struct_field list" where
  "CsvRoom =
    [plain_col ''Rtype'' KUint32 ''rtype'', plain_col ''Ante'' KUint32 ''ante'', plain_col ''Level'' KUint32 ''level'',
     plain_col ''Kind'' KUint32 ''kind'', plain_col ''Time'' KUint32 ''time'', plain_col ''Number'' KUint32 ''number'',
     plain_col ''Percent'' KUint32 ''percent'', plain_col ''Access'' KUint32 ''access'', plain_col ''Accessupper'' KUint32 ''accessupper '',
     plain_col ''Maxcount'' KUint32 ''maxcount'', plain_col ''Costone'' KUint32 ''costone'', plain_col ''Costonecount'' KUint32 ''costonecount'',
     plain_col ''Costtwo'' KUint32 ''costtwo'', plain_col ''Costtwocount'' KUint32 ''costtwocount'', plain_col ''Seniority'' KUint32 ''seniority'']"

definition init_CsvRoom :: "parse_float \<Rightarrow> string \<Rightarrow> u32 table option" where
  "init_CsvRoom pf doc = init_table pf CsvRoom (u32_of ''Rtype'') doc"

definition GetRoomList :: "u32 table \<Rightarrow> gobject list" where
  "GetRoomList T = fst T"

definition GetRoom :: "u32 table \<Rightarrow> u32 \<Rightarrow> gobject option" where
  "GetRoom T i = snd T i"

definition ShopData :: "struct_field list" where
  "ShopData =
    [plain_col ''Id'' KUint32 ''id'', plain_col ''PropId'' KUint32 ''propid'', plain_col ''Number'' KUint32 ''number'',
     plain_col ''Paymenttype'' KUint32 ''paymenttype'', plain_col ''Price'' KUint32 ''price'']"

definition init_ShopData :: "parse_float \<Rightarrow> string \<Rightarrow> u32 table option" where
  "init_ShopData pf doc = init_table pf ShopData (u32_of ''Id'') doc"

definition GetShop :: "u32 table \<Rightarrow> u32 \<Rightarrow> gobject" where
  "GetShop T i = (case snd T i of Some v \<Rightarrow> v | None \<Rightarrow> zero_struct ShopData)"

definition DataSocial :: "struct_field list" where
  "DataSocial =
    [plain_col ''Typeid'' KUint32 ''typeid'', plain_col ''Maxcount'' KUint32 ''maxcount'', plain_col ''Cost'' KUint32 ''cost'',
     plain_col ''Costcount'' KUint32 ''costcount'', plain_col ''Seniority'' KUint32 ''seniority '']"

definition init_DataSocial :: "parse_float \<Rightarrow> string \<Rightarrow> u32 table option" where
  "init_DataSocial pf doc = init_table pf DataSocial (u32_of ''Typeid'') doc"

definition GetSocialList :: "u32 table \<Rightarrow> gobject list" where
  "GetSocialList T = fst T"

definition GetSocial :: "u32 table \<Rightarrow> u32 \<Rightarrow> gobject" where
  "GetSocial T i = (case snd T i of Some v \<Rightarrow> v | None \<Rightarrow> zero_struct DataSocial)"

definition TaskData :: "struct_field list" where
  "TaskData =
    [plain_col ''Id'' KUint32 ''id'', plain_col ''Kind'' KUint32 ''kind'', plain_col ''Count'' KUint32 ''count'',
     plain_col ''Type'' KUint32 ''type'', plain_col ''Next'' KUint32 ''next'', plain_col ''Rewards'' KUint32 ''rewards'',
     plain_col ''Status'' KUint32 ''status'']"

definition init_TaskData :: "parse_float \<Rightarrow> string \<Rightarrow> u32 table option" where
  "init_TaskData pf doc = init_table pf TaskData (u32_of ''Id'') doc"

definition GetTaskData :: "u32 table \<Rightarrow> gobject list" where
  "GetTaskData T = fst T"

definition GetTask :: "u32 table \<Rightarrow> u32 \<Rightarrow> gobject option" where
  "GetTask T i = snd T i"

definition TradeData :: "struct_field list" where
  "TradeData =
    [plain_col ''Id'' KUint32 ''id'', plain_col ''PropId'' KUint32 ''propid'', plain_col ''Number'' KUint32 ''number'',
     plain_col ''Total'' KUint32 ''total'', plain_col ''Value'' KUint32 ''value'', plain_col ''Class'' KUint32 ''class'']"

definition init_TradeData :: "parse_float \<Rightarrow> string \<Rightarrow> u32 table option" where
  "init_TradeData pf doc = init_table pf TradeData (u32_of ''Id'') doc"

definition GetTradeData :: "u32 table \<Rightarrow> gobject list" where
  "GetTradeData T = fst T"

definition GetTrade :: "u32 table \<Rightarrow> u32 \<Rightarrow> gobject option" where
  "GetTrade T i = snd T i"

definition VipData :: "struct_field list" where
  "VipData =
    [plain_col ''ID'' KUint32 ''id'', plain_col ''Viptype'' KUint32 ''viptype'', plain_col ''Clubmax'' KUint32 ''clubmax'',
     plain_col ''Deskmax'' KUint32 ''deskmax'', plain_col ''Bankruptmax'' KUint32 ''bankruptmax'', plain_col ''Bankruptcoin'' KUint32 ''bankruptcoin'',
     plain_col ''Sign'' KUint32 ''sign'', plain_col ''Expire'' KUint32 ''expire'']"

definition init_VipData :: "parse_float \<Rightarrow> string \<Rightarrow> u32 table option" where
  "init_VipData pf doc = init_table pf VipData (u32_of ''ID'') doc"

definition GetVip :: "u32 table \<Rightarrow> u32 \<Rightarrow> gobject option" where
  "GetVip T i = snd T i"

definition CsvWidget :: "struct_field list" where
  "CsvWidget =
    [plain_col ''Widgetid'' KUint32 ''widgetid'', plain_col ''Kind'' KUint32 ''kind'']"

definition init_CsvWidget :: "parse_float \<Rightarrow> string \<Rightarrow> u32 table option" where
  "init_CsvWidget pf doc = init_table pf CsvWidget (u32_of ''Widgetid'') doc"

definition ExistWidget :: "u32 table \<Rightarrow> u32 \<Rightarrow> bool" where
  "ExistWidget T i \<longleftrightarrow> snd T i \<noteq> None"

section \<open>Lookups\<close>

lemma by_key_upd: "foldl (\<lambda>m v. m(key v \<mapsto> v)) m l k = (case filter (\<lambda>v. key v = k) l of [] \<Rightarrow> m k | vs \<Rightarrow> Some (last vs))"
proof (induction l arbitrary: m)
  case (Cons v l)
  then show ?case by (auto split: list.splits)
qed simp

text \<open>The last row with a key is the one that is found.\<close>

lemma by_key_last: "by_key key l k = (if filter (\<lambda>v. key v = k) l = [] then None else Some (last (filter (\<lambda>v. key v = k) l)))"
  unfolding by_key_def by_key_upd by (auto split: list.splits)

lemma by_key_distinct: "distinct (map key l) \<Longrightarrow> v \<in> set l \<Longrightarrow> by_key key l (key v) = Some v"
proof -
  assume d: "distinct (map key l)" and v: "v \<in> set l"
  have "filter (\<lambda>u. key u = key v) l = [v]" using d v by (induction l) (auto simp: filter_empty_conv intro: rev_image_eqI)
  then show ?thesis by (simp add: by_key_last)
qed

text \<open>The rewards of a type are all its rows, in the order of the file.\<close>

lemma GetRewards_rows: "GetRewards (group_rewards l) i = filter (\<lambda>v. u32_of ''Typeid'' v = i) l"
proof -
  have "GetRewards (foldl (\<lambda>m v. m(u32_of ''Typeid'' v \<mapsto> (case m (u32_of ''Typeid'' v) of None \<Rightarrow> [] | Some list \<Rightarrow> list) @ [v])) m l) i =
      GetRewards m i @ filter (\<lambda>v. u32_of ''Typeid'' v = i) l" for m
    by (induction l arbitrary: m) (auto simp: GetRewards_def)
  from this [of Map.empty] show ?thesis by (simp add: group_rewards_def GetRewards_def)
qed

text \<open>
  The key of a reward by rank joins two numbers without a separator.  With ranks of one digit it determines both; with
  longer ranks it does not.
\<close>

lemma unat_digit: "r < 10 \<Longrightarrow> fmt_nat (unat r) = [digit_char (unat r)]" for r :: u32
  by (simp add: word_less_nat_alt)

lemma rank_key_digit:
  assumes "rank_key k r = rank_key k' r'" and "r < 10" and "r' < 10"
  shows "k = k' \<and> r = r'"
proof -
  from assms have eq: "fmt_nat (unat k) = fmt_nat (unat k')" "digit_char (unat r) = digit_char (unat r')"
    by (simp_all add: rank_key_def unat_digit)
  have n: "unat x < 2 ^ 32" for x :: u32 using unsigned_less [of x, where ?'a = nat] by simp
  have "(unat k, True) = (unat k', True)" using ParseUint_fmt [OF n [of k]] ParseUint_fmt [OF n [of k']] eq(1) by metis
  then have "unat k = unat k'" by simp
  moreover have "unat r = unat r'" using arg_cong [OF eq(2), of digit_val] assms(2,3) by (simp add: word_less_nat_alt)
  ultimately show ?thesis by (simp only: word_unat_eq_iff simp_thms)
qed

lemma rank_keys_collide: "rank_key 1 11 = rank_key 11 1"
  by (simp add: rank_key_def fmt_nat_large)

lemma GetRankRewards_exact:
  assumes "\<And>v. v \<in> set l \<Longrightarrow> u32_of ''Rank'' v < 10" and "rank < 10"
  shows "GetRankRewards (l, by_key (\<lambda>v. rank_key (u32_of ''Kind'' v) (u32_of ''Rank'' v)) l) kind rank =
    (case filter (\<lambda>v. u32_of ''Kind'' v = kind \<and> u32_of ''Rank'' v = rank) l of [] \<Rightarrow> None | vs \<Rightarrow> Some (last vs))"
proof -
  have "filter (\<lambda>v. rank_key (u32_of ''Kind'' v) (u32_of ''Rank'' v) = rank_key kind rank) l =
      filter (\<lambda>v. u32_of ''Kind'' v = kind \<and> u32_of ''Rank'' v = rank) l"
    using assms rank_key_digit by (intro filter_cong) (auto dest!: rank_key_digit)
  then show ?thesis by (auto simp: GetRankRewards_def by_key_last split: list.splits)
qed

section \<open>Columns that are never read\<close>

text \<open>A field whose header is no column of the file keeps its zero value in every row.\<close>

lemma get_put_field: "get_field n (put_field m v el) = (if n = m \<and> n \<in> fst ` set el then v else get_field n el)"
proof -
  have "map_of (map (\<lambda>(a, w). (a, if a = m then v else w)) el) n = (if n = m \<and> n \<in> fst ` set el then Some v else map_of el n)"
    by (induction el) (auto simp: rev_image_eqI)
  then show ?thesis by (cases "n = m \<and> n \<in> fst ` set el") (auto simp: get_field_def put_field_def)
qed

lemma set_row_unread:
  assumes "\<And>i f. (i, f) \<in> set cfs \<Longrightarrow> sf_Name f \<noteq> n" and "set_row pf cfs row el = Some (Some v)"
  shows "get_field n v = get_field n el"
  using assms
proof (induction cfs arbitrary: el)
  case (Cons cf cfs)
  obtain i f where cf: "cf = (i, f)" by (cases cf)
  from Cons.prems(2) obtain x where "set_row pf cfs row (put_field (sf_Name f) x el) = Some (Some v)"
    by (auto simp: cf split: Option.bind_splits option.splits)
  then have "get_field n v = get_field n (put_field (sf_Name f) x el)" using Cons.prems(1) by (intro Cons.IH) auto
  moreover have "sf_Name f \<noteq> n" using Cons.prems(1) [of i f] cf by simp
  ultimately show ?case by (simp add: get_put_field)
qed simp

lemma unmarshal_rows_unread:
  assumes "\<And>i f. (i, f) \<in> set cfs \<Longrightarrow> sf_Name f \<noteq> n" and "unmarshal_rows pf t cfs cols raws = Some l" and "v \<in> set l"
  shows "get_field n v = get_field n (zero_struct t)"
  using assms(2,3)
proof (induction raws arbitrary: l)
  case (Cons raw raws)
  then show ?case using set_row_unread [OF assms(1)] by (fastforce split: Option.bind_splits option.splits)
qed simp

lemma mapFieldsToCols_member:
  "(i, f) \<in> set (mapFieldsToCols t cols) \<Longrightarrow> f \<in> set t \<and> (\<exists>h. fieldHeaderName f = Some h \<and> h \<in> set cols)"
proof -
  assume "(i, f) \<in> set (mapFieldsToCols t cols)"
  then obtain h where "f \<in> set t" "fieldHeaderName f = Some h" "cMap cols 0 h = Some i"
    by (auto simp: mapFieldsToCols_def exportedFields_def split: option.splits) metis
  moreover from this have "h \<in> set cols" using cMap_dom [of cols 0] by blast
  ultimately show ?thesis by blast
qed

text \<open>The fields without a column.\<close>

definition unread :: "struct_field list \<Rightarrow> string list \<Rightarrow> string list" where
  "unread t cols = map sf_Name (filter (\<lambda>f. header f \<notin> set cols) t)"

lemma unread_zero:
  assumes "distinct (map sf_Name t)" and "n \<in> set (unread t cols)" and "read_document doc = Some (cols, raws)"
    and "Unmarshal pf t doc = Some (Some l)" and "v \<in> set l"
  shows "get_field n v = get_field n (zero_struct t)"
proof -
  from assms(2) obtain f where f: "f \<in> set t" "header f \<notin> set cols" "n = sf_Name f" by (auto simp: unread_def)
  have "sf_Name g \<noteq> n" if "(i, g) \<in> set (mapFieldsToCols t cols)" for i g
  proof
    assume "sf_Name g = n"
    moreover from mapFieldsToCols_member [OF that] obtain h where g: "g \<in> set t" "fieldHeaderName g = Some h" "h \<in> set cols" by auto
    ultimately have "g = f" using f(1,3) assms(1) by (auto simp: distinct_map inj_on_def)
    then show False using f(2) g by (auto simp: fieldHeaderName_def header_def split: if_splits)
  qed
  then show ?thesis using assms(3-5) by (auto simp: Unmarshal_def intro: unmarshal_rows_unread)
qed

text \<open>
  The headers of five files under \<^verbatim>\<open>bin/csv\<close> as they are shipped, and the fields of their types that have no column: a tag
  or a header with a blank at its end, a misspelt header, a missing column.
\<close>

definition activity_cols :: "string list" where
  "activity_cols = [''id'', ''sequence'', ''stage'', ''reward'', ''starttime'', ''endtime'', of_runes [0xFFFD, 0xFFFD, 0x5E2]]"

definition match_cols :: "string list" where
  "match_cols = [''kind'', ''level'', ''playercount'', ''roomtype'', ''consume'', ''cost'', ''plan'', ''starttime'', ''endtime'',
     ''weekystartweekyend'', ''weekyend'', ''dailystart'', ''dailyend'', ''championnumbers'', ''championAward'', ''runnernumber'',
     ''runnerAward'', ''thirdnumber'', ''thirdaward'', ''championnumber'', ''championAward'', ''lauranumber'', ''lauraaward'',
     ''dieout'', ''gametimes'', ''matchtimes'', ''status'']"

definition room_cols :: "string list" where
  "room_cols = [''rtype'', ''ante'', ''level'', ''kind'', ''time'', ''number '', ''percent'', ''access'', ''accessupper'', ''maxcount'',
     ''costone'', ''costonecount'', ''costtwo'', ''costtwocount'', ''seniority'']"

definition social_cols :: "string list" where
  "social_cols = [''typeid'', ''maxcount'', ''cost'', ''costcount'', ''seniority'']"

definition trade_cols :: "string list" where
  "trade_cols = [''id'', ''propid'', ''number'', ''total'', ''value'']"

definition shipped :: "(struct_field list \<times> string list \<times> string list) list" where
  "shipped = [(ActivityData, activity_cols, [''Rewards'']), (CsvMatch, match_cols, [''Weekystart'']),
     (CsvRoom, room_cols, [''Number'', ''Accessupper'']), (DataSocial, social_cols, [''Seniority'']), (TradeData, trade_cols, [''Class''])]"

lemmas type_defs = ActivityData_def CsvMatch_def CsvRoom_def DataSocial_def TradeData_def plain_col_def
lemmas cols_defs = activity_cols_def match_cols_def room_cols_def social_cols_def trade_cols_def

lemma unread_shipped:
  "unread ActivityData activity_cols = [''Rewards'']" "unread CsvMatch match_cols = [''Weekystart'']"
  "unread CsvRoom room_cols = [''Number'', ''Accessupper'']" "unread DataSocial social_cols = [''Seniority'']"
  "unread TradeData trade_cols = [''Class'']"
proof -
  have "of_runes [0xFFFD, 0xFFFD, 0x5E2] \<noteq> ''rewards''"
    by (simp add: of_runes_def of_bytes_def encode_rune_def scalar_def char_of_def)
  then show "unread ActivityData activity_cols = [''Rewards'']"
    by (simp add: unread_def header_def type_defs cols_defs)
qed (simp_all add: unread_def header_def type_defs cols_defs)

lemma shipped_types:
  assumes "(t, cols, names) \<in> set shipped" and "n \<in> set names"
  shows "distinct (map sf_Name t) \<and> n \<in> set (unread t cols) \<and> get_field n (zero_struct t) = GUint32 0"
proof -
  have names: "unread t cols = names" using assms(1) unread_shipped by (auto simp: shipped_def)
  have "distinct (map sf_Name t)" using assms(1) by (auto simp: shipped_def type_defs)
  moreover have "get_field n (zero_struct t) = GUint32 0"
    using assms by (auto simp: shipped_def type_defs zero_struct_def get_field_def zero_val_def)
  ultimately show ?thesis using names assms(2) by simp
qed

text \<open>
  C26.  Six fields of the shipped tables are never read: whatever rows a file with the shipped header has, after loading
  the reward of an activity, the first day of a match, the number of players and the upper limit of a room, the seniority
  of a social level and the class of a trade are 0 in every row, because no column has the name of their tag.
\<close>

theorem shipped_columns_unread:
  assumes "(t, cols, names) \<in> set shipped" and "n \<in> set names" and "read_document doc = Some (cols, raws)"
    and "load_table pf t doc = Some l" and "v \<in> set l"
  shows "get_field n v = GUint32 0"
proof -
  have "Unmarshal pf t doc = Some (Some l)" using assms(4) by (auto simp: load_table_def split: option.splits)
  then show ?thesis using shipped_types [OF assms(1,2)] unread_zero [OF _ _ assms(3) _ assms(5)] by metis
qed

definition social_doc :: string where
  "social_doc = concat (map Writer_Write [social_cols, [''1'', ''6'', ''1'', ''5'', ''9'']])"

lemma shipped_columns_unread_witness:
  "\<exists>v. load_table (\<lambda>_ _. None) DataSocial social_doc = Some [v] \<and> get_field ''Seniority'' v = GUint32 0"
proof -
  have "list_all (list_all csv_text) [social_cols, [''1'', ''6'', ''1'', ''5'', ''9'']]"
    unfolding social_cols_def by (simp, intro conjI) (rule csv_text_ascii, auto)+
  then have read: "read_document social_doc = Some (social_cols, [[''1'', ''6'', ''1'', ''5'', ''9'']])"
    unfolding social_doc_def by (rule document_read_back) (simp_all add: social_cols_def)
  have digit: "ParseUint 32 [c] = (digit_val c, True)" if "is_digit c" for c
    using that by (simp add: ParseUint_def is_digit_def digit_val_def Let_def) linarith
  have "\<exists>v. load_table (\<lambda>_ _. None) DataSocial social_doc = Some [v]"
    using read by (simp add: load_table_def Unmarshal_def social_cols_def mapFieldsToCols_def exportedFields_def DataSocial_def plain_col_def
        fieldHeaderName_def map_add_def run_decoder_def Row_At_def go_nth_def decode_cell_def digit is_digit_def zero_struct_def)
  then obtain v where v: "load_table (\<lambda>_ _. None) DataSocial social_doc = Some [v]" by blast
  have "get_field ''Seniority'' v = GUint32 0"
    by (rule shipped_columns_unread [OF _ _ read v, of "[''Seniority'']"]) (simp_all add: shipped_def)
  then show ?thesis using v by blast
qed

end
