(* ===== verification/ToConvert.thy ===== *)
theory ToConvert
  imports Client Utf8 "HOL-Library.Code_Target_Nat"
begin

text \<open>
  The conversions of \<^verbatim>\<open>src/basic/ssdb/to/to.go\<close> to durations, times, floats and to a kind given at run time
  (\<open>Duration\<close>, \<open>Time\<close>, \<open>Float64\<close>, \<open>Convert\<close>).  A duration is an \<open>int64\<close> of nanoseconds, a word of 64 bits.
  Arithmetic on floats, the order in which a map is walked and the parsing of times with the zone of the host are
  parameters.  So is what the runtime says of the type of a value that has no constructor of its own, such as a named type.
\<close>

section \<open>Durations in the notation of Go\<close>

definition Second :: nat where "Second = 1000000000"
definition Minute :: nat where "Minute = 60 * Second"
definition Hour :: nat where "Hour = 60 * Minute"

definition unitMap :: "string \<rightharpoonup> nat" where
  "unitMap = map_of [(''ns'', 1), (''us'', 1000), (of_runes [0xB5, 0x73], 1000), (of_runes [0x3BC, 0x73], 1000),
     (''ms'', 1000000), (''s'', Second), (''m'', Minute), (''h'', Hour)]"

fun leadingInt :: "nat \<Rightarrow> string \<Rightarrow> (nat \<times> string) option" where
  "leadingInt x [] = Some (x, [])"
| "leadingInt x (c # s) =
     (if is_digit c then
        (let y = x * 10 + digit_val c in
         if x > (2 ^ 63 - 1) div 10 \<or> y \<ge> 2 ^ 63 then None else leadingInt y s)
      else Some (x, c # s))"

text \<open>
  One number with its unit, and the text after it.  \<open>fraction\<close> is the value of the digits after the point in nanoseconds,
  computed in floating point.
\<close>

definition duration_part :: "(string \<Rightarrow> nat \<Rightarrow> nat option) \<Rightarrow> string \<Rightarrow> (nat \<times> string) option" where
  "duration_part fraction s =
     (if s = [] \<or> \<not> (hd s = CHR ''.'' \<or> is_digit (hd s)) then None
      else case leadingInt 0 s of
        None \<Rightarrow> None
      | Some (v, r) \<Rightarrow>
          (let pre = (length r \<noteq> length s);
               point = (r \<noteq> [] \<and> hd r = CHR ''.'');
               fs = (if point then takeWhile is_digit (tl r) else []);
               r = (if point then dropWhile is_digit (tl r) else r);
               u = takeWhile (\<lambda>c. c \<noteq> CHR ''.'' \<and> \<not> is_digit c) r
           in if \<not> pre \<and> fs = [] then None
              else case unitMap u of
                None \<Rightarrow> None
              | Some unit \<Rightarrow>
                  if v > (2 ^ 63 - 1) div unit then None
                  else case (if fs = [] then Some 0 else fraction fs unit) of
                    None \<Rightarrow> None
                  | Some f \<Rightarrow>
                      if v * unit + f \<ge> 2 ^ 63 then None
                      else Some (v * unit + f, dropWhile (\<lambda>c. c \<noteq> CHR ''.'' \<and> \<not> is_digit c) r)))"

lemma leadingInt_rest: "leadingInt x s = Some (v, r) \<Longrightarrow> length r \<le> length s"
  by (induction x s rule: leadingInt.induct) (auto simp: Let_def split: if_splits)

lemma unitMap_Nil [simp]: "unitMap [] = None"
  by (simp add: unitMap_def of_runes_def of_bytes_def encode_rune_def scalar_def)

lemma duration_part_shorter: "duration_part fr s = Some (v, r) \<Longrightarrow> length r < length s"
proof -
  assume a: "duration_part fr s = Some (v, r)"
  then obtain w q where li: "leadingInt 0 s = Some (w, q)" by (auto simp: duration_part_def split: if_splits option.splits)
  let ?P = "\<lambda>c. c \<noteq> CHR ''.'' \<and> \<not> is_digit c"
  obtain q' where q': "length q' \<le> length q" "r = dropWhile ?P q'" "unitMap (takeWhile ?P q') \<noteq> None"
  proof (cases "q \<noteq> [] \<and> hd q = CHR ''.''")
    case True
    then show ?thesis using a li length_dropWhile_le [of is_digit "tl q"]
      by (intro that [of "dropWhile is_digit (tl q)"]) (auto simp: duration_part_def Let_def split: if_splits option.splits)
  next
    case False
    then show ?thesis using a li
      by (intro that [of q]) (auto simp: duration_part_def Let_def split: if_splits option.splits)
  qed
  then have "takeWhile ?P q' \<noteq> []" by auto
  then have "length (dropWhile ?P q') < length q'"
    by (metis append_Nil length_append length_greater_0_conv less_add_same_cancel2 takeWhile_dropWhile_id)
  then show ?thesis using q' leadingInt_rest [OF li] by simp
qed

function duration_parts :: "(string \<Rightarrow> nat \<Rightarrow> nat option) \<Rightarrow> string \<Rightarrow> nat \<Rightarrow> nat option" where
  "duration_parts fraction s d =
     (if s = [] then Some d
      else case duration_part fraction s of
        None \<Rightarrow> None
      | Some (v, r) \<Rightarrow> if d + v \<ge> 2 ^ 63 then None else duration_parts fraction r (d + v))"
  by pat_completeness auto
termination
  by (relation "measure (\<lambda>(_, s, _). length s)") (auto intro: duration_part_shorter)

declare duration_parts.simps [simp del]

definition ParseDuration :: "(string \<Rightarrow> nat \<Rightarrow> nat option) \<Rightarrow> string \<Rightarrow> u64 option" where
  "ParseDuration fraction s =
     (let neg = (s \<noteq> [] \<and> hd s = CHR ''-'');
          t = (if s \<noteq> [] \<and> (hd s = CHR ''-'' \<or> hd s = CHR ''+'') then tl s else s)
      in if t = ''0'' then Some 0
         else if t = [] then None
         else map_option (\<lambda>d. if neg then - of_nat d else of_nat d) (duration_parts fraction t 0))"

section \<open>Durations in the notation of a clock\<close>

text \<open>
  The three patterns \<open>^(\-?\d+):(\d+)$\<close>, \<open>^(\-?\d+):(\d+):(\d+)$\<close> and \<open>^(\-?\d+):(\d+):(\d+).(\d+)$\<close>, each with the texts
  of its groups.  In the last one the point is not escaped: it matches any character but a line feed, and the
  seconds give digits back until the rest matches.
\<close>

definition digits_then :: "string \<Rightarrow> (string \<times> string) option" where
  "digits_then s = (let ds = takeWhile is_digit s in if ds = [] then None else Some (ds, dropWhile is_digit s))"

definition signed_digits :: "string \<Rightarrow> (string \<times> string) option" where
  "signed_digits s =
     (if s \<noteq> [] \<and> hd s = CHR ''-'' then map_option (\<lambda>(ds, r). (CHR ''-'' # ds, r)) (digits_then (tl s)) else digits_then s)"

definition colon :: "string \<Rightarrow> string option" where
  "colon s = (if s \<noteq> [] \<and> hd s = CHR '':'' then Some (tl s) else None)"

definition all_digits :: "string \<Rightarrow> bool" where
  "all_digits s \<longleftrightarrow> s \<noteq> [] \<and> list_all is_digit s"

definition any_rune :: "string \<Rightarrow> string option" where
  "any_rune s =
     (if s = [] \<or> hd s = CHR 0x0A then None
      else Some (case utf8_first (of_char (hd s)) (go_bytes (tl s)) of Some (r, k) \<Rightarrow> drop k (tl s) | None \<Rightarrow> tl s))"

fun seconds_fraction :: "nat \<Rightarrow> string \<Rightarrow> (string \<times> string) option" where
  "seconds_fraction 0 s = None"
| "seconds_fraction (Suc n) s =
     (case any_rune (drop (Suc n) s) of
        Some r \<Rightarrow> if all_digits r then Some (take (Suc n) s, r) else seconds_fraction n s
      | None \<Rightarrow> seconds_fraction n s)"

definition match_hm :: "string \<Rightarrow> (string \<times> string) option" where
  "match_hm s = do { (h, r) \<leftarrow> signed_digits s; m \<leftarrow> colon r; (if all_digits m then Some (h, m) else None) }"

definition match_hms :: "string \<Rightarrow> (string \<times> string \<times> string) option" where
  "match_hms s = do {
     (h, r) \<leftarrow> signed_digits s; r \<leftarrow> colon r; (m, r) \<leftarrow> digits_then r; sec \<leftarrow> colon r;
     (if all_digits sec then Some (h, m, sec) else None)
   }"

definition match_hmsf :: "string \<Rightarrow> (string \<times> string \<times> string \<times> string) option" where
  "match_hmsf s = do {
     (h, r) \<leftarrow> signed_digits s; r \<leftarrow> colon r; (m, r) \<leftarrow> digits_then r; r \<leftarrow> colon r;
     (sec, lst) \<leftarrow> seconds_fraction (length (takeWhile is_digit r)) r;
     Some (h, m, sec, lst)
   }"

text \<open>\<open>Int64\<close> of a group, and the signed sum that the three functions compute.\<close>

definition group_int :: "string \<Rightarrow> u64" where
  "group_int t = word_of_int (fst (ParseInt 64 t))"

definition signed_sum :: "string \<Rightarrow> u64 \<Rightarrow> u64" where
  "signed_sum h rest =
     (let hrs = of_nat Hour * group_int h
      in if sint hrs < 0 then - 1 * (- 1 * hrs + rest) else 1 * (hrs + rest))"

definition pad9 :: "string \<Rightarrow> string" where
  "pad9 lst = take 9 (lst @ replicate (9 - length lst) (CHR ''0''))"

definition clock_match :: "nat \<Rightarrow> string \<Rightarrow> u64 option" where
  "clock_match k v =
     (if k = 0 then map_option (\<lambda>(h, m). signed_sum h (of_nat Minute * group_int m)) (match_hm v)
      else if k = 1 then
        map_option (\<lambda>(h, m, s). signed_sum h (of_nat Minute * group_int m + of_nat Second * group_int s)) (match_hms v)
      else map_option (\<lambda>(h, m, s, lst).
          signed_sum h (of_nat Minute * group_int m + of_nat Second * group_int s + group_int (pad9 lst))) (match_hmsf v))"

text \<open>The patterns are tried in the order in which the map \<open>strToDurationMatches\<close> is walked.\<close>

fun first_clock_match :: "nat list \<Rightarrow> string \<Rightarrow> u64" where
  "first_clock_match [] v = 0"
| "first_clock_match (k # ks) v = (case clock_match k v of Some d \<Rightarrow> d | None \<Rightarrow> first_clock_match ks v)"

definition strToDuration :: "(string \<Rightarrow> nat \<Rightarrow> nat option) \<Rightarrow> nat list \<Rightarrow> string \<Rightarrow> u64" where
  "strToDuration fraction order v =
     (case ParseDuration fraction v of Some d \<Rightarrow> d | None \<Rightarrow> first_clock_match order v)"

definition to_Duration :: "(string \<Rightarrow> nat \<Rightarrow> nat option) \<Rightarrow> nat list \<Rightarrow> gval \<Rightarrow> u64 option" where
  "to_Duration fraction order val = (case val of
     GInt t \<Rightarrow> Some t
   | GInt8 t \<Rightarrow> Some (scast t)
   | GInt16 t \<Rightarrow> Some (scast t)
   | GInt32 t \<Rightarrow> Some (scast t)
   | GInt64 t \<Rightarrow> Some t
   | GUint t \<Rightarrow> Some t
   | GUint8 t \<Rightarrow> Some (ucast t)
   | GUint16 t \<Rightarrow> Some (ucast t)
   | GUint32 t \<Rightarrow> Some (ucast t)
   | GUint64 t \<Rightarrow> Some t
   | _ \<Rightarrow> do { s \<leftarrow> to_String val; Some (strToDuration fraction order s) })"

section \<open>Conversion to a kind\<close>

text \<open>
  The parameters: floats (by their text) from and to integers and text and between the two widths, the value of the
  digits after a point, the order in which the patterns are walked, and \<open>time.ParseInLocation\<close> with a layout.
\<close>

record 't conv_env =
  f2i :: "string \<Rightarrow> u64"
  f2u :: "string \<Rightarrow> u64"
  int2f :: "int \<Rightarrow> string"
  parse_f :: "string \<Rightarrow> string"
  widen :: "string \<Rightarrow> string"
  narrow :: "string \<Rightarrow> string"
  fraction :: "string \<Rightarrow> nat \<Rightarrow> nat option"
  order :: "nat list"
  parse_time :: "string \<Rightarrow> string \<Rightarrow> 't option"

definition strToTimeFormats :: "string list" where
  "strToTimeFormats =
     [''2006-01-02 15:04:05 Z0700 MST'', ''2006-01-02 15:04:05 Z07:00 MST'', ''2006-01-02 15:04:05 Z0700 -0700'',
      ''Mon Jan _2 15:04:05 -0700 MST 2006'', ''02 Jan 06 15:04 -0700'', ''2006-01-02T15:04:05Z07:00'',
      ''2006-01-02 15:04:05 -0700'', ''2006-01-02 15:04:05 Z07:00'', ''Mon Jan 02 15:04:05 -0700 2006'',
      ''Mon, 02 Jan 2006 15:04:05 -0700'', ''02 Jan 06 15:04 MST'', ''2006-01-02 15:04:05 MST'',
      ''Mon Jan _2 15:04:05 MST 2006'', ''Mon, 02 Jan 2006 15:04:05 MST'', ''Monday, 02-Jan-06 15:04:05 MST'', ''3:04PM'',
      ''01/02/06'', ''2006-01-02'', ''2006/01/02'', ''01/02/2006'', ''Jan _2, 2006'', ''01/02/06 15:04'', ''Jan _2 15:04:05'',
      ''Mon Jan _2 15:04:05 2006'', ''2006-01-02 15:04'', ''2006-01-02T15:04'', ''01/02/2006 15:04'', ''01/02/06 15:04:05'',
      ''01/02/2006 15:04:05'', ''2006-01-02 15:04:05'', ''2006-01-02T15:04:05'', ''_2/Jan/2006 15:04:05'']"

text \<open>The result of the first layout that fits; \<open>None\<close> inside is the zero time.\<close>

fun try_formats :: "(string \<Rightarrow> string \<Rightarrow> 't option) \<Rightarrow> string list \<Rightarrow> string \<Rightarrow> 't option" where
  "try_formats p [] s = None"
| "try_formats p (f # fs) s = (case p f s of Some r \<Rightarrow> Some r | None \<Rightarrow> try_formats p fs s)"

definition to_Time :: "'t conv_env \<Rightarrow> gval \<Rightarrow> 't option option" where
  "to_Time E val = do { s \<leftarrow> to_String val; Some (try_formats (parse_time E) strToTimeFormats s) }"

definition to_Float64 :: "'t conv_env \<Rightarrow> gval \<Rightarrow> string option" where
  "to_Float64 E val = (case val of
     GInt t \<Rightarrow> Some (int2f E (sint t))
   | GInt8 t \<Rightarrow> Some (int2f E (sint t))
   | GInt16 t \<Rightarrow> Some (int2f E (sint t))
   | GInt32 t \<Rightarrow> Some (int2f E (sint t))
   | GInt64 t \<Rightarrow> Some (int2f E (sint t))
   | GUint t \<Rightarrow> Some (int2f E (uint t))
   | GUint8 t \<Rightarrow> Some (int2f E (uint t))
   | GUint16 t \<Rightarrow> Some (int2f E (uint t))
   | GUint32 t \<Rightarrow> Some (int2f E (uint t))
   | GUint64 t \<Rightarrow> Some (int2f E (uint t))
   | GFloat32 s \<Rightarrow> Some (widen E s)
   | GFloat64 s \<Rightarrow> Some s
   | GBool b \<Rightarrow> Some (int2f E (if b then 1 else 0))
   | _ \<Rightarrow> do { s \<leftarrow> to_String val; Some (parse_f E s) })"

datatype target = TKind kind | TInterface | KindTime | KindDuration
datatype 't converted = CVal gval | CTime "'t option" | CDuration u64
datatype conv_error = SliceIntoNonSlice | CouldNotConvert

text \<open>The kind of a value, and what kind a result has.\<close>

definition kind_of :: "gval \<Rightarrow> kind" where
  "kind_of v = (case v of
     GNil \<Rightarrow> KInvalid | GBool _ \<Rightarrow> KBool | GInt _ \<Rightarrow> KInt | GInt8 _ \<Rightarrow> KInt8 | GInt16 _ \<Rightarrow> KInt16 | GInt32 _ \<Rightarrow> KInt32 | GInt64 _ \<Rightarrow> KInt64
   | GUint _ \<Rightarrow> KUint | GUint8 _ \<Rightarrow> KUint8 | GUint16 _ \<Rightarrow> KUint16 | GUint32 _ \<Rightarrow> KUint32 | GUint64 _ \<Rightarrow> KUint64
   | GFloat32 _ \<Rightarrow> KFloat32 | GFloat64 _ \<Rightarrow> KFloat64 | GStr _ \<Rightarrow> KString | GBytes _ \<Rightarrow> KSlice | GSlice _ _ \<Rightarrow> KSlice | GOther _ _ \<Rightarrow> KOther)"

fun target_of :: "'t converted \<Rightarrow> target" where
  "target_of (CVal v) = TKind (kind_of v)"
| "target_of (CTime _) = KindTime"
| "target_of (CDuration _) = KindDuration"

text \<open>The second \<open>switch\<close> of \<open>Convert\<close>.\<close>

definition convert_kind :: "'t conv_env \<Rightarrow> gval \<Rightarrow> target \<Rightarrow> (conv_error + 't converted) option" where
  "convert_kind E value t = (case t of
     TKind KString \<Rightarrow> do { s \<leftarrow> to_String value; Some (Inr (CVal (GStr s))) }
   | TKind KUint64 \<Rightarrow> do { u \<leftarrow> to_Uint64 (f2u E) value; Some (Inr (CVal (GUint64 u))) }
   | TKind KUint32 \<Rightarrow> do { u \<leftarrow> to_Uint64 (f2u E) value; Some (Inr (CVal (GUint32 (ucast u)))) }
   | TKind KUint16 \<Rightarrow> do { u \<leftarrow> to_Uint64 (f2u E) value; Some (Inr (CVal (GUint16 (ucast u)))) }
   | TKind KUint8 \<Rightarrow> do { u \<leftarrow> to_Uint64 (f2u E) value; Some (Inr (CVal (GUint8 (ucast u)))) }
   | TKind KUint \<Rightarrow> do { u \<leftarrow> to_Uint64 (f2u E) value; Some (Inr (CVal (GUint u))) }
   | TKind KInt64 \<Rightarrow> do { i \<leftarrow> to_Int64 (f2i E) value; Some (Inr (CVal (GInt64 i))) }
   | TKind KInt32 \<Rightarrow> do { i \<leftarrow> to_Int64 (f2i E) value; Some (Inr (CVal (GInt32 (ucast i)))) }
   | TKind KInt16 \<Rightarrow> do { i \<leftarrow> to_Int64 (f2i E) value; Some (Inr (CVal (GInt16 (ucast i)))) }
   | TKind KInt8 \<Rightarrow> do { i \<leftarrow> to_Int64 (f2i E) value; Some (Inr (CVal (GInt8 (ucast i)))) }
   | TKind KInt \<Rightarrow> do { i \<leftarrow> to_Int64 (f2i E) value; Some (Inr (CVal (GInt i))) }
   | TKind KFloat64 \<Rightarrow> do { f \<leftarrow> to_Float64 E value; Some (Inr (CVal (GFloat64 f))) }
   | TKind KFloat32 \<Rightarrow> do { f \<leftarrow> to_Float64 E value; Some (Inr (CVal (GFloat32 (narrow E f)))) }
   | TKind KBool \<Rightarrow> do { b \<leftarrow> to_Bool value; Some (Inr (CVal (GBool b))) }
   | TInterface \<Rightarrow> Some (Inr (CVal value))
   | KindTime \<Rightarrow> do { x \<leftarrow> to_Time E value; Some (Inr (CTime x)) }
   | KindDuration \<Rightarrow> do { d \<leftarrow> to_Duration (fraction E) (order E) value; Some (Inr (CDuration d)) }
   | TKind _ \<Rightarrow> Some (Inl CouldNotConvert))"

text \<open>
  What \<open>reflect.TypeOf\<close> says of a value: its kind, and the kind of the elements of a slice.  For a value that is not of one
  of the types above, a named type such as \<open>type Blob []byte\<close> or \<open>type Name string\<close> included, this is not part of the value
  and comes in as \<open>T\<close>; for a slice other than \<open>[]byte\<close> only the kind of the elements does.
\<close>

record rtype =
  Kind :: kind
  Elem :: kind

definition TypeOf :: "rtype \<Rightarrow> gval \<Rightarrow> rtype" where
  "TypeOf T v = (case v of
     GOther _ _ \<Rightarrow> T
   | GSlice _ _ \<Rightarrow> \<lparr>Kind = KSlice, Elem = Elem T\<rparr>
   | GBytes _ \<Rightarrow> \<lparr>Kind = KSlice, Elem = KUint8\<rparr>
   | _ \<Rightarrow> \<lparr>Kind = kind_of v, Elem = KInvalid\<rparr>)"

text \<open>
  \<open>Convert\<close>; \<open>None\<close> is a panic, which \<open>reflect.TypeOf(nil).Kind()\<close> causes, and the assertion \<open>value.([]byte)\<close> when the
  elements are bytes but the type is another one than \<open>[]byte\<close>.
\<close>

definition Convert :: "'t conv_env \<Rightarrow> rtype \<Rightarrow> gval \<Rightarrow> target \<Rightarrow> (conv_error + 't converted) option" where
  "Convert E T value t =
     (if value = GNil then None
      else if Kind (TypeOf T value) = KSlice then
        (if t = TKind KString then
           (if Elem (TypeOf T value) = KUint8
            then (case value of GBytes s \<Rightarrow> Some (Inr (CVal (GStr s))) | _ \<Rightarrow> None)
            else do { s \<leftarrow> to_String value; Some (Inr (CVal (GStr s))) })
         else if t = TKind KSlice then convert_kind E value t
         else Some (Inl SliceIntoNonSlice))
      else if Kind (TypeOf T value) = KString \<and> t = TKind KSlice then
        do { s \<leftarrow> to_Bytes value; Some (Inr (CVal (GBytes s))) }
      else convert_kind E value t)"

section \<open>Results\<close>

lemma to_Int64_total: "\<exists>i. to_Int64 f v = Some i"
  by (cases v) (simp_all add: to_Int64_def)

lemma to_Uint64_total: "\<exists>u. to_Uint64 f v = Some u"
  by (cases v) (simp_all add: to_Uint64_def)

lemma to_Float64_total: "\<exists>s. to_Float64 E v = Some s"
  by (cases v) (simp_all add: to_Float64_def)

lemma to_Duration_total: "\<exists>d. to_Duration fr ks v = Some d"
  by (cases v) (simp_all add: to_Duration_def)

text \<open>The targets for which the second \<open>switch\<close> has no case.\<close>

definition no_case :: "target \<Rightarrow> bool" where
  "no_case t \<longleftrightarrow> t \<in> TKind ` {KSlice, KInvalid, KOther}"

lemma convert_kind_result:
  "case convert_kind E v t of None \<Rightarrow> False | Some (Inl e) \<Rightarrow> e = CouldNotConvert \<and> no_case t
   | Some (Inr r) \<Rightarrow> \<not> no_case t \<and> (if t = TInterface then r = CVal v else target_of r = t)"
proof -
  obtain i u f d where "to_Int64 (f2i E) v = Some i" "to_Uint64 (f2u E) v = Some u" "to_Float64 E v = Some f"
    "to_Duration (fraction E) (order E) v = Some d"
    using to_Int64_total to_Uint64_total to_Float64_total to_Duration_total by metis
  then show ?thesis
    by (cases t; cases "case t of TKind k \<Rightarrow> k")
      (simp_all add: convert_kind_def kind_of_def no_case_def to_Time_def to_Bool_def image_iff split: kind.splits)
qed

text \<open>The source is a slice of bytes of another type than \<open>[]byte\<close>.\<close>

definition named_bytes :: "rtype \<Rightarrow> gval \<Rightarrow> bool" where
  "named_bytes T v \<longleftrightarrow> Kind (TypeOf T v) = KSlice \<and> Elem (TypeOf T v) = KUint8 \<and> (case v of GBytes _ \<Rightarrow> False | _ \<Rightarrow> True)"

text \<open>
  C40.  What \<open>Convert\<close> does, for every value, whatever its type, and every target.  It panics exactly on \<open>nil\<close>, and when a slice
  of bytes that is not of the type \<open>[]byte\<close> is to become text.  It says that a slice does not convert into a non-slice exactly
  for a slice that is to become anything but text or a slice.  It fails with the other error exactly when the target has no case,
  and the source is neither a slice with another target than slice nor text that is to become a slice; so a slice does not
  convert into a slice.  In all other cases, text that is no number included, there is a result, and it has the kind that was asked
  for; when an interface was asked for, it is the value itself.
\<close>

theorem Convert_kind:
  "(Convert E T v t = None \<longleftrightarrow> v = GNil \<or> named_bytes T v \<and> t = TKind KString) \<and>
   (Convert E T v t = Some (Inl SliceIntoNonSlice) \<longleftrightarrow> v \<noteq> GNil \<and> Kind (TypeOf T v) = KSlice \<and> t \<notin> {TKind KString, TKind KSlice}) \<and>
   (Convert E T v t = Some (Inl CouldNotConvert) \<longleftrightarrow> v \<noteq> GNil \<and> no_case t \<and>
      (if Kind (TypeOf T v) = KSlice then t = TKind KSlice else (Kind (TypeOf T v), t) \<noteq> (KString, TKind KSlice))) \<and>
   (case Convert E T v t of Some (Inr r) \<Rightarrow> if t = TInterface then r = CVal v else target_of r = t | _ \<Rightarrow> True)"
proof (cases "v = GNil \<or> Kind (TypeOf T v) = KSlice \<or> Kind (TypeOf T v) = KString \<and> t = TKind KSlice")
  case True
  have none: "convert_kind E u (TKind KSlice) = Some (Inl CouldNotConvert)" for u by (simp add: convert_kind_def)
  consider "v = GNil" | "v \<noteq> GNil" "Kind (TypeOf T v) = KSlice" | "v \<noteq> GNil" "Kind (TypeOf T v) = KString" "t = TKind KSlice"
    using True by blast
  then show ?thesis
  proof cases
    case 1
    then show ?thesis by (simp add: Convert_def)
  next
    case 2
    then show ?thesis
      by (cases v) (auto simp: Convert_def none named_bytes_def TypeOf_def kind_of_def no_case_def)
  next
    case 3
    then show ?thesis by (cases v) (simp_all add: Convert_def named_bytes_def no_case_def kind_of_def to_Bytes_def)
  qed
next
  case False
  then have "Convert E T v t = convert_kind E v t" "\<not> named_bytes T v" by (auto simp: Convert_def named_bytes_def)
  then show ?thesis using False convert_kind_result [where E = E and v = v and t = t]
    by (auto split: option.splits sum.splits)
qed

section \<open>Clock times\<close>

lemma takeWhile_digits [simp]: "list_all is_digit ds \<Longrightarrow> \<not> is_digit c \<Longrightarrow> takeWhile is_digit (ds @ c # r) = ds"
  by (induction ds) auto

lemma dropWhile_digits [simp]: "list_all is_digit ds \<Longrightarrow> \<not> is_digit c \<Longrightarrow> dropWhile is_digit (ds @ c # r) = c # r"
  by (induction ds) auto

lemma leadingInt_digits:
  "list_all is_digit ds \<Longrightarrow> \<not> is_digit c \<Longrightarrow> leadingInt x (ds @ c # r) = None \<or> (\<exists>v. leadingInt x (ds @ c # r) = Some (v, c # r))"
  by (induction ds arbitrary: x) (auto simp: Let_def)

lemma no_unit_colon: "unitMap (CHR '':'' # u) = None"
  by (simp add: unitMap_def of_runes_def of_bytes_def encode_rune_def scalar_def char_of_def)

lemma colon_no_digit [simp]: "\<not> is_digit (CHR '':'')"
  by (simp add: is_digit_def)

lemma duration_part_colon:
  assumes "list_all is_digit ds"
  shows "duration_part fr (ds @ CHR '':'' # r) = None"
  using leadingInt_digits [OF assms, of "CHR '':''" 0 r] no_unit_colon
  by (auto simp: duration_part_def Let_def)

text \<open>A clock time is no duration in the notation of Go, whose first unit would begin with the colon.\<close>

lemma ParseDuration_colon:
  assumes "all_digits ds"
  shows "ParseDuration fr (ds @ CHR '':'' # r) = None \<and> ParseDuration fr (CHR ''-'' # ds @ CHR '':'' # r) = None"
proof -
  obtain d es where ds: "ds = d # es" and d: "is_digit d" using assms by (cases ds) (auto simp: all_digits_def)
  have ne: "d \<noteq> CHR ''-''" "d \<noteq> CHR ''+''" using d by (auto simp: is_digit_def)
  have "duration_parts fr (ds @ CHR '':'' # r) 0 = None"
    using duration_part_colon [of ds fr r] assms by (subst duration_parts.simps) (simp add: all_digits_def)
  then show ?thesis using ne by (simp add: ParseDuration_def ds)
qed

definition two_digits :: "nat \<Rightarrow> string" where
  "two_digits n = [digit_char (n div 10), digit_char (n mod 10)]"

definition clock_hour :: "bool \<Rightarrow> nat \<Rightarrow> string" where
  "clock_hour neg h = (if neg then ''-'' else '''') @ fmt_nat h"

lemma all_digits_fmt [simp]: "all_digits (fmt_nat n)"
  using fmt_nat_digits by (auto simp: all_digits_def list_all_iff)

lemma all_digits_two [simp]: "n < 100 \<Longrightarrow> all_digits (two_digits n)"
  by (simp add: all_digits_def two_digits_def)

lemma group_int_two [simp]: "n < 100 \<Longrightarrow> group_int (two_digits n) = of_nat n"
proof -
  assume n: "n < 100"
  let ?a = "n div 10" and ?b = "n mod 10"
  have i: "is_digit (digit_char ?a)" using n by simp
  then have d: "is_digit (digit_char ?a)" "digit_val (digit_char ?a) = ?a" "digit_char ?a \<noteq> CHR ''+''" "digit_char ?a \<noteq> CHR ''-''"
    using n by (force simp del: is_digit_char)+
  have v: "?a * 10 + ?b = n" by simp
  have "ParseUint 64 (two_digits n) = (n, True)" using n d v
    by (simp add: ParseUint_def two_digits_def Let_def del: digit_char_of)
  then show ?thesis using n d
    by (simp add: group_int_def ParseInt_def two_digits_def parse_signed_def of_nat_nat)
qed

lemma group_int_hour:
  assumes "h < 2 ^ 63"
  shows "group_int (clock_hour neg h) = (if neg then - of_nat h else of_nat h)"
proof (cases neg)
  case True
  then show ?thesis using assms parse_signed_fmt [of 64 True h] by (simp add: group_int_def clock_hour_def ParseInt_def)
next
  case False
  have "fmt_nat h = fmt_int (int h)" by (simp add: fmt_int_def)
  moreover have "int h < 2 ^ 63" using assms by (metis of_nat_less_iff of_nat_numeral of_nat_power)
  ultimately show ?thesis using False ParseInt_fmt [of 64 "int h"] by (simp add: group_int_def clock_hour_def)
qed

lemma sint_small: "- (2 ^ 63) \<le> x \<Longrightarrow> x < 2 ^ 63 \<Longrightarrow> sint (of_int x :: u64) = x"
  by (simp add: signed_of_int signed_take_bit_int_eq_self)

lemma signed_sum_hour:
  assumes "h * Hour < 2 ^ 63"
  shows "signed_sum (clock_hour neg h) x = (if neg \<and> h \<noteq> 0 then - (of_nat (h * Hour) + x) else of_nat (h * Hour) + x)"
proof -
  have H: "h < 2 ^ 63" using assms by (auto simp: Hour_def Minute_def Second_def)
  have b: "int (h * Hour) < 2 ^ 63" using assms by (metis of_nat_less_iff of_nat_numeral of_nat_power)
  have p: "sint (of_int (int (h * Hour)) :: u64) = int (h * Hour)"
    by (rule sint_small) (use b in \<open>simp_all del: of_nat_mult\<close>)
  have n: "sint (of_int (- int (h * Hour)) :: u64) = - int (h * Hour)"
    by (rule sint_small) (use b in \<open>simp_all del: of_nat_mult\<close>)
  have hrs: "of_nat Hour * group_int (clock_hour neg h) = (of_int (if neg then - int (h * Hour) else int (h * Hour)) :: u64)"
    using group_int_hour [OF H, of neg] by (simp add: mult.commute)
  have pos: "0 < h * Hour" if "h \<noteq> 0" using that by (simp add: Hour_def Minute_def Second_def)
  show ?thesis
  proof (cases "neg \<and> h \<noteq> 0")
    case True
    then have "sint (of_nat Hour * group_int (clock_hour neg h)) < 0" using hrs n pos by simp
    then show ?thesis using True hrs by (simp add: signed_sum_def Let_def)
  next
    case False
    then have e: "of_nat Hour * group_int (clock_hour neg h) = (of_int (int (h * Hour)) :: u64)" using hrs by auto
    then have "\<not> sint (of_nat Hour * group_int (clock_hour neg h)) < 0" using p by (metis linorder_not_less of_nat_0_le_iff)
    then show ?thesis using False e by (auto simp: signed_sum_def Let_def)
  qed
qed

lemma digits_then_sep [simp]: "all_digits ds \<Longrightarrow> \<not> is_digit c \<Longrightarrow> digits_then (ds @ c # r) = Some (ds, c # r)"
  by (simp add: digits_then_def all_digits_def)

lemma digits_then_all: "all_digits ds \<Longrightarrow> digits_then ds = Some (ds, [])"
proof -
  assume a: "all_digits ds"
  then have w: "takeWhile is_digit ds = ds" "dropWhile is_digit ds = []"
    by (auto simp: all_digits_def list_all_iff takeWhile_eq_all_conv)
  show ?thesis using a unfolding digits_then_def Let_def w by (simp add: all_digits_def)
qed

lemma signed_digits_hour: "signed_digits (clock_hour neg h @ CHR '':'' # r) = Some (clock_hour neg h, CHR '':'' # r)"
proof -
  obtain c cs where "fmt_nat h = c # cs" by (cases "fmt_nat h") auto
  moreover from this have "c \<noteq> CHR ''-''" using fmt_nat_first [of h c cs] by auto
  moreover have "digits_then (fmt_nat h @ CHR '':'' # r) = Some (fmt_nat h, CHR '':'' # r)" by simp
  ultimately show ?thesis by (auto simp: signed_digits_def clock_hour_def)
qed

lemma colon_colon [simp]: "colon (CHR '':'' # r) = Some r"
  by (simp add: colon_def)

lemma colon_Nil [simp]: "colon [] = None"
  by (simp add: colon_def)

lemma seconds_fraction_two: "n < 100 \<Longrightarrow> seconds_fraction (length (takeWhile is_digit (two_digits n))) (two_digits n) = None"
proof -
  assume "n < 100"
  then have d: "is_digit (digit_char (n div 10))" "is_digit (digit_char (n mod 10))" by simp_all
  have "any_rune [digit_char (n mod 10)] = None \<or> any_rune [digit_char (n mod 10)] = Some []"
    by (auto simp: any_rune_def split: option.splits)
  moreover have "any_rune [] = None" by (simp add: any_rune_def)
  ultimately show ?thesis using d by (auto simp: two_digits_def all_digits_def numeral_2_eq_2)
qed

lemma first_clock_match_only:
  "clock_match k v = Some d \<Longrightarrow> (\<And>j. j \<noteq> k \<Longrightarrow> clock_match j v = None) \<Longrightarrow> k \<in> set ks \<Longrightarrow> first_clock_match ks v = d"
proof (induction ks)
  case (Cons a ks)
  then show ?case by (cases "a = k") auto
qed simp

lemma clock_match_hm:
  assumes "m < 100"
  shows "clock_match j (clock_hour neg h @ CHR '':'' # two_digits m) =
    (if j = 0 then Some (signed_sum (clock_hour neg h) (of_nat Minute * of_nat m)) else None)"
  using assms signed_digits_hour [of neg h] digits_then_all [of "two_digits m"]
  by (auto simp: clock_match_def match_hm_def match_hms_def match_hmsf_def)

lemma clock_match_hms:
  assumes "m < 100" and "s < 100"
  shows "clock_match j (clock_hour neg h @ CHR '':'' # two_digits m @ CHR '':'' # two_digits s) =
    (if j = 1 then Some (signed_sum (clock_hour neg h) (of_nat Minute * of_nat m + of_nat Second * of_nat s)) else None)"
proof -
  have "\<not> all_digits (two_digits m @ CHR '':'' # two_digits s)" by (simp add: all_digits_def)
  then show ?thesis using assms(1,2) signed_digits_hour [of neg h] seconds_fraction_two [of s]
    by (auto simp: clock_match_def match_hm_def match_hms_def match_hmsf_def)
qed

lemma ParseDuration_clock: "ParseDuration fr (clock_hour neg h @ CHR '':'' # r) = None"
  using ParseDuration_colon [of "fmt_nat h" fr r] by (auto simp: clock_hour_def)

text \<open>
  C33.  A clock time \<open>h:mm\<close> or \<open>h:mm:ss\<close> converts to its duration, whatever the order in which the patterns are tried,
  and a minus sign negates the whole time, but only if the hour is not 0: \<open>-0:30\<close> converts to plus thirty minutes.
\<close>

theorem Duration_clock:
  assumes "{0, 1} \<subseteq> set ks" and "m < 100" and "s < 100" and "(h * 3600 + m * 60 + s) * Second < 2 ^ 63"
  shows "to_Duration fr ks (GStr (clock_hour neg h @ '':'' @ two_digits m @ '':'' @ two_digits s)) =
      Some (of_int ((if neg \<and> h \<noteq> 0 then - 1 else 1) * int ((h * 3600 + m * 60 + s) * Second))) \<and>
    to_Duration fr ks (GStr (clock_hour neg h @ '':'' @ two_digits m)) =
      Some (of_int ((if neg \<and> h \<noteq> 0 then - 1 else 1) * int ((h * 3600 + m * 60) * Second)))"
proof -
  have hour: "h * Hour < 2 ^ 63" using assms(4) by (simp add: Hour_def Minute_def Second_def)
  have "first_clock_match ks (clock_hour neg h @ CHR '':'' # two_digits m @ CHR '':'' # two_digits s) =
      signed_sum (clock_hour neg h) (of_nat Minute * of_nat m + of_nat Second * of_nat s)"
    by (rule first_clock_match_only [where k = 1]) (use assms clock_match_hms in auto)
  moreover have "first_clock_match ks (clock_hour neg h @ CHR '':'' # two_digits m) =
      signed_sum (clock_hour neg h) (of_nat Minute * of_nat m)"
    by (rule first_clock_match_only [where k = 0]) (use assms clock_match_hm in auto)
  moreover have "of_nat (h * Hour) + (of_nat Minute * of_nat m + of_nat Second * of_nat s) =
      (of_nat ((h * 3600 + m * 60 + s) * Second) :: u64)"
    and "of_nat (h * Hour) + of_nat Minute * of_nat m = (of_nat ((h * 3600 + m * 60) * Second) :: u64)"
    by (simp_all add: Hour_def Minute_def algebra_simps flip: of_nat_mult of_nat_add)
  ultimately show ?thesis
    by (simp add: to_Duration_def strToDuration_def ParseDuration_clock signed_sum_hour [OF hour] del: of_nat_mult of_nat_add)
qed

theorem Duration_clock_witness:
  "to_Duration (\<lambda>_ _. None) [2, 0, 1] (GStr ''-0:30:15'') = Some 1815000000000 \<and>
   to_Duration (\<lambda>_ _. None) [2, 0, 1] (GStr ''-0:30'') = Some 1800000000000"
  using Duration_clock [of "[2, 0, 1]" 30 15 0 "\<lambda>_ _. None" True]
  by (simp add: clock_hour_def two_digits_def digit_char_def char_of_def Second_def bit_0)

text \<open>With three digits for the seconds two patterns match, and the result depends on the order in which the map is walked.\<close>

lemma Duration_depends_on_order:
  "to_Duration (\<lambda>_ _. None) [0, 1, 2] (GStr ''1:02:030'') = Some (of_nat (3600 + 120 + 30) * of_nat Second) \<and>
   to_Duration (\<lambda>_ _. None) [2, 1, 0] (GStr ''1:02:030'') = Some (of_nat (3600 + 120) * of_nat Second)"
  by code_simp

end
