(* ===== verification/Containers.thy ===== *)
theory Containers
  imports Prelude
begin

text \<open>
  The shared containers of \<^verbatim>\<open>src/basic/utils\<close> (\<^verbatim>\<open>list.go\<close>, \<^verbatim>\<open>map.go\<close>) and the dispatcher of \<^verbatim>\<open>src/basic/event/event.go\<close>.  Under
  their locks an operation of a container is one step; the dispatcher is also modelled with its locks and its single
  accesses to the map, to show which of them race.
\<close>

section \<open>The list\<close>

definition NewList :: "'a list" where
  "NewList = []"

fun List_Get :: "('a \<Rightarrow> bool) \<Rightarrow> 'a list \<Rightarrow> 'a option" where
  "List_Get f [] = None"
| "List_Get f (v # vs) = (if f v then Some v else List_Get f vs)"

definition List_Add :: "'a \<Rightarrow> 'a list \<Rightarrow> 'a list" where
  "List_Add value es = es @ [value]"

definition List_Pure :: "'a list \<Rightarrow> 'a list" where
  "List_Pure es = take 0 es"

text \<open>The loops over the elements: \<open>k\<close> is the index, the third argument what is still to be visited.\<close>

fun del_loop :: "('a \<Rightarrow> bool) \<Rightarrow> nat \<Rightarrow> 'a list \<Rightarrow> 'a list \<Rightarrow> 'a list" where
  "del_loop f k [] es = es"
| "del_loop f k (v # vs) es = (if f v then take k es @ drop (k + 1) es else del_loop f (k + 1) vs es)"

definition List_Del :: "'a \<Rightarrow> 'a list \<Rightarrow> 'a list" where
  "List_Del value es = del_loop (\<lambda>v. value = v) 0 es es"

definition List_Delete :: "('a \<Rightarrow> bool) \<Rightarrow> 'a list \<Rightarrow> 'a list" where
  "List_Delete f es = del_loop f 0 es es"

definition List_Len :: "'a list \<Rightarrow> nat" where
  "List_Len es = length es"

fun replace_loop :: "'a \<Rightarrow> ('a \<Rightarrow> bool) \<Rightarrow> nat \<Rightarrow> 'a list \<Rightarrow> 'a list \<Rightarrow> 'a list" where
  "replace_loop value f k [] es = es"
| "replace_loop value f k (v # vs) es =
     (if f v then (take k es @ drop (k + 1) es) @ [value] else replace_loop value f (k + 1) vs es)"

definition List_Replace :: "'a \<Rightarrow> ('a \<Rightarrow> bool) \<Rightarrow> 'a list \<Rightarrow> 'a list" where
  "List_Replace value f es = replace_loop value f 0 es es"

text \<open>\<open>Range\<close> and \<open>LRange\<close> differ in the lock only; the callback changes the state \<open>'s\<close> and ends the loop with \<open>true\<close>.\<close>

fun List_Range :: "('a \<Rightarrow> 's \<Rightarrow> bool \<times> 's) \<Rightarrow> 'a list \<Rightarrow> 's \<Rightarrow> 's" where
  "List_Range f [] s = s"
| "List_Range f (v # vs) s = (case f v s of (stop, s) \<Rightarrow> if stop then s else List_Range f vs s)"

section \<open>The map\<close>

definition NewMap :: "'k \<rightharpoonup> 'v" where
  "NewMap = Map.empty"

definition Map_Get :: "'k \<Rightarrow> ('k \<rightharpoonup> 'v) \<Rightarrow> 'v option" where
  "Map_Get key m = m key"

definition Map_Set :: "'k \<Rightarrow> 'v \<Rightarrow> ('k \<rightharpoonup> 'v) \<Rightarrow> 'k \<rightharpoonup> 'v" where
  "Map_Set key value m = m(key \<mapsto> value)"

definition Map_Del :: "'k \<Rightarrow> ('k \<rightharpoonup> 'v) \<Rightarrow> 'k \<rightharpoonup> 'v" where
  "Map_Del key m = m(key := None)"

definition Map_Len :: "('k \<rightharpoonup> 'v) \<Rightarrow> nat" where
  "Map_Len m = card (dom m)"

text \<open>The map is walked in the order \<open>ks\<close>, a parameter.\<close>

definition Map_Range :: "'k list \<Rightarrow> ('k \<Rightarrow> 'v \<Rightarrow> 's \<Rightarrow> bool \<times> 's) \<Rightarrow> ('k \<rightharpoonup> 'v) \<Rightarrow> 's \<Rightarrow> 's" where
  "Map_Range ks f m s = List_Range (\<lambda>(k, v) s. f k v s) (List.map_filter (\<lambda>k. map_option (Pair k) (m k)) ks) s"

section \<open>What the list operations do\<close>

lemma del_loop_split:
  "del_loop f (length ys) vs (ys @ vs) = ys @ takeWhile (\<lambda>v. \<not> f v) vs @ drop 1 (dropWhile (\<lambda>v. \<not> f v) vs)"
proof (induction vs arbitrary: ys)
  case (Cons v vs)
  then show ?case using Cons.IH [of "ys @ [v]"] by simp
qed simp

lemma replace_loop_split:
  "replace_loop w f (length ys) vs (ys @ vs) =
     (if \<exists>v\<in>set vs. f v then del_loop f (length ys) vs (ys @ vs) @ [w] else ys @ vs)"
proof (induction vs arbitrary: ys)
  case (Cons v vs)
  then show ?case using Cons.IH [of "ys @ [v]"] by simp
qed simp

lemma List_Del_remove1: "List_Del v es = remove1 v es"
proof -
  have "takeWhile (\<lambda>u. v \<noteq> u) es @ drop 1 (dropWhile (\<lambda>u. v \<noteq> u) es) = remove1 v es" by (induction es) auto
  then show ?thesis using del_loop_split [of "\<lambda>u. v = u" "[]" es] by (simp add: List_Del_def)
qed

text \<open>
  \<open>Delete\<close> removes the first element with the property and nothing else, and \<open>Get\<close> with the same property returned it;
  \<open>Replace\<close> does not put the value in its place but at the end.
\<close>

lemma List_Delete_first:
  "List_Delete f es = takeWhile (\<lambda>v. \<not> f v) es @ drop 1 (dropWhile (\<lambda>v. \<not> f v) es)"
  using del_loop_split [of f "[]" es] by (simp add: List_Delete_def)

lemma List_Get_Delete: "List_Get f es = Some v \<Longrightarrow> f v \<and> mset es = add_mset v (mset (List_Delete f es))"
  by (induction es) (auto simp: List_Delete_first split: if_splits)

lemma List_Get_None: "List_Get f es = None \<longleftrightarrow> (\<forall>v\<in>set es. \<not> f v)"
  by (induction es) auto

lemma List_Replace_at_end:
  "List_Replace w f es = (if List_Get f es = None then es else List_Delete f es @ [w])"
  using replace_loop_split [of w f "[]" es] by (auto simp: List_Replace_def List_Delete_def List_Get_None)

section \<open>The dispatcher\<close>

text \<open>A listener has its event, its handler and whether it is to be called once; \<open>None\<close> is the nil map.\<close>

record 'h listen_args =
  eventType :: string
  la_once :: bool
  hander :: 'h

type_synonym 'h dispatcher = "(string \<rightharpoonup> 'h listen_args list) option"

definition listeners :: "'h dispatcher \<Rightarrow> string \<Rightarrow> 'h listen_args list" where
  "listeners d ty = (case d of None \<Rightarrow> [] | Some m \<Rightarrow> (case m ty of None \<Rightarrow> [] | Some l \<Rightarrow> l))"

definition add_listener :: "'h listen_args \<Rightarrow> 'h dispatcher \<Rightarrow> 'h dispatcher" where
  "add_listener a d =
     (let m = (case d of None \<Rightarrow> Map.empty | Some m \<Rightarrow> m)
      in Some (m(eventType a \<mapsto> (case m (eventType a) of None \<Rightarrow> [] | Some l \<Rightarrow> l) @ [a])))"

definition Listen :: "string \<Rightarrow> 'h \<Rightarrow> 'h dispatcher \<Rightarrow> 'h dispatcher" where
  "Listen ty h d = add_listener \<lparr>eventType = ty, la_once = False, hander = h\<rparr> d"

definition ListenOnce :: "string \<Rightarrow> 'h \<Rightarrow> 'h dispatcher \<Rightarrow> 'h dispatcher" where
  "ListenOnce ty h d = add_listener \<lparr>eventType = ty, la_once = True, hander = h\<rparr> d"

text \<open>The loop of \<open>Dispatch\<close> calls the handlers one by one and keeps those that are not for once.\<close>

fun dispatch_loop :: "'h listen_args list \<Rightarrow> 'h listen_args list \<Rightarrow> 'h list \<Rightarrow> 'h list \<times> 'h listen_args list" where
  "dispatch_loop [] tmp calls = (calls, tmp)"
| "dispatch_loop (v # vs) tmp calls = dispatch_loop vs (if la_once v then tmp else tmp @ [v]) (calls @ [hander v])"

definition Dispatch :: "string \<Rightarrow> 'h dispatcher \<Rightarrow> 'h list \<times> 'h dispatcher" where
  "Dispatch ty d = (case d of
     None \<Rightarrow> ([], d)
   | Some m \<Rightarrow> (case m ty of
       None \<Rightarrow> ([], d)
     | Some l \<Rightarrow> (case dispatch_loop l [] [] of (calls, tmp) \<Rightarrow> (calls, Some (m(ty \<mapsto> tmp))))))"

text \<open>A history of calls, and the calls of handlers it causes, dispatch by dispatch.\<close>

datatype 'h event_op = OListen string 'h | OOnce string 'h | ODispatch string

fun event_step :: "'h event_op \<Rightarrow> 'h dispatcher \<Rightarrow> 'h list \<times> 'h dispatcher" where
  "event_step (OListen ty h) d = ([], Listen ty h d)"
| "event_step (OOnce ty h) d = ([], ListenOnce ty h d)"
| "event_step (ODispatch ty) d = Dispatch ty d"

definition after :: "'h event_op list \<Rightarrow> 'h dispatcher" where
  "after ops = foldl (\<lambda>d op. snd (event_step op d)) None ops"

text \<open>
  Which handlers a dispatch has to call after a history: those registered for the event, oldest first, except those for
  once that an earlier dispatch has called.
\<close>

fun due :: "'h event_op list \<Rightarrow> string \<Rightarrow> 'h listen_args list" where
  "due [] ty = []"
| "due (OListen t h # ops) ty = (if t = ty then [\<lparr>eventType = t, la_once = False, hander = h\<rparr>] else []) @ due ops ty"
| "due (OOnce t h # ops) ty =
     (if t = ty \<and> ODispatch ty \<notin> set ops then [\<lparr>eventType = t, la_once = True, hander = h\<rparr>] else []) @ due ops ty"
| "due (ODispatch t # ops) ty = due ops ty"

lemma dispatch_loop_eq: "dispatch_loop vs tmp cs = (cs @ map hander vs, tmp @ filter (\<lambda>v. \<not> la_once v) vs)"
  by (induction vs arbitrary: tmp cs) auto

lemma listeners_add: "listeners (add_listener a d) ty = listeners d ty @ (if eventType a = ty then [a] else [])"
  by (auto simp: listeners_def add_listener_def Let_def split: option.splits)

lemma Dispatch_eq:
  "fst (Dispatch ty d) = map hander (listeners d ty)"
  "listeners (snd (Dispatch ty d)) t = (if t = ty then filter (\<lambda>v. \<not> la_once v) (listeners d t) else listeners d t)"
  by (auto simp: Dispatch_def listeners_def dispatch_loop_eq split: option.splits)

lemma due_snoc:
  "due (ops @ [op]) ty = (case op of
     OListen t h \<Rightarrow> due ops ty @ (if t = ty then [\<lparr>eventType = t, la_once = False, hander = h\<rparr>] else [])
   | OOnce t h \<Rightarrow> due ops ty @ (if t = ty then [\<lparr>eventType = t, la_once = True, hander = h\<rparr>] else [])
   | ODispatch t \<Rightarrow> if t = ty then filter (\<lambda>v. \<not> la_once v) (due ops ty) else due ops ty)"
  by (induction ops ty rule: due.induct) (auto split: event_op.splits)

lemma listeners_after: "listeners (after ops) ty = due ops ty"
proof (induction ops rule: rev_induct)
  case Nil
  then show ?case by (simp add: after_def listeners_def)
next
  case (snoc op ops)
  then show ?case
    by (cases op) (auto simp: after_def due_snoc Listen_def ListenOnce_def listeners_add Dispatch_eq)
qed

text \<open>
  C7.  Called one after the other, in whatever order, \<open>Listen\<close>, \<open>ListenOnce\<close> and \<open>Dispatch\<close> keep exactly the listeners that are
  due, and a dispatch calls exactly the handlers that are due for its event, in the order of their registration: a lasting
  one on every dispatch, one for once on the first dispatch of its event after it was registered and on no other.
\<close>

theorem Dispatch_calls_due:
  "fst (Dispatch ty (after ops)) = map hander (due ops ty) \<and>
   listeners (snd (Dispatch ty (after ops))) t = (if t = ty then filter (\<lambda>v. \<not> la_once v) (due ops t) else due ops t)"
  by (simp add: Dispatch_eq listeners_after)

section \<open>Dispatches at the same time\<close>

text \<open>
  \<open>Dispatch\<close> holds the read lock, \<open>Listen\<close> and \<open>ListenOnce\<close> the write lock.  Where a goroutine is: outside, with the read lock and
  about to read the map, in the loop over the listeners (called, still to call, \<open>tmp\<close>), or with the write lock and about to
  register.  When the loop is done, the goroutine is about to write the map.
\<close>

datatype 'h phase =
    Idle
  | Reading string
  | Running string "'h listen_args list" "'h listen_args list" "'h listen_args list"
  | Locked "'h listen_args"

record 'h shared =
  sh_map :: "'h dispatcher"
  sh_act :: "nat \<Rightarrow> 'h phase"
  sh_calls :: "'h list"

definition no_listeners :: "'h shared" where
  "no_listeners = \<lparr>sh_map = None, sh_act = (\<lambda>_. Idle), sh_calls = []\<rparr>"

text \<open>The next access of a goroutine to the map, and whether two goroutines are about to access it at once, one of them writing.\<close>

fun reads_next :: "'h phase \<Rightarrow> bool" where
  "reads_next (Reading ty) \<longleftrightarrow> True"
| "reads_next _ \<longleftrightarrow> False"

fun writes_next :: "'h phase \<Rightarrow> bool" where
  "writes_next (Running ty called [] tmp) \<longleftrightarrow> True"
| "writes_next (Locked a) \<longleftrightarrow> True"
| "writes_next _ \<longleftrightarrow> False"

definition race :: "'h shared \<Rightarrow> nat \<Rightarrow> nat \<Rightarrow> bool" where
  "race s g h \<longleftrightarrow> g \<noteq> h \<and> writes_next (sh_act s g) \<and> (reads_next (sh_act s h) \<or> writes_next (sh_act s h))"

definition racing :: "'h shared \<Rightarrow> nat \<Rightarrow> bool" where
  "racing s g \<longleftrightarrow> (\<exists>h. race s g h \<or> race s h g)"

text \<open>
  The steps of the goroutines.  A map in Go must not be read or written while another goroutine writes it: an access that
  races is no step of the model, which ends there.
\<close>

inductive dispatch_step :: "'h shared \<Rightarrow> 'h shared \<Rightarrow> bool" where
  lock: "(\<And>x. sh_act s x = Idle) \<Longrightarrow> dispatch_step s (s\<lparr>sh_act := (sh_act s)(g := Locked a)\<rparr>)"
| register: "sh_act s g = Locked a \<Longrightarrow> \<not> racing s g \<Longrightarrow>
    dispatch_step s (s\<lparr>sh_map := add_listener a (sh_map s), sh_act := (sh_act s)(g := Idle)\<rparr>)"
| rlock: "sh_act s g = Idle \<Longrightarrow> (\<And>x a. sh_act s x \<noteq> Locked a) \<Longrightarrow> dispatch_step s (s\<lparr>sh_act := (sh_act s)(g := Reading ty)\<rparr>)"
| read: "sh_act s g = Reading ty \<Longrightarrow> \<not> racing s g \<Longrightarrow>
    dispatch_step s (s\<lparr>sh_act := (sh_act s)(g := (case sh_map s of
        None \<Rightarrow> Idle
      | Some m \<Rightarrow> (case m ty of None \<Rightarrow> Idle | Some l \<Rightarrow> Running ty [] l [])))\<rparr>)"
| call: "sh_act s g = Running ty called (v # vs) tmp \<Longrightarrow>
    dispatch_step s (s\<lparr>sh_act := (sh_act s)(g := Running ty (called @ [v]) vs (if la_once v then tmp else tmp @ [v])),
      sh_calls := sh_calls s @ [hander v]\<rparr>)"
| finish: "sh_act s g = Running ty called [] tmp \<Longrightarrow> \<not> racing s g \<Longrightarrow>
    dispatch_step s (s\<lparr>sh_act := (sh_act s)(g := Idle), sh_map := map_option (\<lambda>m. m(ty \<mapsto> tmp)) (sh_map s)\<rparr>)"

inductive_cases dispatch_stepE: "dispatch_step s s'"

text \<open>The write lock keeps everybody else out.\<close>

definition exclusive :: "'h shared \<Rightarrow> bool" where
  "exclusive s \<longleftrightarrow> (\<forall>g a. sh_act s g = Locked a \<longrightarrow> (\<forall>h. h \<noteq> g \<longrightarrow> sh_act s h = Idle))"

lemma exclusive_step: "dispatch_step s s' \<Longrightarrow> exclusive s \<Longrightarrow> exclusive s'"
proof (induction rule: dispatch_step.induct)
  case (call s g ty called v vs tmp)
  then have "sh_act s x \<noteq> Locked a" for x a unfolding exclusive_def by (metis phase.distinct(3) phase.distinct(11))
  then show ?case by (simp add: exclusive_def)
next
  case (read s g ty)
  then have "sh_act s x \<noteq> Locked a" for x a unfolding exclusive_def by (metis phase.distinct(1) phase.distinct(9))
  then show ?case by (simp add: exclusive_def split: option.splits)
qed (auto simp: exclusive_def)

lemma exclusive_reachable: "dispatch_step\<^sup>*\<^sup>* no_listeners s \<Longrightarrow> exclusive s"
proof (induction rule: rtranclp_induct)
  case base
  then show ?case by (simp add: exclusive_def no_listeners_def)
next
  case (step s s')
  then show ?case using exclusive_step by blast
qed

lemma exclusive_no_race: "exclusive s \<Longrightarrow> race s g h \<Longrightarrow> sh_act s x \<noteq> Locked a"
  unfolding exclusive_def race_def by (metis reads_next.simps(2) writes_next.simps(3))

text \<open>The loop of a dispatch can always go on to its end, whatever the others do.\<close>

lemma call_all:
  "sh_act s g = Running ty called l tmp \<Longrightarrow> \<exists>s' called' tmp'. dispatch_step\<^sup>*\<^sup>* s s' \<and> sh_act s' g = Running ty called' [] tmp' \<and>
     (\<forall>h. h \<noteq> g \<longrightarrow> sh_act s' h = sh_act s h) \<and> sh_calls s' = sh_calls s @ map hander l"
proof (induction l arbitrary: s called tmp)
  case (Cons v vs)
  let ?s = "s\<lparr>sh_act := (sh_act s)(g := Running ty (called @ [v]) vs (if la_once v then tmp else tmp @ [v])), sh_calls := sh_calls s @ [hander v]\<rparr>"
  have "dispatch_step s ?s" by (rule call [OF Cons.prems])
  moreover from Cons.IH [of ?s "called @ [v]"] obtain s' called' tmp' where
    "dispatch_step\<^sup>*\<^sup>* ?s s'" "sh_act s' g = Running ty called' [] tmp'" "\<forall>h. h \<noteq> g \<longrightarrow> sh_act s' h = sh_act ?s h"
    "sh_calls s' = sh_calls ?s @ map hander vs" by auto
  ultimately show ?case by (intro exI [of _ s'] exI [of _ called'] exI [of _ tmp']) (auto intro: converse_rtranclp_into_rtranclp)
qed blast

text \<open>Both goroutines have the read lock; the first reads the map, and then both are in their loops.\<close>

lemma two_reads:
  assumes "\<And>x. sh_act s x = Idle" and "sh_map s = Some m" and "m ty = Some l" and "g \<noteq> h"
  shows "\<exists>s'. dispatch_step\<^sup>*\<^sup>* s s' \<and> sh_calls s' = sh_calls s \<and> sh_act s' g = Running ty [] l [] \<and>
    (if l = [] then sh_act s' h = Reading ty else sh_act s' h = Running ty [] l [])"
proof -
  let ?s1 = "s\<lparr>sh_act := (sh_act s)(g := Reading ty)\<rparr>" and ?s2 = "s\<lparr>sh_act := (sh_act s)(g := Reading ty, h := Reading ty)\<rparr>"
  let ?s3 = "s\<lparr>sh_act := (sh_act s)(g := Running ty [] l [], h := Reading ty)\<rparr>"
  let ?s4 = "s\<lparr>sh_act := (sh_act s)(g := Running ty [] l [], h := Running ty [] l [])\<rparr>"
  have 1: "dispatch_step s ?s1" using rlock [of s g ty] assms(1) by simp
  have 2: "dispatch_step ?s1 ?s2" using rlock [of ?s1 h ty] assms(1,4) by simp
  have "\<not> racing ?s2 g" using assms(1) by (auto simp: racing_def race_def)
  then have 3: "dispatch_step ?s2 ?s3" using read [of ?s2 g ty] assms(2-4) by (simp add: fun_upd_twist)
  show ?thesis
  proof (cases "l = []")
    case True
    with 1 2 3 assms(4) show ?thesis
      by (intro exI [of _ ?s3]) (auto intro: converse_rtranclp_into_rtranclp)
  next
    case False
    then obtain v vs where "l = v # vs" by (cases l) auto
    then have "\<not> racing ?s3 h" using assms(1,4) by (auto simp: racing_def race_def)
    then have "dispatch_step ?s3 ?s4" using read [of ?s3 h ty] assms(2-4) by simp
    with 1 2 3 False assms(4) show ?thesis
      by (intro exI [of _ ?s4]) (auto intro: converse_rtranclp_into_rtranclp)
  qed
qed

text \<open>
  C31.  The locks of the dispatcher do not protect its map.  A registration never races: in every reachable state in which two
  goroutines are about to access the map at once, one of them writing, nobody holds the write lock.  But from every reachable
  state in which no goroutine is inside the dispatcher, any two goroutines that dispatch an event for which there is an entry can
  get there, since both write the map under the read lock; by then each has called every listener of the event, also those
  registered for one call.  What Go does after such a race is not modelled.
\<close>

theorem dispatches_race:
  assumes "dispatch_step\<^sup>*\<^sup>* no_listeners s"
  shows "(race s g h \<longrightarrow> (\<forall>x a. sh_act s x \<noteq> Locked a)) \<and>
    ((\<forall>x. sh_act s x = Idle) \<and> sh_map s = Some m \<and> m ty = Some l \<and> g \<noteq> h \<longrightarrow>
      (\<exists>s'. dispatch_step\<^sup>*\<^sup>* s s' \<and> race s' g h \<and> sh_calls s' = sh_calls s @ map hander l @ map hander l))"
proof (intro conjI impI, goal_cases)
  case 1
  then show ?case using exclusive_no_race [OF exclusive_reachable [OF assms]] by blast
next
  case 2
  then obtain s1 where s1: "dispatch_step\<^sup>*\<^sup>* s s1" "sh_calls s1 = sh_calls s" "sh_act s1 g = Running ty [] l []"
    "if l = [] then sh_act s1 h = Reading ty else sh_act s1 h = Running ty [] l []" using two_reads [of s m ty l g h] by blast
  show ?case
  proof (cases "l = []")
    case True
    then show ?thesis using s1 2 by (intro exI [of _ s1]) (simp add: race_def)
  next
    case False
    from call_all [OF s1(3)] obtain s2 c2 t2 where s2: "dispatch_step\<^sup>*\<^sup>* s1 s2" "sh_act s2 g = Running ty c2 [] t2"
      "\<forall>x. x \<noteq> g \<longrightarrow> sh_act s2 x = sh_act s1 x" "sh_calls s2 = sh_calls s1 @ map hander l" by blast
    then have "sh_act s2 h = Running ty [] l []" using s1(4) False 2 by simp
    from call_all [OF this] obtain s3 c3 t3 where s3: "dispatch_step\<^sup>*\<^sup>* s2 s3" "sh_act s3 h = Running ty c3 [] t3"
      "\<forall>x. x \<noteq> h \<longrightarrow> sh_act s3 x = sh_act s2 x" "sh_calls s3 = sh_calls s2 @ map hander l" by blast
    have "race s3 g h" using s2(2) s3(2,3) 2 by (simp add: race_def)
    moreover have "dispatch_step\<^sup>*\<^sup>* s s3" using s1(1) s2(1) s3(1) by (meson rtranclp_trans)
    ultimately show ?thesis using s1(2) s2(4) s3(4) by (intro exI [of _ s3]) simp
  qed
qed

text \<open>One listener, registered for one call, is called by both of two goroutines before they race.\<close>

definition once_args :: "nat listen_args" where
  "once_args = \<lparr>eventType = ''login'', la_once = True, hander = 7\<rparr>"

definition one_listener :: "nat shared" where
  "one_listener = \<lparr>sh_map = Some [''login'' \<mapsto> [once_args]], sh_act = (\<lambda>_. Idle), sh_calls = []\<rparr>"

lemma one_listener_reachable: "dispatch_step\<^sup>*\<^sup>* no_listeners one_listener"
proof -
  let ?s = "no_listeners\<lparr>sh_act := (sh_act no_listeners)(1 := Locked once_args)\<rparr>"
  have "dispatch_step no_listeners ?s" by (rule lock) (simp add: no_listeners_def)
  moreover have "\<not> racing ?s 1" by (auto simp: racing_def race_def no_listeners_def)
  then have "dispatch_step ?s one_listener"
    using register [of ?s 1 once_args] by (simp add: no_listeners_def one_listener_def add_listener_def once_args_def fun_upd_idem)
  ultimately show ?thesis by (meson converse_rtranclp_into_rtranclp rtranclp.rtrancl_refl)
qed

theorem dispatches_race_witness:
  "\<exists>s. dispatch_step\<^sup>*\<^sup>* one_listener s \<and> race s 1 2 \<and> sh_calls s = [7, 7]"
  using dispatches_race [OF one_listener_reachable, of 1 2 "[''login'' \<mapsto> [once_args]]" "''login''" "[once_args]"]
  by (simp add: one_listener_def once_args_def)

end
