(* ===== verification/FileStore.thy ===== *)
theory FileStore
  imports Encodings
begin

text \<open>
  The files of the server: the store of portraits of \<^verbatim>\<open>src/basic/imageserver\<close> and the up- and downloads of
  \<^verbatim>\<open>src/sys/files.go\<close>, over a model of the file system: directories, files with their content, and the working directory
  of the process.  There are no links and no permissions.
\<close>

section \<open>The file system\<close>

text \<open>A place is the list of names from the root.\<close>

record files =
  dirs :: "string list \<Rightarrow> bool"
  contents :: "string list \<rightharpoonup> string"
  cwd :: "string list"

fun split_slash :: "string \<Rightarrow> string list" where
  "split_slash [] = [[]]"
| "split_slash (c # cs) =
     (if c = CHR ''/'' then [] # split_slash cs
      else (case split_slash cs of w # ws \<Rightarrow> (c # w) # ws | [] \<Rightarrow> [[c]]))"

text \<open>The place a path leads to, name by name; every place on the way has to be a directory.\<close>

fun walk :: "(string list \<Rightarrow> bool) \<Rightarrow> string list \<Rightarrow> string list \<Rightarrow> string list option" where
  "walk D q [] = Some q"
| "walk D q (c # cs) =
     (if \<not> D q then None
      else if c = '''' \<or> c = ''.'' then walk D q cs
      else if c = ''..'' then walk D (butlast q) cs
      else walk D (q @ [c]) cs)"

definition resolve :: "files \<Rightarrow> string \<Rightarrow> string list option" where
  "resolve F p =
     (if p = '''' then None else walk (dirs F) (if hd p = CHR ''/'' then [] else cwd F) (split_slash p))"

definition os_exists :: "files \<Rightarrow> string \<Rightarrow> bool" where
  "os_exists F p = (case resolve F p of None \<Rightarrow> False | Some q \<Rightarrow> dirs F q \<or> contents F q \<noteq> None)"

text \<open>\<open>os.MkdirAll\<close>: whether it succeeds; a file in the way is an error, which leaves the directories before it.\<close>

fun make_dirs :: "string list \<Rightarrow> string list \<Rightarrow> files \<Rightarrow> bool \<times> files" where
  "make_dirs q [] F = (if contents F q \<noteq> None then (False, F) else (True, F\<lparr>dirs := (dirs F)(q := True)\<rparr>))"
| "make_dirs q (c # cs) F =
     (if contents F q \<noteq> None then (False, F)
      else make_dirs (if c = '''' \<or> c = ''.'' then q else if c = ''..'' then butlast q else q @ [c]) cs
             (F\<lparr>dirs := (dirs F)(q := True)\<rparr>))"

definition os_MkdirAll :: "string \<Rightarrow> files \<Rightarrow> bool \<times> files" where
  "os_MkdirAll p F =
     (if p = '''' then (False, F) else make_dirs (if hd p = CHR ''/'' then [] else cwd F) (split_slash p) F)"

text \<open>
  \<open>os.OpenFile\<close> for writing with \<open>O_CREATE\<close> gives the place of the file; without \<open>O_TRUNC\<close> an old content stays until it
  is overwritten.  \<open>os.Create\<close> also truncates.
\<close>

definition os_open_write :: "bool \<Rightarrow> string \<Rightarrow> files \<Rightarrow> (string list \<times> files) option" where
  "os_open_write trunc p F = (case resolve F p of
     None \<Rightarrow> None
   | Some q \<Rightarrow>
       if q = [] \<or> \<not> dirs F (butlast q) \<or> dirs F q then None
       else Some (q, F\<lparr>contents := (contents F)(q \<mapsto>
              (case contents F q of Some old \<Rightarrow> if trunc then '''' else old | None \<Rightarrow> ''''))\<rparr>))"

text \<open>\<open>io.Copy\<close> to a file just opened writes from its start.\<close>

definition io_Copy :: "string list \<Rightarrow> string \<Rightarrow> files \<Rightarrow> files" where
  "io_Copy q bs F = (case contents F q of
     None \<Rightarrow> F
   | Some old \<Rightarrow> F\<lparr>contents := (contents F)(q \<mapsto> bs @ drop (length bs) old)\<rparr>)"

definition os_Chdir :: "string \<Rightarrow> files \<Rightarrow> files option" where
  "os_Chdir p F = (case resolve F p of
     Some q \<Rightarrow> if dirs F q then Some (F\<lparr>cwd := q\<rparr>) else None
   | None \<Rightarrow> None)"

text \<open>\<open>os.Remove\<close> removes a file or an empty directory.\<close>

definition os_Remove :: "string \<Rightarrow> files \<Rightarrow> files option" where
  "os_Remove p F = (case resolve F p of
     None \<Rightarrow> None
   | Some q \<Rightarrow>
       if contents F q \<noteq> None then Some (F\<lparr>contents := (contents F)(q := None)\<rparr>)
       else if dirs F q \<and> q \<noteq> [] \<and> (\<forall>c. \<not> dirs F (q @ [c]) \<and> contents F (q @ [c]) = None)
         then Some (F\<lparr>dirs := (dirs F)(q := False)\<rparr>)
       else None)"

section \<open>Portraits\<close>

definition imageID2Path :: "string \<Rightarrow> string \<Rightarrow> string option" where
  "imageID2Path path imageid =
     (if length imageid < 9 then None
      else Some (path @ ''/'' @ take 3 imageid @ ''/'' @ take 3 (drop 3 imageid) @ ''/'' @ take 3 (drop 6 imageid) @ ''/'' @
                 drop 9 imageid @ ''.jpg''))"

text \<open>The id for the random number \<open>r\<close>, filled up with zeros; the slice \<open>str[:11]\<close> panics on shorter text.\<close>

definition makeImageID :: "u64 \<Rightarrow> string option" where
  "makeImageID r =
     (let str = Base62encode r;
          str = (if length str < 11 then replicate (11 - length str) (CHR ''0'') @ str else str)
      in if length str < 11 then None else Some (take 11 str))"

definition fileExist :: "files \<Rightarrow> string \<Rightarrow> bool" where
  "fileExist F filename = os_exists F filename"

definition buildTree :: "string \<Rightarrow> string \<Rightarrow> files \<Rightarrow> (bool \<times> files) option" where
  "buildTree path imageid F =
     (if length imageid < 9 then None
      else Some (os_MkdirAll
        (path @ ''/'' @ take 3 imageid @ ''/'' @ take 3 (drop 3 imageid) @ ''/'' @ take 3 (drop 6 imageid)) F))"

text \<open>The loop that looks for an unused id, with the random numbers \<open>rnd n, rnd (n + 1), \<dots>\<close>; it may run forever.\<close>

partial_function (option) unused_id :: "files \<Rightarrow> string \<Rightarrow> (nat \<Rightarrow> u64) \<Rightarrow> nat \<Rightarrow> string option" where
  "unused_id F path rnd n = do {
     imgid \<leftarrow> makeImageID (rnd n);
     p \<leftarrow> imageID2Path path imgid;
     (if fileExist F p then unused_id F path rnd (n + 1) else Some imgid)
   }"

datatype save_error = EReadUpload | EOpenFile

text \<open>
  \<open>SaveImage\<close> for the uploaded bytes.  The first \<open>Read\<close> fails on an empty upload.  An error of \<open>buildTree\<close> is only logged.
  \<open>None\<close> is a search that does not end.
\<close>

definition SaveImage :: "string \<Rightarrow> string \<Rightarrow> (nat \<Rightarrow> u64) \<Rightarrow> files \<Rightarrow> ((save_error + string) \<times> files) option" where
  "SaveImage path upload rnd F =
     (if upload = '''' then Some (Inl EReadUpload, F)
      else do {
        imgid \<leftarrow> unused_id F path rnd 0;
        (_, F) \<leftarrow> buildTree path imgid F;
        p \<leftarrow> imageID2Path path imgid;
        (case os_open_write False p F of
           None \<Rightarrow> Some (Inl EOpenFile, F)
         | Some (q, G) \<Rightarrow> Some (Inr imgid, io_Copy q upload G))
      })"

datatype image_reply = ImageIDIncorrect | ImageNotFound | ServeFile string | ServeDir

definition downloadHandler :: "files \<Rightarrow> string \<Rightarrow> string \<Rightarrow> image_reply option" where
  "downloadHandler F path imageid =
     (if length imageid \<noteq> 11 then Some ImageIDIncorrect
      else do {
        imgpath \<leftarrow> imageID2Path path imageid;
        (if \<not> fileExist F imgpath then Some ImageNotFound
         else do {
           q \<leftarrow> resolve F imgpath;
           Some (case contents F q of Some bs \<Rightarrow> ServeFile bs | None \<Rightarrow> ServeDir)
         })
      })"

section \<open>Paths of portraits\<close>

definition image_place :: "string list \<Rightarrow> string \<Rightarrow> string list" where
  "image_place R i = R @ [take 3 i, take 3 (drop 3 i), take 3 (drop 6 i), drop 9 i @ ''.jpg'']"

definition image_id :: "string \<Rightarrow> bool" where
  "image_id i \<longleftrightarrow> length i = 11 \<and> CHR ''/'' \<notin> set i"

lemma split_slash_ne [simp]: "split_slash s \<noteq> []"
  by (induction s) (auto split: list.splits)

lemma split_slash_sep: "split_slash (p @ CHR ''/'' # s) = split_slash p @ split_slash s"
  by (induction p) (auto split: list.splits)

lemma split_slash_word: "CHR ''/'' \<notin> set w \<Longrightarrow> split_slash w = [w]"
  by (induction w) auto

lemma walk_append: "walk D q (cs @ ds) = (case walk D q cs of None \<Rightarrow> None | Some r \<Rightarrow> walk D r ds)"
  by (induction cs arbitrary: q) auto

lemma image_id_parts:
  assumes "image_id i"
  shows "CHR ''/'' \<notin> set (take 3 i) \<and> CHR ''/'' \<notin> set (take 3 (drop 3 i)) \<and> CHR ''/'' \<notin> set (take 3 (drop 6 i)) \<and>
    CHR ''/'' \<notin> set (drop 9 i @ ''.jpg'') \<and> length (take 3 i) = 3 \<and> length (take 3 (drop 3 i)) = 3 \<and>
    length (take 3 (drop 6 i)) = 3 \<and> length (drop 9 i) = 2"
  using assms by (auto simp: image_id_def dest: in_set_takeD in_set_dropD)

lemma walk_name: "length c \<ge> 3 \<Longrightarrow> walk D q (c # cs) = (if D q then walk D (q @ [c]) cs else None)"
  by auto

text \<open>The three names of directories in a path are never empty, a dot or two dots: the path leads below the directory.\<close>

lemma image_resolve:
  assumes "image_id i" and "resolve F path = Some R"
  shows "\<exists>p. imageID2Path path i = Some p \<and>
    resolve F p = (if dirs F R \<and> dirs F (R @ [take 3 i]) \<and> dirs F (R @ [take 3 i, take 3 (drop 3 i)]) \<and>
      dirs F (R @ [take 3 i, take 3 (drop 3 i), take 3 (drop 6 i)]) then Some (image_place R i) else None)"
proof -
  note P = image_id_parts [OF assms(1)]
  let ?p = "path @ ''/'' @ take 3 i @ ''/'' @ take 3 (drop 3 i) @ ''/'' @ take 3 (drop 6 i) @ ''/'' @ drop 9 i @ ''.jpg''"
  have ne: "path \<noteq> ''''" and w: "walk (dirs F) (if hd path = CHR ''/'' then [] else cwd F) (split_slash path) = Some R"
    using assms(2) by (auto simp: resolve_def split: if_splits)
  have "split_slash ?p = split_slash path @ [take 3 i, take 3 (drop 3 i), take 3 (drop 6 i), drop 9 i @ ''.jpg'']"
    using P by (simp add: split_slash_sep split_slash_word)
  then have "resolve F ?p = walk (dirs F) R [take 3 i, take 3 (drop 3 i), take 3 (drop 6 i), drop 9 i @ ''.jpg'']"
    using ne w by (simp add: resolve_def walk_append del: walk.simps)
  then show ?thesis using P assms(1) by (auto simp: imageID2Path_def image_id_def image_place_def walk_name simp del: walk.simps(2))
qed

section \<open>Saving and serving\<close>

text \<open>A file system in which what is named has a directory above it, and no place is a directory and a file.\<close>

definition fs_ok :: "files \<Rightarrow> bool" where
  "fs_ok F \<longleftrightarrow> (\<forall>q c. dirs F (q @ [c]) \<or> contents F (q @ [c]) \<noteq> None \<longrightarrow> dirs F q) \<and> (\<forall>q. dirs F q \<longrightarrow> contents F q = None)"

lemma fs_ok_up: "fs_ok F \<Longrightarrow> dirs F (q @ [c]) \<or> contents F (q @ [c]) \<noteq> None \<Longrightarrow> dirs F q"
  unfolding fs_ok_def by blast

lemma fs_ok_file: "fs_ok F \<Longrightarrow> dirs F q \<Longrightarrow> contents F q = None"
  unfolding fs_ok_def by blast

text \<open>The directory \<open>R\<close> holds portraits: files in the fourth level only, directories in the three above.\<close>

definition tree_ok :: "files \<Rightarrow> string list \<Rightarrow> bool" where
  "tree_ok F R \<longleftrightarrow> dirs F R \<and> (\<forall>q. (dirs F (R @ q) \<longrightarrow> length q \<le> 3) \<and> (contents F (R @ q) \<noteq> None \<longrightarrow> length q = 4))"

lemma download_eq:
  assumes "image_id i" and "resolve F path = Some R" and "fs_ok F" and "tree_ok F R"
  shows "downloadHandler F path i =
    Some (case contents F (image_place R i) of None \<Rightarrow> ImageNotFound | Some bs \<Rightarrow> ServeFile bs)"
proof -
  let ?a = "take 3 i" and ?b = "take 3 (drop 3 i)" and ?c = "take 3 (drop 6 i)" and ?e = "drop 9 i @ ''.jpg''"
  obtain p where p: "imageID2Path path i = Some p" "resolve F p = (if dirs F R \<and> dirs F (R @ [?a]) \<and> dirs F (R @ [?a, ?b]) \<and>
      dirs F (R @ [?a, ?b, ?c]) then Some (image_place R i) else None)" using image_resolve [OF assms(1,2)] by blast
  have up: "contents F (image_place R i) \<noteq> None \<Longrightarrow> dirs F (R @ [?a, ?b, ?c])"
    "dirs F (R @ [?a, ?b, ?c]) \<Longrightarrow> dirs F (R @ [?a, ?b])" "dirs F (R @ [?a, ?b]) \<Longrightarrow> dirs F (R @ [?a])"
    using assms(3) unfolding fs_ok_def image_place_def by (metis append.assoc append_Cons append_Nil)+
  have "\<not> dirs F (image_place R i)" using assms(4) by (auto simp: tree_ok_def image_place_def)
  moreover have "dirs F R" using assms(4) by (simp add: tree_ok_def)
  ultimately show ?thesis using p up assms(1)
    by (auto simp: downloadHandler_def fileExist_def os_exists_def image_id_def split: option.splits)
qed

lemma makeImageID_ok: "\<exists>i. makeImageID r = Some i \<and> image_id i"
proof -
  have "unat r < 2 ^ 64" using unsigned_less [of r, where ?'a = nat] by simp
  also have "(2 :: nat) ^ 64 \<le> 62 ^ 11" by simp
  finally have le: "length (Base62encode r) \<le> 11" by (rule length_encode)
  have "set (Base62encode r) \<subseteq> set base"
  proof (induction r rule: Base62encode.induct)
    case (1 num)
    have "unat (num mod 62) < 62" by (simp add: unat_mod)
    then have "base ! unat (num mod 62) \<in> set base" by (simp add: length_base)
    then show ?case using 1 by (subst Base62encode.simps) (auto simp: Let_def)
  qed
  moreover have "CHR ''/'' \<notin> set base" by (simp add: base_def)
  ultimately have "CHR ''/'' \<notin> set (Base62encode r)" by blast
  then show ?thesis using le by (auto simp: makeImageID_def Let_def image_id_def dest: in_set_takeD)
qed

text \<open>The search returns as soon as the random numbers give an unused id, and returns an unused one.\<close>

lemma unused_id_returns:
  assumes "makeImageID (rnd (n + k)) = Some i" and "imageID2Path path i = Some p" and "\<not> fileExist F p"
  shows "\<exists>j q. unused_id F path rnd n = Some j \<and> image_id j \<and> imageID2Path path j = Some q \<and> \<not> fileExist F q"
  using assms
proof (induction k arbitrary: n)
  case 0
  then have "image_id i" using makeImageID_ok [of "rnd n"] by auto
  then show ?case using 0 by (subst unused_id.simps) simp
next
  case (Suc k)
  obtain j where j: "makeImageID (rnd n) = Some j" "image_id j" using makeImageID_ok by blast
  then obtain q where q: "imageID2Path path j = Some q" by (auto simp: imageID2Path_def image_id_def)
  show ?case
  proof (cases "fileExist F q")
    case True
    then have "unused_id F path rnd n = unused_id F path rnd (Suc n)" using j q by (subst unused_id.simps) simp
    then show ?thesis using Suc.IH [of "Suc n"] Suc.prems by simp
  next
    case False
    then show ?thesis using j q by (subst unused_id.simps) simp
  qed
qed

lemma make_dirs_existing:
  assumes "\<And>q. dirs F q \<Longrightarrow> contents F q = None" and "walk (dirs F) q cs = Some r" and "dirs F r"
  shows "make_dirs q (cs @ ds) F = make_dirs r ds F"
  using assms(2)
proof (induction cs arbitrary: q)
  case (Cons c cs)
  then have "dirs F q" by (auto split: if_splits)
  then have "contents F q = None" "(dirs F)(q := True) = dirs F" using assms(1) by (auto simp: fun_upd_idem)
  then show ?case using Cons by (auto split: if_splits)
qed simp

lemma make_dirs_name:
  "length c \<ge> 3 \<Longrightarrow> make_dirs q (c # cs) F =
     (if contents F q \<noteq> None then (False, F) else make_dirs (q @ [c]) cs (F\<lparr>dirs := (dirs F)(q := True)\<rparr>))"
  by auto

text \<open>\<open>buildTree\<close> makes the three directories.\<close>

definition with_dirs :: "files \<Rightarrow> string list \<Rightarrow> string \<Rightarrow> files" where
  "with_dirs F R i = F\<lparr>dirs := (dirs F)(R @ [take 3 i] := True, R @ [take 3 i, take 3 (drop 3 i)] := True,
     R @ [take 3 i, take 3 (drop 3 i), take 3 (drop 6 i)] := True)\<rparr>"

lemma buildTree_ok:
  assumes "image_id i" and "resolve F path = Some R" and "fs_ok F" and "tree_ok F R"
  shows "buildTree path i F = Some (True, with_dirs F R i)"
proof -
  note P = image_id_parts [OF assms(1)]
  let ?a = "take 3 i" and ?b = "take 3 (drop 3 i)" and ?c = "take 3 (drop 6 i)"
  have ne: "path \<noteq> ''''" and w: "walk (dirs F) (if hd path = CHR ''/'' then [] else cwd F) (split_slash path) = Some R"
    using assms(2) by (auto simp: resolve_def split: if_splits)
  have R: "dirs F R" using assms(4) by (simp add: tree_ok_def)
  have N: "contents F (R @ q) = None" if "length q \<noteq> 4" for q using assms(4) that unfolding tree_ok_def by blast
  have "split_slash (path @ ''/'' @ ?a @ ''/'' @ ?b @ ''/'' @ ?c) = split_slash path @ [?a, ?b, ?c]"
    using P by (simp add: split_slash_sep split_slash_word)
  moreover have "make_dirs q (split_slash path @ [?a, ?b, ?c]) F = make_dirs R [?a, ?b, ?c] F"
    if "walk (dirs F) q (split_slash path) = Some R" for q
    by (rule make_dirs_existing [OF fs_ok_file [OF assms(3)] that R])
  moreover have "make_dirs R [?a, ?b, ?c] F = (True, with_dirs F R i)"
    using P N [of "[]"] N [of "[?a]"] N [of "[?a, ?b]"] N [of "[?a, ?b, ?c]"] R
    by (simp add: with_dirs_def fun_upd_idem make_dirs_name del: make_dirs.simps(2))
  ultimately show ?thesis using ne w assms(1) by (simp add: buildTree_def os_MkdirAll_def image_id_def)
qed

lemma with_dirs_ok:
  assumes "image_id i" and "resolve F path = Some R" and "fs_ok F" and "tree_ok F R"
  shows "fs_ok (with_dirs F R i) \<and> tree_ok (with_dirs F R i) R \<and> resolve (with_dirs F R i) path = Some R"
proof -
  let ?D = "{R @ [take 3 i], R @ [take 3 i, take 3 (drop 3 i)], R @ [take 3 i, take 3 (drop 3 i), take 3 (drop 6 i)]}"
  have D: "dirs (with_dirs F R i) q \<longleftrightarrow> q \<in> ?D \<or> dirs F q" for q by (auto simp: with_dirs_def)
  have C [simp]: "contents (with_dirs F R i) = contents F" "cwd (with_dirs F R i) = cwd F" by (simp_all add: with_dirs_def)
  have R: "dirs F R" using assms(4) by (simp add: tree_ok_def)
  have up: "dirs (with_dirs F R i) q" if "dirs (with_dirs F R i) (q @ [c]) \<or> contents F (q @ [c]) \<noteq> None" for q c
  proof (cases "q @ [c] \<in> ?D")
    case True
    then have "q \<in> insert R ?D" by (auto simp flip: append.assoc simp: append_eq_append_conv2)
    then show ?thesis using D R by auto
  next
    case False
    then show ?thesis using that D fs_ok_up [OF assms(3)] by blast
  qed
  have "contents F (R @ q) = None" if "length q \<noteq> 4" for q using assms(4) that unfolding tree_ok_def by blast
  then have file': "contents F q = None" if "dirs (with_dirs F R i) q" for q
    using that D fs_ok_file [OF assms(3), of q] by auto
  have "fs_ok (with_dirs F R i)" unfolding fs_ok_def C using up file' by blast
  moreover have "tree_ok (with_dirs F R i) R" unfolding tree_ok_def C using assms(4) D by (auto simp: tree_ok_def)
  moreover have "walk (dirs (with_dirs F R i)) q cs = Some r" if "walk (dirs F) q cs = Some r" for q cs r
    using that by (induction cs arbitrary: q) (auto simp: D split: if_splits)
  then have "resolve (with_dirs F R i) path = Some R" using assms(2) unfolding resolve_def C by (simp split: if_splits)
  ultimately show ?thesis by blast
qed

lemma image_place_inj: "image_id i \<Longrightarrow> image_id j \<Longrightarrow> image_place R i = image_place R j \<Longrightarrow> i = j"
proof -
  assume "image_place R i = image_place R j"
  then have "take 3 i @ take 3 (drop 3 i) @ take 3 (drop 6 i) @ drop 9 i = take 3 j @ take 3 (drop 3 j) @ take 3 (drop 6 j) @ drop 9 j"
    by (simp add: image_place_def)
  moreover have "take 3 k @ take 3 (drop 3 k) @ take 3 (drop 6 k) @ drop 9 k = k" for k :: string
    using append_take_drop_id [of 3 k] append_take_drop_id [of 3 "drop 3 k"] append_take_drop_id [of 3 "drop 6 k"] by simp
  ultimately show "i = j" by metis
qed

text \<open>The state after a portrait \<open>i\<close> has been stored.\<close>

definition stored :: "files \<Rightarrow> string list \<Rightarrow> string \<Rightarrow> string \<Rightarrow> files" where
  "stored F R i bs = (with_dirs F R i)\<lparr>contents := (contents F)(image_place R i \<mapsto> bs)\<rparr>"

lemma stored_ok:
  assumes "image_id i" and "resolve F path = Some R" and "fs_ok F" and "tree_ok F R"
  shows "fs_ok (stored F R i bs) \<and> tree_ok (stored F R i bs) R \<and> resolve (stored F R i bs) path = Some R"
proof -
  let ?G = "with_dirs F R i"
  have W: "fs_ok ?G" "tree_ok ?G R" "resolve ?G path = Some R" using with_dirs_ok [OF assms] by auto
  have S: "dirs (stored F R i bs) = dirs ?G" "cwd (stored F R i bs) = cwd ?G"
    "contents (stored F R i bs) = (contents ?G)(image_place R i \<mapsto> bs)" by (simp_all add: stored_def with_dirs_def)
  have above: "dirs ?G q" if "image_place R i = q @ [c]" for q c using that by (auto simp: image_place_def with_dirs_def)
  have "\<not> dirs ?G (image_place R i)" using W(2) by (auto simp: tree_ok_def image_place_def)
  then have "fs_ok (stored F R i bs)" unfolding fs_ok_def S
    using fs_ok_up [OF W(1)] fs_ok_file [OF W(1)] above by (metis fun_upd_apply)
  moreover have "tree_ok (stored F R i bs) R" using W(2) unfolding tree_ok_def S by (auto simp: image_place_def)
  moreover have "resolve (stored F R i bs) path = Some R" using W(3) unfolding resolve_def S .
  ultimately show ?thesis by blast
qed

lemma SaveImage_stored:
  assumes "resolve F path = Some R" and "fs_ok F" and "tree_ok F R" and "upload \<noteq> ''''"
    and "makeImageID (rnd k) = Some i" and "imageID2Path path i = Some p" and "\<not> fileExist F p"
  shows "\<exists>j. SaveImage path upload rnd F = Some (Inr j, stored F R j upload) \<and> image_id j \<and>
    downloadHandler F path j = Some ImageNotFound"
proof -
  obtain j q where j: "unused_id F path rnd 0 = Some j" "image_id j" "imageID2Path path j = Some q" "\<not> fileExist F q"
    using unused_id_returns [of rnd 0 k i path p F] assms(5-7) by auto
  let ?G = "with_dirs F R j"
  have W: "fs_ok ?G" "tree_ok ?G R" "resolve ?G path = Some R" using with_dirs_ok [OF j(2) assms(1-3)] by auto
  have found: "downloadHandler F path j = Some ImageNotFound" using j by (simp add: downloadHandler_def image_id_def)
  then have new: "contents F (image_place R j) = None" using download_eq [OF j(2) assms(1-3)] by (auto split: option.splits)
  have "resolve ?G q = Some (image_place R j)" "dirs ?G (butlast (image_place R j))"
    using image_resolve [OF j(2) W(3)] j(3) W(2) by (auto simp: with_dirs_def tree_ok_def image_place_def butlast_append split: if_splits)
  moreover have "\<not> dirs ?G (image_place R j)" using W(2) by (auto simp: tree_ok_def image_place_def)
  ultimately have "os_open_write False q ?G = Some (image_place R j, ?G\<lparr>contents := (contents ?G)(image_place R j \<mapsto> '''')\<rparr>)"
    using new by (auto simp: os_open_write_def with_dirs_def image_place_def)
  then have "SaveImage path upload rnd F = Some (Inr j, stored F R j upload)"
    using j assms(4) buildTree_ok [OF j(2) assms(1-3)] by (simp add: SaveImage_def io_Copy_def stored_def with_dirs_def)
  then show ?thesis using j(2) found by blast
qed

text \<open>
  C28.  A portrait that is uploaded is found again: as long as the random numbers give some unused id, \<open>SaveImage\<close> returns
  an id that was unused before, the download of that id then serves exactly the uploaded bytes, and every other portrait
  is served as before.  The store is in order again, so the same holds for the next upload.
\<close>

theorem SaveImage_download:
  assumes "resolve F path = Some R" and "fs_ok F" and "tree_ok F R" and "upload \<noteq> ''''"
    and "makeImageID (rnd k) = Some i" and "imageID2Path path i = Some p" and "\<not> fileExist F p"
  shows "\<exists>j G. SaveImage path upload rnd F = Some (Inr j, G) \<and> image_id j \<and>
    downloadHandler F path j = Some ImageNotFound \<and> downloadHandler G path j = Some (ServeFile upload) \<and>
    (\<forall>l. image_id l \<and> l \<noteq> j \<longrightarrow> downloadHandler G path l = downloadHandler F path l) \<and>
    resolve G path = Some R \<and> fs_ok G \<and> tree_ok G R"
proof -
  obtain j where j: "SaveImage path upload rnd F = Some (Inr j, stored F R j upload)" "image_id j"
    "downloadHandler F path j = Some ImageNotFound" using SaveImage_stored [where rnd = rnd and k = k, OF assms] by blast
  let ?G = "stored F R j upload"
  have ok: "fs_ok ?G" "tree_ok ?G R" "resolve ?G path = Some R" using stored_ok [OF j(2) assms(1-3)] by auto
  have "contents ?G = (contents F)(image_place R j \<mapsto> upload)" by (simp add: stored_def)
  then have "downloadHandler ?G path j = Some (ServeFile upload)"
    and "\<And>l. image_id l \<Longrightarrow> l \<noteq> j \<Longrightarrow> downloadHandler ?G path l = downloadHandler F path l"
    using download_eq [OF _ ok(3,1,2)] download_eq [OF _ assms(1-3)] j(2) image_place_inj [OF _ j(2), of _ R]
    by (simp, metis fun_upd_apply)
  then show ?thesis using j ok by blast
qed

definition empty_store :: files where
  "empty_store = \<lparr>dirs = (\<lambda>q. q \<in> {[], [''img'']}), contents = Map.empty, cwd = []\<rparr>"

lemma empty_store_ok:
  "resolve empty_store ''img'' = Some [''img'']" "fs_ok empty_store" "tree_ok empty_store [''img'']"
  "makeImageID 0 = Some ''00000000000''" "imageID2Path ''img'' ''00000000000'' = Some ''img/000/000/000/00.jpg''"
  "\<not> fileExist empty_store ''img/000/000/000/00.jpg''"
  by (simp_all add: empty_store_def resolve_def fs_ok_def tree_ok_def makeImageID_def Base62encode.simps imageID2Path_def
      fileExist_def os_exists_def numeral_eq_Suc)

theorem SaveImage_download_witness:
  "\<exists>j G. SaveImage ''img'' ''JFIF'' (\<lambda>_. 0) empty_store = Some (Inr j, G) \<and> downloadHandler G ''img'' j = Some (ServeFile ''JFIF'')"
proof -
  have "''JFIF'' \<noteq> ''''" by simp
  then show ?thesis
    using SaveImage_download [where rnd = "\<lambda>_. 0" and k = 0 and path = "''img''", OF empty_store_ok(1-3) _ empty_store_ok(4-6)] by blast
qed

section \<open>Uploads of administrators\<close>

definition storage :: string where
  "storage = ''./AmazeUI/assets/files''"

text \<open>\<open>Delete\<close>: errors are only printed.\<close>

fun Files_Delete :: "string list \<Rightarrow> files \<Rightarrow> files" where
  "Files_Delete [] F = F"
| "Files_Delete (file # fl) F =
     Files_Delete fl (case os_Remove (storage @ ''/'' @ file) F of Some G \<Rightarrow> G | None \<Rightarrow> F)"

text \<open>
  \<open>List\<close>: \<open>seen\<close> are the entries \<open>filepath.Walk\<close> visits, with name, whether they are directories, and size; \<open>None\<close> is an
  entry without information, which ends the walk.  A size is shown in units of 1024 bytes.
\<close>

fun Files_List :: "(string \<times> bool \<times> nat) option list \<Rightarrow> (string \<times> string) list" where
  "Files_List [] = []"
| "Files_List (None # seen) = []"
| "Files_List (Some (name, isDir, sz) # seen) =
     (if isDir then [] else [(name, fmt_nat (sz div 1024))]) @ Files_List seen"

text \<open>
  \<open>Upload\<close>: the loop over the uploaded files, each with its name and its bytes if it can be opened, and the frame that
  changes the working directory.  The errors of \<open>Chdir\<close> are ignored.
\<close>

fun upload_loop :: "(string \<times> string option) list \<Rightarrow> files \<Rightarrow> bool \<times> files" where
  "upload_loop [] F = (True, F)"
| "upload_loop ((newFileName, upload) # fhs) F = (case upload of
     None \<Rightarrow> (False, F)
   | Some bs \<Rightarrow> (case os_open_write True newFileName F of
       None \<Rightarrow> (False, F)
     | Some (q, G) \<Rightarrow> upload_loop fhs (io_Copy q bs G)))"

definition try_Chdir :: "string \<Rightarrow> files \<Rightarrow> files" where
  "try_Chdir p F = (case os_Chdir p F of Some G \<Rightarrow> G | None \<Rightarrow> F)"

definition Files_Upload :: "string \<Rightarrow> (string \<times> string option) list option \<Rightarrow> files \<Rightarrow> bool option \<times> files" where
  "Files_Upload currentDirectory form F = (case form of
     None \<Rightarrow> (None, F)
   | Some fhs \<Rightarrow> (case upload_loop fhs (try_Chdir storage F) of (good, G) \<Rightarrow> (Some good, try_Chdir currentDirectory G)))"

lemma upload_loop_frame: "upload_loop fhs F = (good, G) \<Longrightarrow> cwd G = cwd F \<and> dirs G = dirs F"
  by (induction fhs F rule: upload_loop.induct)
    (auto simp: os_open_write_def io_Copy_def split: option.splits if_splits)

lemma split_storage: "split_slash storage = [''.'', ''AmazeUI'', ''assets'', ''files'']"
  by (simp add: storage_def)

text \<open>A name with dots and slashes removes a file outside the directory of uploads.\<close>

lemma Files_Delete_escapes:
  assumes "fs_ok F" and "dirs F (cwd F @ [''AmazeUI'', ''assets'', ''files''])" and "contents F (cwd F @ [name]) \<noteq> None"
    and "CHR ''/'' \<notin> set name" and "name \<notin> {'''', ''.'', ''..''}"
  shows "contents (Files_Delete [''../../../'' @ name] F) = (contents F)(cwd F @ [name] := None)"
proof -
  let ?W = "cwd F"
  have D: "dirs F (?W @ [''AmazeUI'', ''assets''])" "dirs F (?W @ [''AmazeUI''])" "dirs F ?W"
    using assms(2) fs_ok_up [OF assms(1), of "?W @ [''AmazeUI'', ''assets'']" "''files''"]
      fs_ok_up [OF assms(1), of "?W @ [''AmazeUI'']" "''assets''"] fs_ok_up [OF assms(1), of ?W "''AmazeUI''"] by simp_all
  have "split_slash (storage @ ''/'' @ ''../../../'' @ name) = [''.'', ''AmazeUI'', ''assets'', ''files'', ''..'', ''..'', ''..'', name]"
    using assms(4) by (simp add: storage_def split_slash_word)
  then have "resolve F (storage @ ''/'' @ ''../../../'' @ name) = Some (?W @ [name])"
    using D assms(2,5) by (simp add: resolve_def storage_def butlast_append)
  then show ?thesis using assms(3) by (auto simp: os_Remove_def)
qed

text \<open>
  A server started as \<open>./admin\<close> has the directory \<open>.\<close> to go back to: after one upload it stays in the directory of uploads
  and finds none of its files any more.
\<close>

lemma Files_Upload_stays:
  assumes "resolve F storage = Some S" and "dirs F S" and "\<not> dirs F (S @ [''AmazeUI''])"
  shows "cwd (snd (Files_Upload ''.'' (Some fhs) F)) = S"
    and "CHR ''/'' \<notin> set name \<Longrightarrow> Files_Delete [name] (snd (Files_Upload ''.'' (Some fhs) F)) = snd (Files_Upload ''.'' (Some fhs) F)"
proof -
  obtain good G where G: "upload_loop fhs (F\<lparr>cwd := S\<rparr>) = (good, G)" by fastforce
  have f: "cwd G = S" "dirs G = dirs F" using upload_loop_frame [OF G] by simp_all
  have "resolve G ''.'' = Some S" using f assms(2) by (simp add: resolve_def)
  then have U: "snd (Files_Upload ''.'' (Some fhs) F) = G\<lparr>cwd := S\<rparr>"
    using G assms(1,2) f by (simp add: Files_Upload_def try_Chdir_def os_Chdir_def)
  then show "cwd (snd (Files_Upload ''.'' (Some fhs) F)) = S" by simp
  assume "CHR ''/'' \<notin> set name"
  then have "split_slash (storage @ ''/'' @ name) = [''.'', ''AmazeUI'', ''assets'', ''files'', name]"
    by (simp add: storage_def split_slash_word)
  then have "resolve (G\<lparr>cwd := S\<rparr>) (storage @ ''/'' @ name) = None"
    using f assms(2,3) by (simp add: resolve_def storage_def)
  then show "Files_Delete [name] (snd (Files_Upload ''.'' (Some fhs) F)) = snd (Files_Upload ''.'' (Some fhs) F)"
    using U by (simp add: os_Remove_def)
qed

end
