(* ===== verification/Helpers.thy ===== *)
theory Helpers
  imports ToConvert
begin

text \<open>
  Helpers of \<^verbatim>\<open>src/basic/utils\<close>: the AES cipher of \<^verbatim>\<open>aes.go\<close>, the filling of structures from maps of \<^verbatim>\<open>structandmap.go\<close>, and
  the codes of six letters (\<open>GetAuth\<close> of \<^verbatim>\<open>utils.go\<close>).  The block cipher and the random source are parameters.
\<close>

section \<open>AES in the CFB mode\<close>

text \<open>The stream of \<open>crypto/cipher\<close>: a block of the text is combined with the encryption of the previous cipher block.\<close>

definition xor_bytes :: "u8 list \<Rightarrow> u8 list \<Rightarrow> u8 list" where
  "xor_bytes a b = map2 (XOR) a b"

function cfb_encrypt :: "(u8 list \<Rightarrow> u8 list) \<Rightarrow> u8 list \<Rightarrow> u8 list \<Rightarrow> u8 list" where
  "cfb_encrypt E iv src =
     (if src = [] then []
      else (let c = xor_bytes (take 16 src) (E iv) in c @ cfb_encrypt E c (drop 16 src)))"
  by pat_completeness auto
termination by (relation "measure (\<lambda>(_, _, src). length src)") auto

function cfb_decrypt :: "(u8 list \<Rightarrow> u8 list) \<Rightarrow> u8 list \<Rightarrow> u8 list \<Rightarrow> u8 list" where
  "cfb_decrypt E iv src =
     (if src = [] then []
      else xor_bytes (take 16 src) (E iv) @ cfb_decrypt E (take 16 src) (drop 16 src))"
  by pat_completeness auto
termination by (relation "measure (\<lambda>(_, _, src). length src)") auto

declare cfb_encrypt.simps [simp del] cfb_decrypt.simps [simp del]

text \<open>\<open>SetKey\<close>: the longer keys are assigned and then overwritten; \<open>None\<close> is the panic for a short key.\<close>

definition SetKey :: "u8 list \<Rightarrow> u8 list option" where
  "SetKey key =
     (if length key < 16 then None
      else (let this = (if length key \<ge> 32 then take 32 key else []);
                this = (if length key \<ge> 24 then take 24 key else this);
                this = take 16 key
            in Some this))"

text \<open>
  \<open>Encrypt\<close> and \<open>Decrypt\<close> for the key of the receiver: \<open>None\<close> is the panic of the slice for the initial block, the error
  inside is that of \<open>aes.NewCipher\<close>.
\<close>

definition AesEncrypt_Encrypt :: "(u8 list \<Rightarrow> u8 list \<Rightarrow> u8 list) \<Rightarrow> u8 list \<Rightarrow> u8 list \<Rightarrow> (unit + u8 list) option" where
  "AesEncrypt_Encrypt aes key strMesg =
     (if length key < 16 then None
      else let iv = take 16 key in
        if length key \<notin> {16, 24, 32} then Some (Inl ()) else Some (Inr (cfb_encrypt (aes key) iv strMesg)))"

definition AesEncrypt_Decrypt :: "(u8 list \<Rightarrow> u8 list \<Rightarrow> u8 list) \<Rightarrow> u8 list \<Rightarrow> u8 list \<Rightarrow> (unit + u8 list) option" where
  "AesEncrypt_Decrypt aes key src =
     (if length key < 16 then None
      else let iv = take 16 key in
        if length key \<notin> {16, 24, 32} then Some (Inl ()) else Some (Inr (cfb_decrypt (aes key) iv src)))"

lemma length_xor_bytes [simp]: "length (xor_bytes a b) = min (length a) (length b)"
  by (simp add: xor_bytes_def)

lemma xor_bytes_twice: "length a \<le> length k \<Longrightarrow> xor_bytes (xor_bytes a k) k = a"
  by (rule nth_equalityI) (simp_all add: xor_bytes_def xor.assoc)

lemma cfb_length: "(\<And>b. length (E b) = 16) \<Longrightarrow> length (cfb_encrypt E iv src) = length src"
proof (induction E iv src rule: cfb_encrypt.induct)
  case (1 E iv src)
  then show ?case by (subst cfb_encrypt.simps) (auto simp: Let_def)
qed

lemma cfb_decrypt_chunk:
  "c \<noteq> [] \<Longrightarrow> length c = 16 \<or> length c \<le> 16 \<and> r = [] \<Longrightarrow> cfb_decrypt E iv (c @ r) = xor_bytes c (E iv) @ cfb_decrypt E c r"
  by (subst cfb_decrypt.simps) auto

lemma cfb_roundtrip: "(\<And>b. length (E b) = 16) \<Longrightarrow> cfb_decrypt E iv (cfb_encrypt E iv src) = src"
proof (induction E iv src rule: cfb_encrypt.induct)
  case (1 E iv src)
  show ?case
  proof (cases "src = []")
    case True
    then show ?thesis by (simp add: cfb_encrypt.simps cfb_decrypt.simps)
  next
    case False
    let ?c = "xor_bytes (take 16 src) (E iv)"
    have enc: "cfb_encrypt E iv src = ?c @ cfb_encrypt E ?c (drop 16 src)"
      using False by (subst cfb_encrypt.simps) (simp add: Let_def)
    have IH: "cfb_decrypt E ?c (cfb_encrypt E ?c (drop 16 src)) = drop 16 src"
      using 1 False by simp
    have len: "length ?c = min (length src) 16" using "1.prems" by simp
    have "?c \<noteq> []" using False len by (metis length_0_conv min_def zero_neq_numeral)
    moreover have "length ?c = 16 \<or> length ?c \<le> 16 \<and> cfb_encrypt E ?c (drop 16 src) = []"
      using len cfb_length [OF "1.prems", where iv = ?c and src = "drop 16 src"] by (cases "length src \<le> 16") auto
    ultimately show ?thesis using enc IH "1.prems" by (simp add: cfb_decrypt_chunk xor_bytes_twice)
  qed
qed

text \<open>
  With a key set by \<open>SetKey\<close>, \<open>Decrypt\<close> undoes \<open>Encrypt\<close> for every text and every block cipher.  Only the first 16
  bytes of the key count, also for the longer keys of 24 and 32 bytes.
\<close>

theorem Aes_roundtrip:
  assumes "\<And>k b. length (aes k b) = 16" and "SetKey key = Some k"
  shows "\<exists>c. AesEncrypt_Encrypt aes k m = Some (Inr c) \<and> length c = length m \<and> AesEncrypt_Decrypt aes k c = Some (Inr m) \<and>
    SetKey (take 16 key @ rest) = Some k"
proof -
  have k: "k = take 16 key" "length k = 16" using assms(2) by (auto simp: SetKey_def Let_def split: if_splits)
  have "SetKey (take 16 key @ rest) = Some k" using k by (auto simp: SetKey_def Let_def)
  then show ?thesis using k cfb_roundtrip [OF assms(1)] cfb_length [OF assms(1)]
    by (simp add: AesEncrypt_Encrypt_def AesEncrypt_Decrypt_def)
qed

text \<open>The initial block is the key itself, the same for every text: equal beginnings show in the cipher text.\<close>

lemma Aes_first_block:
  assumes "length m = 16" and "length n = 16" and "length (aes k (take 16 k)) = 16" and "length k = 16"
    and "AesEncrypt_Encrypt aes k m = Some (Inr c)" and "AesEncrypt_Encrypt aes k n = Some (Inr d)"
  shows "xor_bytes c d = xor_bytes m n"
proof -
  have one: "cfb_encrypt (aes k) (take 16 k) x = xor_bytes x (aes k (take 16 k))" if "length x = 16" for x
    using that by (auto simp: cfb_encrypt.simps [of _ _ x] cfb_encrypt.simps [of _ _ "[]"] Let_def)
  then have cd: "c = xor_bytes m (aes k (take 16 k))" "d = xor_bytes n (aes k (take 16 k))"
    using assms by (auto simp: AesEncrypt_Encrypt_def)
  show ?thesis unfolding cd using assms
    by (intro nth_equalityI) (auto simp: xor_bytes_def xor.assoc xor.left_commute xor.commute)
qed

theorem Aes_roundtrip_witness:
  "\<exists>c. AesEncrypt_Encrypt (\<lambda>k b. map (\<lambda>i. of_nat i + hd b) [0..<16]) (replicate 16 7) [1, 2, 3] = Some (Inr c) \<and>
     AesEncrypt_Decrypt (\<lambda>k b. map (\<lambda>i. of_nat i + hd b) [0..<16]) (replicate 16 7) c = Some (Inr [1, 2, 3])"
  using Aes_roundtrip [of "\<lambda>k b. map (\<lambda>i. of_nat i + hd b) [0..<16]" "replicate 32 7" "replicate 16 7" "[1, 2, 3]" "[]"]
  by (auto simp: SetKey_def Let_def)

section \<open>Structures from maps\<close>

text \<open>A field has its name, whether it is exported, and its value; types are compared by the kind of the value.\<close>

type_synonym struct = "(string \<times> bool \<times> gval) list"

datatype field_error = NoSuchField | CannotSet | TypeMismatch

definition setField :: "struct \<Rightarrow> string \<Rightarrow> gval \<Rightarrow> field_error + struct" where
  "setField obj name value = (case map_of obj name of
     None \<Rightarrow> Inl NoSuchField
   | Some (exported, old) \<Rightarrow>
       if \<not> exported then Inl CannotSet
       else if kind_of old \<noteq> kind_of value then Inl TypeMismatch
       else Inr (map (\<lambda>(n, e, v). (n, e, if n = name then value else v)) obj))"

definition RPCConfig :: "string \<Rightarrow> string \<Rightarrow> struct" where
  "RPCConfig i p = [(''ip'', False, GStr i), (''port'', False, GStr p)]"

text \<open>\<open>FillStruct\<close> walks the map in the order of the list.\<close>

fun FillStruct :: "(string \<times> string) list \<Rightarrow> struct \<Rightarrow> field_error option \<times> struct" where
  "FillStruct [] s = (None, s)"
| "FillStruct ((k, v) # m) s = (case setField s k (GStr v) of
     Inl e \<Rightarrow> (Some e, s)
   | Inr s \<Rightarrow> FillStruct m s)"

lemma setField_get:
  assumes "setField obj name value = Inr obj'"
  shows "map_of obj' n = (if n = name then Some (True, value) else map_of obj n)"
proof -
  obtain old where old: "map_of obj name = Some (True, old)"
    and obj': "obj' = map (\<lambda>(n, e, v). (n, e, if n = name then value else v)) obj"
    using assms by (auto simp: setField_def split: option.splits if_splits)
  have "map_of (map (\<lambda>(n, e, v). (n, e, if n = name then value else v)) obj) n =
      map_option (\<lambda>(e, v). (e, if n = name then value else v)) (map_of obj n)" by (induction obj) auto
  then show ?thesis using old obj' by (auto simp: option.map_id)
qed

text \<open>Both fields of \<open>RPCConfig\<close> are unexported: it cannot be filled from any map but the empty one.\<close>

lemma FillStruct_never: "FillStruct m (RPCConfig i p) = (None, s) \<longleftrightarrow> m = [] \<and> s = RPCConfig i p"
proof (cases m)
  case (Cons kv m')
  have "setField (RPCConfig i p) (fst kv) (GStr (snd kv)) = Inl (if fst kv \<in> {''ip'', ''port''} then CannotSet else NoSuchField)"
    by (auto simp: setField_def RPCConfig_def)
  then show ?thesis using Cons by (cases kv) simp
qed auto

section \<open>Codes\<close>

text \<open>\<open>GetAuth\<close> with the results of \<open>Intn(26)\<close> as the list \<open>intn\<close>.\<close>

definition GetAuth :: "(nat \<Rightarrow> nat) \<Rightarrow> nat list" where
  "GetAuth intn = map (\<lambda>i. intn i + 97) [0..<6]"

lemma GetAuth_letters: "(\<And>i. intn i < 122 - 97 + 1) \<Longrightarrow> length (GetAuth intn) = 6 \<and> set (GetAuth intn) \<subseteq> {97..122}"
proof -
  assume a: "\<And>i. intn i < 122 - 97 + 1"
  have "intn i + 97 \<le> 122" for i using a [of i] by simp
  then show ?thesis by (auto simp: GetAuth_def)
qed

end
