(* ===== verification/Calendar.thy ===== *)
theory Calendar
  imports TextRules
begin

text \<open>
  Clock and calendar of \<^verbatim>\<open>src/basic/utils/utils.go\<close>: the date of a time stamp, the text of a date and back, and the start of
  the day.  The local zone is a fixed offset \<open>z\<close> from UTC in seconds, and readings of the clock are arguments.  Package
  \<^verbatim>\<open>time\<close> computes with the Gregorian calendar in all years.
\<close>

section \<open>Dates\<close>

definition leap :: "int \<Rightarrow> bool" where
  "leap y \<longleftrightarrow> (y mod 4 = 0 \<and> y mod 100 \<noteq> 0) \<or> y mod 400 = 0"

definition days_before_year :: "int \<Rightarrow> int" where
  "days_before_year y = 365 * (y - 1) + (y - 1) div 4 - (y - 1) div 100 + (y - 1) div 400"

text \<open>The year and the day in it, from 0, of the \<open>n\<close>-th day since the first of January of year 1.\<close>

definition year_day :: "int \<Rightarrow> int \<times> int" where
  "year_day n =
     (let a = n div 146097; r = n mod 146097;
          b = min 3 (r div 36524); r = r - 36524 * b;
          c = r div 1461; r = r mod 1461;
          e = min 3 (r div 365)
      in (400 * a + 100 * b + 4 * c + e + 1, r - 365 * e))"

function month_day :: "int \<Rightarrow> int \<Rightarrow> int \<Rightarrow> int \<times> int" where
  "month_day y m d = (if m \<ge> 12 \<or> d < MonthDays y m then (m, d + 1) else month_day y (m + 1) (d - MonthDays y m))"
  by pat_completeness auto
termination by (relation "measure (\<lambda>(y, m, d). nat (12 - m))") auto

declare month_day.simps [simp del]

record date_time =
  dt_year :: int
  dt_month :: int
  dt_day :: int
  dt_hour :: int
  dt_min :: int
  dt_sec :: int

definition days_before_month :: "int \<Rightarrow> int \<Rightarrow> int" where
  "days_before_month y m = (\<Sum>k\<leftarrow>[1..m - 1]. MonthDays y k)"

text \<open>The date of a number of seconds since 1970, and \<open>time.Date\<close> in UTC.\<close>

definition date_of :: "int \<Rightarrow> date_time" where
  "date_of s =
     (let (y, yd) = year_day (s div 86400 + 719162); (m, d) = month_day y 1 yd; r = s mod 86400
      in \<lparr>dt_year = y, dt_month = m, dt_day = d, dt_hour = r div 3600, dt_min = r mod 3600 div 60, dt_sec = r mod 60\<rparr>)"

definition seconds_of :: "date_time \<Rightarrow> int" where
  "seconds_of t = (days_before_year (dt_year t) + days_before_month (dt_year t) (dt_month t) + dt_day t - 1 - 719162) * 86400 +
     dt_hour t * 3600 + dt_min t * 60 + dt_sec t"

section \<open>The functions of the package\<close>

text \<open>Readings of the clock are seconds since 1970, a month is its number.\<close>

definition Unix2Year :: "int \<Rightarrow> int \<Rightarrow> int" where "Unix2Year z t = dt_year (date_of (t + z))"
definition Unix2Month :: "int \<Rightarrow> int \<Rightarrow> int" where "Unix2Month z t = dt_month (date_of (t + z))"
definition Unix2Day :: "int \<Rightarrow> int \<Rightarrow> int" where "Unix2Day z t = dt_day (date_of (t + z))"

text \<open>\<open>TimestampToday\<close> reads the clock three times: for the year, the month and the day.\<close>

definition TimestampToday :: "int \<Rightarrow> int \<Rightarrow> int \<Rightarrow> int \<Rightarrow> int" where
  "TimestampToday z t_year t_month t_day =
     seconds_of \<lparr>dt_year = Unix2Year z t_year, dt_month = Unix2Month z t_month, dt_day = Unix2Day z t_day,
       dt_hour = 0, dt_min = 0, dt_sec = 0\<rparr> - z"

definition TimestampTodayStr :: "int \<Rightarrow> int \<Rightarrow> int \<Rightarrow> int \<Rightarrow> string" where
  "TimestampTodayStr z t_year t_month t_day = fmt_int (TimestampToday z t_year t_month t_day)"

definition TimestampYesterday :: "int \<Rightarrow> int \<Rightarrow> int \<Rightarrow> int \<Rightarrow> int" where
  "TimestampYesterday z t_year t_month t_day = TimestampToday z t_year t_month t_day - 86400"

definition TimestampTomorrow :: "int \<Rightarrow> int \<Rightarrow> int \<Rightarrow> int \<Rightarrow> int" where
  "TimestampTomorrow z t_year t_month t_day = TimestampToday z t_year t_month t_day + 86400"

text \<open>The layout \<open>2006-01-02 15:04:05\<close>: printing with leading zeros, and parsing.\<close>

definition pad :: "nat \<Rightarrow> int \<Rightarrow> string" where
  "pad w n = (let s = fmt_nat (nat \<bar>n\<bar>) in (if n < 0 then ''-'' else '''') @ replicate (w - length s) (CHR ''0'') @ s)"

definition format_date :: "date_time \<Rightarrow> string" where
  "format_date t = pad 4 (dt_year t) @ ''-'' @ pad 2 (dt_month t) @ ''-'' @ pad 2 (dt_day t)"

definition format_time :: "date_time \<Rightarrow> string" where
  "format_time t = format_date t @ '' '' @ pad 2 (dt_hour t) @ '':'' @ pad 2 (dt_min t) @ '':'' @ pad 2 (dt_sec t)"

definition dec_value :: "string \<Rightarrow> int" where
  "dec_value ds = int (foldl (\<lambda>a c. a * 10 + digit_val c) 0 ds)"

definition num :: "nat \<Rightarrow> string \<Rightarrow> (int \<times> string) option" where
  "num w s = (if length s < w \<or> \<not> list_all is_digit (take w s) then None else Some (dec_value (take w s), drop w s))"

text \<open>The hour may have one digit, spaces in the layout match any number of spaces, and a fraction of a second may follow.\<close>

definition num_hour :: "string \<Rightarrow> (int \<times> string) option" where
  "num_hour s = (case num 2 s of Some r \<Rightarrow> Some r | None \<Rightarrow> num 1 s)"

definition lit :: "char \<Rightarrow> string \<Rightarrow> string option" where
  "lit c s = (if s \<noteq> [] \<and> hd s = c then Some (tl s) else None)"

definition lit_space :: "string \<Rightarrow> string option" where
  "lit_space s = (if s \<noteq> [] \<and> hd s \<noteq> CHR '' '' then None else Some (dropWhile (\<lambda>c. c = CHR '' '') s))"

definition skip_fraction :: "string \<Rightarrow> string option" where
  "skip_fraction s =
     (if length s \<ge> 2 \<and> hd s = CHR ''.'' \<and> is_digit (s ! 1) then
        (if dec_value (takeWhile is_digit (tl s)) < 10 ^ 9 then Some (dropWhile is_digit (tl s)) else None)
      else Some s)"

definition time_Parse :: "string \<Rightarrow> date_time option" where
  "time_Parse s = do {
     (y, s) \<leftarrow> num 4 s; s \<leftarrow> lit (CHR ''-'') s; (m, s) \<leftarrow> num 2 s;
     if m < 1 \<or> 12 < m then None else do {
     s \<leftarrow> lit (CHR ''-'') s; (d, s) \<leftarrow> num 2 s; s \<leftarrow> lit_space s; (hour, s) \<leftarrow> num_hour s;
     if hour \<ge> 24 then None else do {
     s \<leftarrow> lit (CHR '':'') s; (min, s) \<leftarrow> num 2 s;
     if min \<ge> 60 then None else do {
     s \<leftarrow> lit (CHR '':'') s; (sec, s) \<leftarrow> num 2 s;
     if sec \<ge> 60 then None else do {
     s \<leftarrow> skip_fraction s;
     if s \<noteq> [] \<or> d < 1 \<or> d > MonthDays y m then None
     else Some \<lparr>dt_year = y, dt_month = m, dt_day = d, dt_hour = hour, dt_min = min, dt_sec = sec\<rparr> } } } }
   }"

definition Unix2Str :: "int \<Rightarrow> int \<Rightarrow> string" where
  "Unix2Str z t = format_time (date_of (t + z))"

definition DateStr :: "int \<Rightarrow> int \<Rightarrow> string" where
  "DateStr z t = format_date (date_of (t + z)) @ '' ''"

text \<open>\<open>Str2Unix\<close>: \<open>None\<close> is the error.  \<open>time.Parse\<close> without a zone gives a time in UTC.\<close>

definition Str2Unix :: "string \<Rightarrow> int option" where
  "Str2Unix t = map_option seconds_of (time_Parse t)"

section \<open>Dates and day numbers\<close>

lemma leap_MonthDays: "MonthDays y 2 = (if leap y then 29 else 28)"
  by (simp add: MonthDays_def leap_def)

lemma MonthDays_bound: "28 \<le> MonthDays y m \<and> MonthDays y m \<le> 31"
  by (simp add: MonthDays_def)

lemma min_quot:
  fixes r k w :: int
  assumes "0 \<le> r" and "r < w" and "0 < k" and "w \<le> 4 * k + 1"
  shows "0 \<le> min 3 (r div k)" and "min 3 (r div k) \<le> 3" and "0 \<le> r - k * min 3 (r div k)"
    and "min 3 (r div k) < 3 \<Longrightarrow> r - k * min 3 (r div k) < k" and "r - k * min 3 (r div k) \<le> k"
proof -
  define x where "x = r div k"
  define u where "u = r mod k"
  have x: "r = k * x + u" "0 \<le> u" "u < k" "0 \<le> x"
    using assms by (simp_all add: x_def u_def pos_imp_zdiv_nonneg_iff)
  have "0 \<le> r - k * min 3 x \<and> r - k * min 3 x \<le> k \<and> (min 3 x < 3 \<longrightarrow> r - k * min 3 x < k)"
  proof (cases "3 \<le> x")
    case True
    then have m: "min 3 x = 3" and "k * 3 \<le> k * x" using assms(3) by simp_all
    then show ?thesis unfolding m using x assms by (intro conjI impI) linarith+
  next
    case False
    then have m: "min 3 x = x" by simp
    show ?thesis unfolding m using x by (intro conjI impI) linarith+
  qed
  then show "0 \<le> min 3 (r div k)" "min 3 (r div k) \<le> 3" "0 \<le> r - k * min 3 (r div k)" "r - k * min 3 (r div k) \<le> k"
    "min 3 (r div k) < 3 \<Longrightarrow> r - k * min 3 (r div k) < k" using x(4) by (simp_all add: x_def)
qed

lemma year_day_ok:
  assumes "year_day n = (y, d)"
  shows "days_before_year y + d = n \<and> 0 \<le> d \<and> d < (if leap y then 366 else 365)"
proof -
  define a r where "a = n div 146097" and "r = n mod 146097"
  define b where "b = min 3 (r div 36524)"
  define q where "q = r - 36524 * b"
  define c s where "c = q div 1461" and "s = q mod 1461"
  define e where "e = min 3 (s div 365)"
  have y: "y = 400 * a + 100 * b + 4 * c + e + 1" and d: "d = s - 365 * e"
    using assms unfolding year_day_def Let_def a_def r_def b_def q_def c_def s_def e_def by (simp_all only: prod.inject)
  have n: "n = 146097 * a + r" "0 \<le> r" "r < 146097" by (simp_all add: a_def r_def)
  have b: "0 \<le> b" "b \<le> 3" "0 \<le> q" "b < 3 \<Longrightarrow> q < 36524" "q \<le> 36524"
    using min_quot [of r 36524 "36524 * 4 + 1"] n(2,3) by (simp_all add: b_def q_def)
  have c: "q = 1461 * c + s" "0 \<le> s" "s < 1461" by (simp_all add: c_def s_def)
  then have c': "0 \<le> c" "c \<le> 24" using b(3,5) by linarith+
  have e: "0 \<le> e" "e \<le> 3" "0 \<le> d" "e < 3 \<Longrightarrow> d < 365" "d \<le> 365"
    using min_quot [of s 365 1461] c(2,3) by (simp_all add: e_def d)
  have "(y - 1) div 4 = 100 * a + 25 * b + c" by (rule int_div_pos_eq [where r = e]) (use y e in simp_all)
  moreover have "(y - 1) div 100 = 4 * a + b" by (rule int_div_pos_eq [where r = "4 * c + e"]) (use y e c' in simp_all)
  moreover have "(y - 1) div 400 = a" by (rule int_div_pos_eq [where r = "100 * b + 4 * c + e"]) (use y b e c' in simp_all)
  ultimately have "days_before_year y = 365 * (y - 1) + (100 * a + 25 * b + c) - (4 * a + b) + a"
    by (simp only: days_before_year_def)
  then have "days_before_year y = 146097 * a + 36524 * b + 1461 * c + 365 * e" using y by simp
  moreover have "r = 1461 * c + s + 36524 * b" using c(1) q_def by simp
  ultimately have "days_before_year y + d = n" using d n(1) by simp
  moreover have "d < 365 \<or> leap y"
  proof (cases "e = 3 \<and> (c < 24 \<or> b = 3)")
    case True
    then have y4: "y = 4 * (100 * a + 25 * b + c + 1)" using y by simp
    then have "y mod 4 = 0" by simp
    moreover have "y mod 100 \<noteq> 0" if "c < 24"
    proof -
      have "y mod 100 = 4 * (c + 1)" using y4 that c'(1) by (intro int_mod_pos_eq [where q = "4 * a + b"]) auto
      then show ?thesis using c'(1) by simp
    qed
    moreover have "y mod 400 = 0" if "b = 3" "c = 24" using y4 that by simp
    ultimately show ?thesis using True c'(2) by (cases "c < 24") (auto simp: leap_def)
  next
    case False
    then show ?thesis using e b c c' d by (cases "e = 3") auto
  qed
  ultimately show ?thesis using e by auto
qed

lemma days_before_month_Suc: "1 \<le> m \<Longrightarrow> days_before_month y (m + 1) = days_before_month y m + MonthDays y m"
proof -
  assume "1 \<le> m"
  then have "[1..m + 1 - 1] = [1..m - 1] @ [m]" using upto_rec2 [of 1 m] by simp
  then show ?thesis by (simp add: days_before_month_def)
qed

lemma days_before_13: "days_before_month y 13 = (if leap y then 366 else 365)"
proof -
  have "[1..13 - 1 :: int] = [1, 2, 3, 4, 5, 6, 7, 8, 9, 10, 11, 12]" by (simp add: upto.simps)
  then show ?thesis unfolding days_before_month_def by (simp add: leap_MonthDays) (simp add: MonthDays_def)
qed

lemma month_day_ok:
  assumes "month_day y m d = (m', d')" and "1 \<le> m" and "m \<le> 12" and "0 \<le> d" and "days_before_month y m + d < days_before_month y 13"
  shows "days_before_month y m' + d' - 1 = days_before_month y m + d \<and> m \<le> m' \<and> m' \<le> 12 \<and> 1 \<le> d' \<and> d' \<le> MonthDays y m'"
  using assms
proof (induction y m d arbitrary: m' d' rule: month_day.induct)
  case (1 y m d)
  show ?case
  proof (cases "m \<ge> 12 \<or> d < MonthDays y m")
    case True
    moreover have "m \<ge> 12 \<Longrightarrow> d < MonthDays y m" using "1.prems"(3,5) days_before_month_Suc [of 12 y] by (cases "m = 12") auto
    ultimately show ?thesis using "1.prems" by (auto simp: month_day.simps [of y m d])
  next
    case False
    then have "month_day y (m + 1) (d - MonthDays y m) = (m', d')" using "1.prems"(1) by (simp add: month_day.simps [of y m d])
    then show ?thesis using "1.IH" [OF False] "1.prems" False days_before_month_Suc [of m y] by auto
  qed
qed

definition valid_date :: "date_time \<Rightarrow> bool" where
  "valid_date t \<longleftrightarrow> 1 \<le> dt_month t \<and> dt_month t \<le> 12 \<and> 1 \<le> dt_day t \<and> dt_day t \<le> MonthDays (dt_year t) (dt_month t) \<and>
     0 \<le> dt_hour t \<and> dt_hour t < 24 \<and> 0 \<le> dt_min t \<and> dt_min t < 60 \<and> 0 \<le> dt_sec t \<and> dt_sec t < 60"

lemma clock_split: "r div 3600 * 3600 + r mod 3600 div 60 * 60 + r mod 60 = r" for r :: int
proof -
  have "r mod 3600 mod 60 = r mod 60" by (rule mod_mod_cancel) simp
  then show ?thesis by (metis add.assoc div_mult_mod_eq)
qed

lemma date_of_clock:
  "dt_hour (date_of s) = s mod 86400 div 3600" "dt_min (date_of s) = s mod 86400 mod 3600 div 60" "dt_sec (date_of s) = s mod 86400 mod 60"
  unfolding date_of_def Let_def case_prod_beta by (simp_all only: date_time.simps)

lemma year_range:
  assumes "0 \<le> days_before_year y + d" and "days_before_year y + d < 3652059" and "0 \<le> d" and "d < 366"
  shows "1 \<le> y \<and> y \<le> 9999"
proof (rule ccontr)
  assume a: "\<not> (1 \<le> y \<and> y \<le> 9999)"
  have "y \<noteq> 0" "y \<noteq> 10000" using assms by (auto simp: days_before_year_def)
  then have "y < 0 \<or> y > 10000" using a by linarith
  define a b c where "a = (y - 1) div 4" and "b = (y - 1) div 100" and "c = (y - 1) div 400"
  have "4 * a \<le> y - 1 \<and> y - 1 < 4 * a + 4" "100 * b \<le> y - 1 \<and> y - 1 < 100 * b + 100" "400 * c \<le> y - 1 \<and> y - 1 < 400 * c + 400"
    unfolding a_def b_def c_def by linarith+
  moreover have "days_before_year y = 365 * (y - 1) + a - b + c" by (simp add: days_before_year_def a_def b_def c_def)
  ultimately show False using \<open>y < 0 \<or> y > 10000\<close> assms by auto
qed

text \<open>Every number of seconds has a valid date, which leads back to it.\<close>

lemma date_of_ok: "valid_date (date_of s) \<and> seconds_of (date_of s) = s"
proof -
  obtain y yd where y: "year_day (s div 86400 + 719162) = (y, yd)" by fastforce
  obtain m d where m: "month_day y 1 yd = (m, d)" by fastforce
  have Y: "days_before_year y + yd = s div 86400 + 719162" "0 \<le> yd" "yd < days_before_month y 13"
    using year_day_ok [OF y] by (auto simp: days_before_13)
  have "days_before_month y 1 = 0" by (simp add: days_before_month_def)
  then have M: "days_before_month y m + d - 1 = yd" "1 \<le> m" "m \<le> 12" "1 \<le> d" "d \<le> MonthDays y m"
    using month_day_ok [OF m] Y by auto
  define r where "r = s mod 86400"
  have r: "s = s div 86400 * 86400 + r" "0 \<le> r" "r < 86400" by (simp_all add: r_def)
  have h: "r = r div 3600 * 3600 + r mod 3600 div 60 * 60 + r mod 60" by (simp only: clock_split)
  have D: "date_of s = \<lparr>dt_year = y, dt_month = m, dt_day = d, dt_hour = r div 3600, dt_min = r mod 3600 div 60, dt_sec = r mod 60\<rparr>"
    by (simp add: date_of_def y m r_def Let_def)
  moreover have "days_before_year y + days_before_month y m + d - 1 - 719162 = s div 86400" using Y(1) M(1) by linarith
  ultimately have "seconds_of (date_of s) = s div 86400 * 86400 + r" using h by (simp add: seconds_of_def)
  moreover have "valid_date (date_of s)"
  proof -
    have "r div 3600 < 24" using r(3) by linarith
    moreover have "r mod 3600 < 3600" by simp
    then have "r mod 3600 div 60 < 60" by linarith
    ultimately show ?thesis using M r(2) unfolding D by (simp add: valid_date_def pos_imp_zdiv_nonneg_iff)
  qed
  ultimately show ?thesis using r(1) by simp
qed

section \<open>Text\<close>

lemma dec_value_append: "dec_value (a @ [c]) = dec_value a * 10 + int (digit_val c)"
  by (simp add: dec_value_def)

lemma dec_value_fmt: "dec_value (fmt_nat n) = int n"
proof (induction n rule: fmt_nat.induct)
  case (1 n)
  show ?case
  proof (cases "n < 10")
    case True
    then show ?thesis by (simp add: dec_value_def)
  next
    case False
    then have "dec_value (fmt_nat n) = int (n div 10) * 10 + int (n mod 10)"
      using 1 by (simp add: fmt_nat_large dec_value_append)
    also have "\<dots> = int (n div 10 * 10 + n mod 10)" by (simp only: of_nat_add of_nat_mult of_nat_numeral)
    finally show ?thesis by (simp only: div_mult_mod_eq)
  qed
qed

lemma dec_value_zeros: "dec_value (replicate k (CHR ''0'') @ s) = dec_value s"
proof -
  have "foldl (\<lambda>a c. a * 10 + digit_val c) 0 (replicate k (CHR ''0'')) = 0" by (induction k) (simp_all add: digit_val_def)
  then show ?thesis by (simp add: dec_value_def)
qed

lemma length_fmt_nat_width: "n < 10 ^ w \<Longrightarrow> 0 < w \<Longrightarrow> length (fmt_nat n) \<le> w"
proof (induction n arbitrary: w rule: fmt_nat.induct)
  case (1 n)
  show ?case
  proof (cases "n < 10")
    case True
    then show ?thesis using 1 by simp
  next
    case False
    obtain v where v: "w = Suc v" using 1 by (cases w) auto
    then have "n div 10 < 10 ^ v" using 1 by (simp add: less_mult_imp_div_less mult.commute)
    moreover from this have "0 < v" using False by (cases v) auto
    ultimately show ?thesis using 1 False v by (simp add: fmt_nat_large)
  qed
qed

lemma num_pad: "0 \<le> n \<Longrightarrow> n < 10 ^ w \<Longrightarrow> 0 < w \<Longrightarrow> num w (pad w n @ r) = Some (n, r)"
proof -
  assume n: "0 \<le> n" "n < 10 ^ w" "0 < w"
  let ?s = "fmt_nat (nat n)"
  have "nat n < 10 ^ w" using n by (simp add: nat_less_iff)
  then have "length ?s \<le> w" using length_fmt_nat_width n(3) by blast
  then have len: "length (pad w n) = w" using n(1) by (simp add: pad_def Let_def)
  have "list_all is_digit (pad w n)" using n(1) fmt_nat_digits by (auto simp: pad_def Let_def list_all_iff is_digit_def)
  moreover have "dec_value (pad w n) = n" using n(1) by (simp add: pad_def Let_def dec_value_zeros dec_value_fmt)
  ultimately show ?thesis using len by (simp add: num_def)
qed

lemma pad_digit: "0 \<le> n \<Longrightarrow> n < 10 ^ w \<Longrightarrow> 0 < w \<Longrightarrow> pad w n @ r \<noteq> [] \<and> is_digit (hd (pad w n @ r))"
proof -
  assume n: "0 \<le> n" "n < 10 ^ w" "0 < w"
  have "list_all is_digit (pad w n)" "pad w n \<noteq> []"
    using n(1) fmt_nat_digits by (auto simp: pad_def Let_def list_all_iff is_digit_def)
  then show ?thesis by (cases "pad w n") auto
qed

lemma lit_hit [simp]: "lit c (c # r) = Some r"
  by (simp add: lit_def)

lemma lit_space_pad: "0 \<le> n \<Longrightarrow> n < 10 ^ w \<Longrightarrow> 0 < w \<Longrightarrow> lit_space (CHR '' '' # pad w n @ r) = Some (pad w n @ r)"
proof -
  assume "0 \<le> n" "n < 10 ^ w" "0 < w"
  then obtain c s where "pad w n @ r = c # s" "is_digit c" using pad_digit [of n w r] by (cases "pad w n @ r") auto
  moreover from this have "c \<noteq> CHR '' ''" by (auto simp: is_digit_def)
  ultimately show ?thesis by (simp add: lit_space_def)
qed

text \<open>The text of a valid date of the years 0 to 9999 is parsed back to it.\<close>

lemma time_Parse_format:
  assumes "valid_date t" and "0 \<le> dt_year t" and "dt_year t \<le> 9999"
  shows "time_Parse (format_time t) = Some t"
proof -
  have b: "dt_day t < 100" "dt_month t < 100" "dt_hour t < 100" "dt_min t < 100" "dt_sec t < 100" "dt_year t < 10 ^ 4"
    using assms MonthDays_bound [of "dt_year t" "dt_month t"] by (auto simp: valid_date_def)
  have N: "num 2 (pad 2 n @ r) = Some (n, r)" if "0 \<le> n" "n < 100" for n r using num_pad [of n 2 r] that by simp
  have S: "lit_space (CHR '' '' # pad 2 n @ r) = Some (pad 2 n @ r)" if "0 \<le> n" "n < 100" for n r
    using lit_space_pad [of n 2 r] that by simp
  have "num 2 (pad 2 (dt_sec t)) = Some (dt_sec t, [])" using N [of "dt_sec t" "[]"] b assms(1) by (simp add: valid_date_def)
  then show ?thesis using assms b N S num_pad [of "dt_year t" 4]
    by (simp add: time_Parse_def format_time_def format_date_def num_hour_def valid_date_def skip_fraction_def)
qed

lemma year_of_date:
  assumes "- 62135596800 \<le> s" and "s < 253402300800"
  shows "1 \<le> dt_year (date_of s) \<and> dt_year (date_of s) \<le> 9999"
proof -
  obtain yd where yd: "year_day (s div 86400 + 719162) = (dt_year (date_of s), yd)"
    by (cases "year_day (s div 86400 + 719162)") (auto simp: date_of_def Let_def split: prod.splits)
  have n: "0 \<le> s div 86400 + 719162" "s div 86400 + 719162 < 3652059" using assms by simp_all
  then show ?thesis using year_day_ok [OF yd] by (intro year_range [where d = yd]) (auto split: if_splits)
qed

section \<open>Results\<close>

text \<open>
  C36.  A time stamp written with \<open>Unix2Str\<close> and read back with \<open>Str2Unix\<close> comes back shifted by the offset of the local
  zone, since the text is local time and is read as UTC: the two are inverse only in a zone without an offset.
\<close>

theorem Str2Unix_Unix2Str:
  assumes "- 62135596800 \<le> t + z" and "t + z < 253402300800"
  shows "Str2Unix (Unix2Str z t) = Some (t + z) \<and> (Str2Unix (Unix2Str z t) = Some t \<longleftrightarrow> z = 0)"
proof -
  let ?d = "date_of (t + z)"
  have "1 \<le> dt_year ?d \<and> dt_year ?d \<le> 9999" using year_of_date [OF assms] .
  then have "time_Parse (Unix2Str z t) = Some ?d" using time_Parse_format date_of_ok by (simp add: Unix2Str_def)
  then show ?thesis using date_of_ok [of "t + z"] by (auto simp: Str2Unix_def)
qed

theorem Str2Unix_Unix2Str_witness: "Str2Unix (Unix2Str 28800 0) = Some 28800"
  using Str2Unix_Unix2Str [of 0 28800] by simp

text \<open>
  If the three readings of the clock fall on one local day, \<open>TimestampToday\<close> is the midnight at which that day began.
\<close>

lemma TimestampToday_midnight:
  assumes "(t + z) div 86400 = (u + z) div 86400" and "(t + z) div 86400 = (v + z) div 86400"
  shows "TimestampToday z t u v = t - (t + z) mod 86400"
proof -
  let ?d = "date_of (t + z)"
  have day: "dt_year (date_of a) = dt_year (date_of b)" "dt_month (date_of a) = dt_month (date_of b)" "dt_day (date_of a) = dt_day (date_of b)"
    if "a div 86400 = b div 86400" for a b using that by (simp_all add: date_of_def Let_def split: prod.splits)
  have "TimestampToday z t u v = seconds_of (?d\<lparr>dt_hour := 0, dt_min := 0, dt_sec := 0\<rparr>) - z"
    using day [OF assms(1)] day [OF assms(2)]
    by (simp add: TimestampToday_def Unix2Year_def Unix2Month_def Unix2Day_def seconds_of_def)
  also have "\<dots> = seconds_of ?d - (dt_hour ?d * 3600 + dt_min ?d * 60 + dt_sec ?d) - z" by (simp add: seconds_of_def)
  also have "dt_hour ?d * 3600 + dt_min ?d * 60 + dt_sec ?d = (t + z) mod 86400"
    unfolding date_of_clock by (rule clock_split)
  finally show ?thesis using date_of_ok [of "t + z"] by simp
qed

text \<open>
  Around New Year the readings can differ: with the year read at 23:59:59 on the last of December 2016 and the rest one
  second later, the day is said to have begun a year earlier, on the first of January 2016.
\<close>

lemma TimestampToday_new_year: "TimestampToday 0 1483228799 1483228800 1483228800 = 1451606400"
  by code_simp

end
