(* ===== verification/Debug.thy ===== *)
theory Debug
  imports Calendar
begin

text \<open>
  The dump of a value of \<^verbatim>\<open>src/basic/utils/debug.go\<close>, and the paths of pictures and the codes of invitations of
  \<^verbatim>\<open>src/basic/utils/utils.go\<close>.  The tree \<open>rvalue\<close> is what \<open>reflect\<close> shows of a value without a cycle of pointers: its kind,
  the text of its type (\<open>%T\<close>) and, for the other kinds, of the value (\<open>%#v\<close>).
\<close>

section \<open>The dump\<close>

text \<open>The key of an entry of a map is \<open>None\<close> when it is not a string; \<open>RInvalid\<close> is the value behind a nil pointer, a nil
  interface, or a field that is not exported.\<close>

datatype rvalue =
    RSlice string "rvalue list"
  | RMap string "(string option \<times> rvalue) list"
  | RPtr string rvalue
  | RStruct string "(string \<times> rvalue) list"
  | RBasic string string
  | RInvalid

record variable =
  var_Out :: string
  var_indent :: int

definition newline :: string where "newline = [CHR 0x0A]"

function indent_loop :: "int \<Rightarrow> variable \<Rightarrow> variable" where
  "indent_loop i v = (if i < var_indent v then indent_loop (i + 1) (v\<lparr>var_Out := var_Out v @ ''  ''\<rparr>) else v)"
  by pat_completeness auto
termination by (relation "measure (\<lambda>(i, v). nat (var_indent v - i))") auto

declare indent_loop.simps [simp del]

definition printIndent :: "variable \<Rightarrow> variable" where
  "printIndent v = indent_loop 0 v"

definition printType :: "string \<Rightarrow> string \<Rightarrow> variable \<Rightarrow> variable" where
  "printType name ty v =
     (let v = printIndent v in v\<lparr>var_Out := var_Out v @ name @ ''('' @ ty @ '')'' @ newline\<rparr>)"

definition printValue :: "string \<Rightarrow> string \<Rightarrow> string \<Rightarrow> variable \<Rightarrow> variable" where
  "printValue name ty text v =
     (let v = printIndent v in v\<lparr>var_Out := var_Out v @ name @ ''('' @ ty @ '') '' @ text @ newline\<rparr>)"

definition deeper :: "variable \<Rightarrow> variable" where "deeper v = v\<lparr>var_indent := var_indent v + 1\<rparr>"
definition higher :: "variable \<Rightarrow> variable" where "higher v = v\<lparr>var_indent := var_indent v - 1\<rparr>"

text \<open>\<open>dump\<close> with its three loops; \<open>None\<close> is the panic of the type assertion on the key of a map.\<close>

fun dump_value :: "rvalue \<Rightarrow> string \<Rightarrow> variable \<Rightarrow> variable option"
  and dump_elems :: "nat \<Rightarrow> rvalue list \<Rightarrow> variable \<Rightarrow> variable option"
  and dump_keys :: "(string option \<times> rvalue) list \<Rightarrow> variable \<Rightarrow> variable option"
  and dump_fields :: "(string \<times> rvalue) list \<Rightarrow> variable \<Rightarrow> variable option" where
  "dump_value (RSlice ty xs) name v = map_option higher (dump_elems 0 xs (printType name ty (deeper v)))"
| "dump_value (RMap ty kvs) name v = map_option higher (dump_keys kvs (printType name ty (deeper v)))"
| "dump_value (RPtr ty x) name v = map_option higher (dump_value x name (printType name ty (deeper v)))"
| "dump_value (RStruct ty fs) name v = map_option higher (dump_fields fs (printType name ty (deeper v)))"
| "dump_value (RBasic ty text) name v = Some (higher (printValue name ty text (deeper v)))"
| "dump_value RInvalid name v = Some (higher (printValue name ''string'' [CHR 0x22, CHR 0x22] (deeper v)))"
| "dump_elems i [] v = Some v"
| "dump_elems i (x # xs) v = Option.bind (dump_value x (fmt_nat i) v) (dump_elems (i + 1) xs)"
| "dump_keys [] v = Some v"
| "dump_keys ((k, x) # kvs) v = (case k of None \<Rightarrow> None | Some k \<Rightarrow> Option.bind (dump_value x k v) (dump_keys kvs))"
| "dump_fields [] v = Some v"
| "dump_fields ((n, x) # fs) v = Option.bind (dump_value x n v) (dump_fields fs)"

definition Sdump :: "rvalue \<Rightarrow> string option" where
  "Sdump x = map_option var_Out (dump_value x '''' \<lparr>var_Out = '''', var_indent = -1\<rparr>)"

section \<open>What is printed\<close>

text \<open>The lines of a dump with their depths, defined on the tree alone.\<close>

fun lines_of :: "nat \<Rightarrow> string \<Rightarrow> rvalue \<Rightarrow> (nat \<times> string) list"
  and elem_lines :: "nat \<Rightarrow> nat \<Rightarrow> rvalue list \<Rightarrow> (nat \<times> string) list"
  and key_lines :: "nat \<Rightarrow> (string option \<times> rvalue) list \<Rightarrow> (nat \<times> string) list"
  and field_lines :: "nat \<Rightarrow> (string \<times> rvalue) list \<Rightarrow> (nat \<times> string) list" where
  "lines_of d name (RSlice ty xs) = (d, name @ ''('' @ ty @ '')'') # elem_lines (Suc d) 0 xs"
| "lines_of d name (RMap ty kvs) = (d, name @ ''('' @ ty @ '')'') # key_lines (Suc d) kvs"
| "lines_of d name (RPtr ty x) = (d, name @ ''('' @ ty @ '')'') # lines_of (Suc d) name x"
| "lines_of d name (RStruct ty fs) = (d, name @ ''('' @ ty @ '')'') # field_lines (Suc d) fs"
| "lines_of d name (RBasic ty text) = [(d, name @ ''('' @ ty @ '') '' @ text)]"
| "lines_of d name RInvalid = [(d, name @ ''(string) '' @ [CHR 0x22, CHR 0x22])]"
| "elem_lines d i [] = []"
| "elem_lines d i (x # xs) = lines_of d (fmt_nat i) x @ elem_lines d (i + 1) xs"
| "key_lines d [] = []"
| "key_lines d ((k, x) # kvs) = lines_of d (case k of None \<Rightarrow> '''' | Some k \<Rightarrow> k) x @ key_lines d kvs"
| "field_lines d [] = []"
| "field_lines d ((n, x) # fs) = lines_of d n x @ field_lines d fs"

primrec spaces :: "nat \<Rightarrow> string" where
  "spaces 0 = ''''"
| "spaces (Suc n) = ''  '' @ spaces n"

definition layout :: "(nat \<times> string) list \<Rightarrow> string" where
  "layout ls = concat (map (\<lambda>(d, l). spaces d @ l @ newline) ls)"

fun string_keys :: "rvalue \<Rightarrow> bool" where
  "string_keys (RSlice ty xs) = (\<forall>x \<in> set xs. string_keys x)"
| "string_keys (RMap ty kvs) = (\<forall>p \<in> set kvs. fst p \<noteq> None \<and> string_keys (snd p))"
| "string_keys (RPtr ty x) = string_keys x"
| "string_keys (RStruct ty fs) = (\<forall>p \<in> set fs. string_keys (snd p))"
| "string_keys _ = True"

lemma layout_simps [simp]:
  "layout [] = ''''" "layout ((d, l) # ls) = spaces d @ l @ newline @ layout ls"
  "layout (ls @ ms) = layout ls @ layout ms"
  by (simp_all add: layout_def)

lemma indent_loop_spaces:
  "indent_loop i v = v\<lparr>var_Out := var_Out v @ spaces (nat (var_indent v - i))\<rparr>"
proof (induction i v rule: indent_loop.induct)
  case (1 i v)
  show ?case
  proof (cases "i < var_indent v")
    case True
    then have "nat (var_indent v - i) = Suc (nat (var_indent v - (i + 1)))" by simp
    then show ?thesis using True 1 by (subst indent_loop.simps) simp
  qed (subst indent_loop.simps, simp)
qed

lemma printIndent_spaces [simp]:
  "var_indent v = int d \<Longrightarrow> printIndent v = v\<lparr>var_Out := var_Out v @ spaces d\<rparr>"
  by (simp add: printIndent_def indent_loop_spaces)

text \<open>A value prints its lines and leaves the depth as it was; a key that is not a string anywhere in it stops the dump.\<close>

definition prints :: "(nat \<times> string) list \<Rightarrow> bool \<Rightarrow> variable \<Rightarrow> variable option \<Rightarrow> bool" where
  "prints ls ok v r = (r = (if ok then Some (v\<lparr>var_Out := var_Out v @ layout ls\<rparr>) else None))"

lemma printType_indent: "var_indent (printType name ty v) = var_indent v"
  by (simp add: printType_def printIndent_def indent_loop_spaces)

lemma deeper_indent:
  "var_indent v = int d - 1 \<Longrightarrow> var_indent (printType name ty (deeper v)) = int (Suc d) - 1"
  by (simp add: printType_indent deeper_def)

lemma prints_nested:
  assumes "var_indent v = int d - 1" "prints ls ok (printType name ty (deeper v)) r"
  shows "prints ((d, name @ ''('' @ ty @ '')'') # ls) ok v (map_option higher r)"
  using assms by (simp add: prints_def printType_def deeper_def higher_def)

lemma prints_bind:
  assumes "prints ls ok v r" "\<And>w. r = Some w \<Longrightarrow> var_indent w = var_indent v \<Longrightarrow> prints ms ok' w (f w)"
  shows "prints (ls @ ms) (ok \<and> ok') v (Option.bind r f)"
  using assms by (cases ok) (auto simp: prints_def)

lemma prints_leaf:
  "var_indent v = int d - 1 \<Longrightarrow>
     prints [(d, name @ ''('' @ ty @ '') '' @ text)] True v (Some (higher (printValue name ty text (deeper v))))"
  by (simp add: prints_def printValue_def deeper_def higher_def)

lemma dump_prints:
  "var_indent v = int d - 1 \<Longrightarrow> prints (lines_of d name x) (string_keys x) v (dump_value x name v)"
  "var_indent v = int d - 1 \<Longrightarrow> prints (elem_lines d i xs) (\<forall>x \<in> set xs. string_keys x) v (dump_elems i xs v)"
  "var_indent v = int d - 1 \<Longrightarrow>
     prints (key_lines d kvs) (\<forall>p \<in> set kvs. fst p \<noteq> None \<and> string_keys (snd p)) v (dump_keys kvs v)"
  "var_indent v = int d - 1 \<Longrightarrow> prints (field_lines d fs) (\<forall>p \<in> set fs. string_keys (snd p)) v (dump_fields fs v)"
proof (induction x name v and i xs v and kvs v and fs v arbitrary: d and d and d and d
    rule: dump_value_dump_elems_dump_keys_dump_fields.induct)
  case (5 ty s name v)
  then show ?case by (simp only: dump_value.simps lines_of.simps string_keys.simps prints_leaf)
next
  case (6 name v)
  then show ?case using prints_leaf [of v d name "''string''" "[CHR 0x22, CHR 0x22]"] by simp
next
  case (8 i x xs v)
  show ?case
    using prints_bind [OF "8.IH"(1) [OF "8.prems"] "8.IH"(2)] "8.prems" by simp
next
  case (10 k x kvs v)
  show ?case
  proof (cases k)
    case None
    then show ?thesis by (simp add: prints_def)
  next
    case (Some n)
    show ?thesis
      using prints_bind [OF "10.IH"(1) [OF Some "10.prems"] "10.IH"(2) [OF Some]] "10.prems" Some by simp
  qed
next
  case (12 n x fs v)
  show ?case
    using prints_bind [OF "12.IH"(1) [OF "12.prems"] "12.IH"(2)] "12.prems" by simp
qed (simp_all only: dump_value.simps dump_elems.simps dump_keys.simps dump_fields.simps lines_of.simps elem_lines.simps
    key_lines.simps field_lines.simps string_keys.simps prints_nested deeper_indent, simp_all add: prints_def)

text \<open>\<open>Sdump\<close> shows every part of a value on a line of its own, two blanks deeper than the part that holds it.\<close>

theorem Sdump_lines: "Sdump x = (if string_keys x then Some (layout (lines_of 0 '''' x)) else None)"
  using dump_prints(1) [of "\<lparr>var_Out = '''', var_indent = -1\<rparr>" 0 "''''" x] by (simp add: Sdump_def prints_def)

section \<open>Paths of pictures\<close>

text \<open>The layout \<open>2006/01/02/15\<close> of the local time; \<open>z\<close> is the offset of the zone.\<close>

definition format_hour :: "date_time \<Rightarrow> string" where
  "format_hour t = pad 4 (dt_year t) @ ''/'' @ pad 2 (dt_month t) @ ''/'' @ pad 2 (dt_day t) @ ''/'' @ pad 2 (dt_hour t)"

definition TimeToHeadphpoto :: "int \<Rightarrow> int \<Rightarrow> int \<Rightarrow> int \<Rightarrow> string \<times> string" where
  "TimeToHeadphpoto z t userid headname =
     (let str = format_hour (date_of (t + z));
          str = ''./headpic/'' @ str @ ''/'' @ fmt_int userid;
          name = (if headname = 0 then ''/130_'' @ fmt_int userid @ ''.jpg'' else ''/'' @ fmt_int headname @ ''.jpg'')
      in (str, name))"

definition TimeToPhpotoPath :: "int \<Rightarrow> int \<Rightarrow> int \<Rightarrow> string" where
  "TimeToPhpotoPath z t userid =
     (let str = format_hour (date_of (t + z)) in ''./photo/'' @ str @ ''/'' @ fmt_int userid)"

lemma pad_inject:
  assumes "pad w n @ r = pad w m @ r'" "0 \<le> n" "n < 10 ^ w" "0 \<le> m" "m < 10 ^ w" "0 < w"
  shows "n = m \<and> r = r'"
  using num_pad [OF assms(2,3,6), of r] num_pad [OF assms(4,5,6), of r'] assms(1) by (metis option.inject prod.inject)


lemma hour_of_parts:
  assumes "valid_date d"
  shows "seconds_of d div 3600 = (days_before_year (dt_year d) + days_before_month (dt_year d) (dt_month d) + dt_day d - 1 - 719162) * 24 + dt_hour d"
proof -
  have "0 \<le> dt_min d * 60 + dt_sec d" "dt_min d * 60 + dt_sec d < 3600" using assms by (auto simp: valid_date_def)
  then show ?thesis by (simp add: seconds_of_def)
qed

lemma format_hour_inject:
  assumes e: "format_hour d @ x = format_hour f @ x'" and v: "valid_date d" "valid_date f"
    and y: "0 \<le> dt_year d" "dt_year d \<le> 9999" "0 \<le> dt_year f" "dt_year f \<le> 9999"
  shows "dt_year d = dt_year f \<and> dt_month d = dt_month f \<and> dt_day d = dt_day f \<and> dt_hour d = dt_hour f \<and> x = x'"
proof -
  have r: "0 \<le> dt_month t" "dt_month t < 10 ^ 2" "0 \<le> dt_day t" "dt_day t < 10 ^ 2" "0 \<le> dt_hour t" "dt_hour t < 10 ^ 2"
    if "valid_date t" for t using that MonthDays_bound [of "dt_year t" "dt_month t"] by (auto simp: valid_date_def)
  note b = r [OF v(1)] r [OF v(2)]
  have "dt_year d < 10 ^ 4" "dt_year f < 10 ^ 4" using y by simp_all
  from pad_inject [OF e [unfolded format_hour_def append_assoc] y(1) this(1) y(3) this(2)]
  have 1: "dt_year d = dt_year f"
    "pad 2 (dt_month d) @ ''/'' @ pad 2 (dt_day d) @ ''/'' @ pad 2 (dt_hour d) @ x =
     pad 2 (dt_month f) @ ''/'' @ pad 2 (dt_day f) @ ''/'' @ pad 2 (dt_hour f) @ x'" by simp_all
  from pad_inject [OF 1(2) b(1,2,7,8)] have 2: "dt_month d = dt_month f"
    "pad 2 (dt_day d) @ ''/'' @ pad 2 (dt_hour d) @ x = pad 2 (dt_day f) @ ''/'' @ pad 2 (dt_hour f) @ x'" by simp_all
  from pad_inject [OF 2(2) b(3,4,9,10)] have 3: "dt_day d = dt_day f" "pad 2 (dt_hour d) @ x = pad 2 (dt_hour f) @ x'" by simp_all
  from pad_inject [OF 3(2) b(5,6,11,12)] show ?thesis using 1(1) 2(1) 3(1) by simp
qed

text \<open>The directory of a picture determines the user and the hour of the time stamp: pictures of two users, or of two hours,
  are never stored in one directory.\<close>

theorem photo_path_inject:
  assumes "TimeToPhpotoPath z t a = TimeToPhpotoPath z u b"
    and "- 62135596800 \<le> t + z" "t + z < 253402300800" "- 62135596800 \<le> u + z" "u + z < 253402300800"
  shows "a = b \<and> (t + z) div 3600 = (u + z) div 3600"
proof -
  let ?d = "date_of (t + z)" let ?e = "date_of (u + z)"
  have v: "valid_date ?d" "valid_date ?e" by (simp_all add: date_of_ok)
  have y: "1 \<le> dt_year ?d" "dt_year ?d \<le> 9999" "1 \<le> dt_year ?e" "dt_year ?e \<le> 9999" using year_of_date assms by blast+
  have e: "format_hour ?d @ ''/'' @ fmt_int a = format_hour ?e @ ''/'' @ fmt_int b"
    using assms(1) unfolding TimeToPhpotoPath_def Let_def append_assoc by (simp only: same_append_eq)
  have p: "dt_year ?d = dt_year ?e \<and> dt_month ?d = dt_month ?e \<and> dt_day ?d = dt_day ?e \<and> dt_hour ?d = dt_hour ?e \<and> fmt_int a = fmt_int b"
    using format_hour_inject [OF e v] y by simp
  then have "seconds_of ?d div 3600 = seconds_of ?e div 3600" by (simp add: hour_of_parts v)
  then show ?thesis using p fmt_int_inject date_of_ok by auto
qed

section \<open>Codes of invitations\<close>

text \<open>\<open>UseridCovToInvate\<close> at the time stamp \<open>now\<close>: \<open>None\<close> is the panic of a slice of a text that is too short.\<close>

definition UseridCovToInvate :: "int \<Rightarrow> string \<Rightarrow> u32 option" where
  "UseridCovToInvate now userid =
     (let timestr = fmt_int now in
        if length userid < 4 \<or> length timestr < 5 then None
        else (let useridbyte = drop (length userid - 4) userid;
                  timestr = drop (length timestr - 5) timestr;
                  code = fst (Atoi (useridbyte @ timestr))
              in Some (word_of_int code)))"

lemma dec_value_concat: "dec_value (a @ b) = dec_value a * 10 ^ length b + dec_value b"
proof (induction b rule: rev_induct)
  case (snoc c b)
  then show ?case using dec_value_append [of "a @ b" c] dec_value_append [of b c] by (simp add: algebra_simps)
qed (simp add: dec_value_def)

lemma dec_value_bound: "list_all is_digit s \<Longrightarrow> 0 \<le> dec_value s \<and> dec_value s < 10 ^ length s"
proof (induction s rule: rev_induct)
  case (snoc c s)
  then have "digit_val c \<le> 9" by (auto simp: is_digit_def digit_val_def)
  then show ?case using snoc dec_value_append [of s c] by auto
qed (simp add: dec_value_def)

lemma parse_digits_all:
  "list_all is_digit s \<Longrightarrow> dec_value s \<le> int mx \<Longrightarrow> parse_digits mx s 0 = (nat (dec_value s), True)"
proof (induction s rule: rev_induct)
  case (snoc c s)
  then have "0 \<le> dec_value s" "dec_value s * 10 + int (digit_val c) \<le> int mx"
    using dec_value_bound [of s] dec_value_append [of s c] by auto
  moreover from this have "parse_digits mx s 0 = (nat (dec_value s), True)" using snoc by auto
  moreover have "nat (dec_value s) * 10 + digit_val c = nat (dec_value (s @ [c]))"
    using \<open>0 \<le> dec_value s\<close> by (simp add: dec_value_append nat_add_distrib nat_mult_distrib)
  ultimately show ?case using snoc by (simp add: parse_digits_append dec_value_append Let_def)
qed (simp add: dec_value_def)

lemma Atoi_digits:
  assumes "list_all is_digit s" "s \<noteq> []" "length s \<le> 18"
  shows "Atoi s = (dec_value s, True)"
proof -
  obtain c cs where c: "s = c # cs" "is_digit c" using assms by (cases s) auto
  have "(10 :: int) ^ length s \<le> 10 ^ 18" using assms(3) by (rule power_increasing) simp
  then have b: "0 \<le> dec_value s" "dec_value s < 10 ^ 18" using dec_value_bound [OF assms(1)] by auto
  then have "ParseUint 64 s = (nat (dec_value s), True)"
    using parse_digits_all [OF assms(1), of "2 ^ 64 - 1"] assms(2) by (simp add: ParseUint_def)
  moreover have "c \<noteq> CHR ''+''" "c \<noteq> CHR ''-''" using c(2) by (auto simp: is_digit_def)
  ultimately show ?thesis using b c(1) by (simp add: Atoi_def ParseInt_def parse_signed_def nat_le_iff)
qed

lemma fmt_nat_tail:
  assumes "k \<le> length (fmt_nat n)"
  shows "dec_value (drop (length (fmt_nat n) - k) (fmt_nat n)) = int (n mod 10 ^ k)"
proof -
  let ?a = "take (length (fmt_nat n) - k) (fmt_nat n)" and ?b = "drop (length (fmt_nat n) - k) (fmt_nat n)"
  have "list_all is_digit ?b" using fmt_nat_digits by (auto simp: list_all_iff dest: in_set_dropD)
  then have b: "0 \<le> dec_value ?b" "dec_value ?b < 10 ^ k" using dec_value_bound [of ?b] assms by auto
  have "int n = dec_value ?a * 10 ^ k + dec_value ?b"
    using dec_value_concat [of ?a ?b] dec_value_fmt [of n] assms by simp
  then have "int n mod 10 ^ k = dec_value ?b" using b by simp
  then show ?thesis by (simp add: zmod_int)
qed

text \<open>
  The code of a user whose number ends in the four digits \<open>s\<close> is \<open>s\<close> followed by the last five digits of the time stamp, so
  two users with the same last four digits who ask in one second get one code.
\<close>

theorem UseridCovToInvate_code:
  assumes "list_all is_digit s" "length s = 4" "10000 \<le> now"
  shows "UseridCovToInvate now (p @ s) = Some (word_of_int (dec_value s * 100000 + now mod 100000))"
proof -
  let ?f = "fmt_nat (nat now)" let ?t = "drop (length ?f - 5) ?f"
  have "5 \<le> length ?f"
  proof (rule ccontr)
    assume "\<not> 5 \<le> length ?f"
    moreover have "int (nat now) < 10 ^ length ?f"
      using dec_value_bound [of ?f] fmt_nat_digits by (auto simp: dec_value_fmt list_all_iff)
    moreover have "(10 :: int) ^ length ?f \<le> 10 ^ 4" if "length ?f \<le> 4" using that by (rule power_increasing) simp
    ultimately show False using assms(3) by simp
  qed
  then have "dec_value ?t = now mod 100000" "length ?t = 5"
    using fmt_nat_tail [of 5 "nat now"] assms(3) by (simp_all add: zmod_int)
  moreover have "list_all is_digit (s @ ?t)" using assms(1) fmt_nat_digits by (auto simp: list_all_iff dest: in_set_dropD)
  then have "Atoi (s @ ?t) = (dec_value s * 10 ^ length ?t + dec_value ?t, True)"
    using Atoi_digits [of "s @ ?t"] assms(2) calculation(2) unfolding dec_value_concat by (cases s) simp_all
  ultimately show ?thesis
    using assms \<open>5 \<le> length ?f\<close> by (simp add: UseridCovToInvate_def fmt_int_def Let_def)
qed

lemma UseridCovToInvate_short: "length userid < 4 \<Longrightarrow> UseridCovToInvate now userid = None"
  by (simp add: UseridCovToInvate_def Let_def)

end
