(* ===== verification/Spec2Isabelle.thy ===== *)
theory Spec2Isabelle
  imports AlgoTing AlgoDirty Fan TimerRun Xxtea Encodings TextRules AdminProps PlayerData Statistics
    Pool PooledReads LoginRecords CsvTables ToConvert Containers FileStore Helpers Calendar Debug
begin

text \<open>
  \<^bold>\<open>The program.\<close>  The repository is the administration server of a mahjong game, written in Go: a web
  server whose handlers read and change the data the game server keeps in an SSDB database.  Its own code
  is under \<^verbatim>\<open>src/src\<close> (file names below are relative to it):

    \<^item> \<^verbatim>\<open>admin.go\<close> sets up the routes and the middleware; \<^verbatim>\<open>user/\<close> holds the handlers for administrators, groups
      and their log, \<^verbatim>\<open>role/\<close>, \<^verbatim>\<open>operation/\<close> and \<^verbatim>\<open>statistics/\<close> those for players, records and figures;
    \<^item> \<^verbatim>\<open>data/\<close> stores and loads the records the handlers work on, \<^verbatim>\<open>resource/\<close> changes the balances of
      players, \<^verbatim>\<open>csv/\<close> reads the tables of the game with \<^verbatim>\<open>basic/csv/\<close>;
    \<^item> \<^verbatim>\<open>basic/ssdb/\<close> is the database client: conversion of values to text (\<^verbatim>\<open>to\<close>), the wire protocol, a client
      with one retry, a pool of clients, and a method per command (\<^verbatim>\<open>gossdb\<close>); \<^verbatim>\<open>basic/iplocation/\<close> looks up the
      place of an address in a data file;
    \<^item> \<^verbatim>\<open>basic/utils/\<close> are the shared helpers: a ring buffer, timers, a cipher, number formats, text rules;
    \<^item> \<^verbatim>\<open>algo/\<close> and \<^verbatim>\<open>constan/\<close> are the rules of the game: winning hands, waiting hands, discards, scores.

  A handler calls the data package, which calls the client, which encodes a command, sends it and decodes the
  reply.  The theories follow this order from below, and the properties of a layer rest on those under it.

  \<^bold>\<open>How Go is modelled.\<close>  Fixed-width integers are words, so that arithmetic wraps as in Go; \<open>int\<close> is \<open>int64\<close>.
  A slice is a list; an in-place change is returned, and an index out of range is \<open>None\<close> (\<open>Prelude\<close>).  Structures
  are records, methods are functions that return the changed receiver, \<open>(value, error)\<close> results are sums with the
  error on the left.  Loops are recursive functions; those whose end is not evident from the data carry fuel or
  return an option, and the theorems about them state that they return: \<open>Sort\<close> and \<open>Run\<close> are proved to return,
  without assuming it.  Library functions of Go that the code uses (\<open>strconv\<close>, \<open>container/heap\<close>, UTF-8, \<open>sort\<close>,
  \<open>regexp\<close> matching, \<open>strings\<close>) are defined from their documentation.  Code outside the repository is a
  parameter: the network and the database server (record \<open>net\<close>), JSON (record \<open>codec\<close>), md5, the clock, the order in
  which a map is traversed, the random source, the decimal parsing of floating-point numbers, and powers in
  floating point (\<open>Encodings\<close>, used only where they are exact), the operations on \<open>float32\<close> (\<open>Statistics\<close>)
  and the game server that receives letters (\<open>Letters\<close>).

  \<^bold>\<open>The game.\<close>
    \<^item> \<open>AlgoSort\<close> (\<open>Sort\<close> of \<^verbatim>\<open>algo/algorithm.go\<close>): the quicksort returns a sorted permutation (C1).
    \<^item> \<open>AlgoHu\<close>, \<open>AlgoHuCorrect\<close>, \<open>AlgoHuComplete\<close> (\<open>ExistHu\<close>, \<open>existFour\<close>): four of a kind, soundness of the
      greedy recognition of winning hands against the rule (C3), its equivalence with the rule when at most three
      of the lowest tile are held (C4), and a winning hand it rejects (\<open>ExistHu_misses_hand\<close>).
    \<^item> \<open>AlgoTing\<close>, \<open>AlgoDirty\<close> (\<open>Ting\<close>, \<open>SearchDirtyCard\<close>): waiting hands (C6, and a wait that is
      missed) and discards (C8, and the lemma that triplets are not broken up).
    \<^item> \<open>Fan\<close> (\<^verbatim>\<open>constan/constan.go\<close>): scores of seven pairs (\<open>seven_pairs_fan\<close>).

  \<^bold>\<open>The database client.\<close>
    \<^item> \<open>Strconv\<close>, \<open>To\<close> (\<^verbatim>\<open>basic/ssdb/to/to.go\<close>): numbers and their text (C12); \<open>ToConvert\<close>: durations in two notations
      (C33), times, floats and the conversion to a kind chosen at run time (C40).
    \<^item> \<open>Wire\<close> (\<^verbatim>\<open>gossdb/ssdb.go\<close>): \<open>Send\<close>, \<open>Recv\<close>, \<open>parse\<close> over explicit buffers; the input of a connection is the
      sequence of segments that arrive, of which a read takes at most 32 KB.  The parser inverts the format (C13), a reply that
      one read takes whole crosses the wire unchanged (C14), and a reply cut in two comes back cut, and again with the next
      request (C15).
    \<^item> \<open>Client\<close> (\<^verbatim>\<open>client.go\<close>, \<^verbatim>\<open>value.go\<close>), \<open>HashStore\<close>, \<open>KvStore\<close>, \<open>QueueStore\<close>, \<open>ZsetStore\<close> (\<^verbatim>\<open>hset.go\<close>, \<^verbatim>\<open>set.go\<close>,
      \<^verbatim>\<open>queue.go\<close>, \<^verbatim>\<open>zset.go\<close>): a definition per method, over a network that answers a list of byte strings.
    \<^item> \<open>SsdbSpec\<close>: the documented behaviour of the server as locales (\<open>ssdb_hash\<close>, \<open>ssdb_list\<close>, \<open>ssdb\<close>), lemmas about
      the client methods inside them, and their interpretation on a reference server (C16, C17, C20).
    \<^item> \<open>Pool\<close> (\<^verbatim>\<open>gossdb.go\<close>): the channel of clients shared by goroutines as a step relation; no client is used twice at
      a time (C9), and a waiting goroutine can be served unless all clients were lost (C10).
    \<^item> \<open>SharedBuffer\<close>, \<open>PooledReads\<close>: the memory of the receive buffers.  A reply is a list of slices of the buffer of its
      client, which later replies overwrite, and the client is back in the pool before the reply is read.  Each
      client alone refines the copying model of \<open>Wire\<close>.  Between two requests of a page other goroutines, the ping loop included,
      may use the pool; \<open>rely\<close> says how many requests they make.  A page of records read over the pool refines the page
      over copied replies if its entries and the requests of the others are no more than the idle connections and every
      reply fits one read (C19); \<open>long_page_loses_records\<close> is an example of what happens otherwise.

  \<^bold>\<open>The helpers.\<close>
    \<^item> \<open>Fifo\<close> (\<^verbatim>\<open>utils/queue.go\<close>): the locale \<open>fifo\<close> and the ring buffer as its implementation (C11).
    \<^item> \<open>TimerHeap\<close>, \<open>TimerRun\<close> (\<^verbatim>\<open>utils/timer_queue.go\<close>): the heap of timers implements the locale \<open>prio_queue\<close>; firing,
      dumping and every reachable state of the manager (C21 to C23).  The result of \<open>Run\<close> tells a panic (\<open>Some None\<close>) from a loop
      that does not end (\<open>None\<close>).
    \<^item> \<open>Xxtea\<close> (\<^verbatim>\<open>utils/xxtea.go\<close>): decryption undoes encryption (C24).
    \<^item> \<open>Utf8\<close>, \<open>NumString\<close>, \<open>Encodings\<close>, \<open>TextRules\<close> (\<^verbatim>\<open>utils/utils.go\<close>): decimal text (C25), base 62 and
      addresses (C27), byte orders, checks of names and accounts, cuts and slices.
    \<^item> \<open>Containers\<close> (\<^verbatim>\<open>utils/list.go\<close>, \<^verbatim>\<open>utils/map.go\<close>, \<^verbatim>\<open>basic/event\<close>): the shared list and map, and the dispatcher of events: what
      it does when it is called in sequence (C7), and for goroutines at the same time that its locks keep registrations apart
      from everything else but let two dispatches race on the map (C31).  The model of the goroutines ends at a race.
    \<^item> \<open>Calendar\<close> (\<^verbatim>\<open>utils/utils.go\<close>): dates of time stamps, their text and back (C36), the start of the day.
    \<^item> \<open>Debug\<close> (\<^verbatim>\<open>utils/debug.go\<close>, \<^verbatim>\<open>utils/utils.go\<close>): the dump of a value as a tree of lines, the paths of pictures and the
      codes of invitations.
    \<^item> \<open>Helpers\<close> (\<^verbatim>\<open>utils/aes.go\<close>, \<^verbatim>\<open>utils/structandmap.go\<close>): AES in the CFB mode with its round trip, structures from maps.
    \<^item> \<open>FileStore\<close> (\<^verbatim>\<open>basic/imageserver\<close>, \<^verbatim>\<open>sys/files.go\<close>): a file system with a working directory; portraits are found again
      and never overwritten (C28), uploads can leave their directory.
    \<^item> \<open>IpLocation\<close> (\<^verbatim>\<open>basic/iplocation\<close>): the binary search in the bytes of the data file (C29).
    \<^item> \<open>CsvText\<close>, \<open>CsvCodec\<close> (\<^verbatim>\<open>basic/csv\<close>): the text format of Go's \<^verbatim>\<open>encoding/csv\<close> and the conversion of slices of structures,
      its round trip (C30) and its silent end at a bad cell (C38); \<open>CsvTables\<close> (\<^verbatim>\<open>csv/\<close>): the sixteen tables with their
      tags and getters, and the columns that are never read (C26).

  \<^bold>\<open>The administration.\<close>
    \<^item> \<open>AdminData\<close>, \<open>AdminHandlers\<close>, \<open>AdminProps\<close> (\<^verbatim>\<open>data/\<close>, \<^verbatim>\<open>user/\<close>, \<^verbatim>\<open>admin.go\<close>): accounts, groups, the log, the
      lockout after failed logins, sessions, and every handler with its replies; the locale \<open>admin_env\<close> states what
      the handlers need of the database and of JSON and is interpreted on the reference server (C34, C35, C37).  The lockout
      is proved for requests to all these routes that are handled one after the other (\<open>serve\<close>).
    \<^item> \<open>PlayerData\<close> (\<^verbatim>\<open>data/data_user.go\<close>, \<^verbatim>\<open>resource/resource.go\<close>): players stored field by field, allocation of ids
      under the locale \<open>ssdb_kv\<close>, balances (C39), passwords.
    \<^item> \<open>RoleHandlers\<close> (\<^verbatim>\<open>role/\<close>): editing, searching and listing players; the pages of the list (C32).
    \<^item> \<open>GameRecords\<close> (\<^verbatim>\<open>data/game_record.go\<close>, \<^verbatim>\<open>data/data_ipay.go\<close>, the record handlers of \<^verbatim>\<open>operation/\<close>): saved games are
      found again, page by page, by a caller that copies the replies.  \<open>LoginRecords\<close> (\<^verbatim>\<open>operation/loginrecord.go\<close>)
      adds the place of the address and the name of the player to the logins.
    \<^item> \<open>Letters\<close> (\<^verbatim>\<open>data/data_postbox.go\<close>, \<^verbatim>\<open>data/data_notice.go\<close>, \<^verbatim>\<open>basic/rpc\<close>, \<^verbatim>\<open>admincall/\<close>, the handlers for letters,
      notices and gifts): letters are lost unnoticed (C18), and an appendix can be drawn again and again (C5).
    \<^item> \<open>Statistics\<close> (\<^verbatim>\<open>statistics/\<close>, \<^verbatim>\<open>data/data_newuser.go\<close>, \<^verbatim>\<open>data/data_online.go\<close>): the days of a report, with the proof
      that the loop ends (C2), and the retention figures, under the locale \<open>stat_db\<close>.

  \<^bold>\<open>Bounds.\<close>  The plain text of C24 is at most 2^32 - 8 bytes long, the range of the length word of the cipher;
  C11 and the heap of timers hold for lengths an \<open>int\<close> can count; C14 and C19 hold for replies of at most 32768 bytes, the
  size of one read.  A witness accompanies every property with
  hypotheses and applies it to concrete data; the interpretations show that the contracts can hold.

  \<^bold>\<open>Not modelled.\<close>  Goroutines and locks outside \<open>Pool\<close>, \<open>PooledReads\<close> and the dispatcher: an operation is one step.  In particular
  the counters of failed logins (\<^verbatim>\<open>data/data_limit_login.go\<close>) have no lock in the code, and logins handled at the same time are
  outside the model.  The client methods over a \<open>net\<close> see every reply whole, as C14 gives it for replies of up to 32 KB that arrive at
  once.  The aliasing of replies is modelled
  for pages of records only; elsewhere a reply is copied, as a caller sees it that reads it before the pool has gone
  round.  Handlers of timers that call back into their manager; sockets, deadlines, file permissions, cookies beyond the
  value read, and log output; the configuration (\<^verbatim>\<open>data/conf.go\<close>), which the JSON decoder fills; the fixed side bar
  (\<^verbatim>\<open>sys/sidebar.go\<close>), the wrappers of \<^verbatim>\<open>math/rand\<close> and the figures of the garbage collector.  Packages under \<^verbatim>\<open>github.com\<close>, \<^verbatim>\<open>golang.org\<close> and \<^verbatim>\<open>gopkg.in\<close> are third-party.
\<close>

end
